(* ===== verification/Prelude.thy ===== *)
theory Prelude
  imports
    Main
    "HOL-Library.Word"
    "HOL-Library.Multiset"
    "HOL-Library.Char_ord"
    "HOL-Library.List_Lexorder"
begin

text \<open>
  The vocabulary every other theory of the development shares: Go's error values and their
  wrapping, contexts, 64-bit integers and durations, slices, and the part of the packages
  \<open>strings\<close> and \<open>strconv\<close> that the services call on symbols and numbers.
  The collections \<open>go_std\<close> (the standard library) and \<open>inv_intro\<close> (introduction rules
  of invariants) gather the rewrite and introduction rules the component theories use.
\<close>

named_theorems go_std \<open>standard-library functions unfolded by the component proofs\<close>
named_theorems inv_intro \<open>introduction rules for the invariants of the components\<close>

section \<open>Errors\<close>

text \<open>
  A Go \<open>error\<close> is a sentinel value compared by identity, a message made by
  \<open>fmt.Errorf\<close> without a wrapped error, or a message that wraps another error. Every
  \<open>%w\<close> of the repository stands at the end of its format, so the text of a wrapping error
  is its prefix followed by the text of the error it wraps. A nil error is \<open>None\<close>.
\<close>

datatype sentinel =
    CtxCanceled
  | CtxDeadlineExceeded
  | RedisNil
  | ErrServerClosed
  | ErrLagNotConfigured

datatype goerror =
    Sentinel sentinel
  | Errorf string
  | Wrapf string goerror

fun sentinel_text :: "sentinel \<Rightarrow> string" where
  "sentinel_text CtxCanceled = ''context canceled''"
| "sentinel_text CtxDeadlineExceeded = ''context deadline exceeded''"
| "sentinel_text RedisNil = ''redis: nil''"
| "sentinel_text ErrServerClosed = ''http: Server closed''"
| "sentinel_text ErrLagNotConfigured = ''not_configured''"

fun error_text :: "goerror \<Rightarrow> string" where
  "error_text (Sentinel s) = sentinel_text s"
| "error_text (Errorf m) = m"
| "error_text (Wrapf p e) = p @ error_text e"

fun wraps :: "goerror \<Rightarrow> sentinel \<Rightarrow> bool" where
  "wraps (Sentinel s) t = (s = t)"
| "wraps (Errorf m) t = False"
| "wraps (Wrapf p e) t = wraps e t"

text \<open>\<open>errors.Is(err, target)\<close>: a nil error is no sentinel.\<close>

definition errors_Is :: "goerror option \<Rightarrow> sentinel \<Rightarrow> bool" where
  [go_std]: "errors_Is err t = (case err of None \<Rightarrow> False | Some e \<Rightarrow> wraps e t)"

text \<open>
  A context is modelled by what \<open>ctx.Err()\<close> returns: \<open>None\<close> while it is live, the
  reason once it is done.
\<close>

type_synonym ctx = "goerror option"

abbreviation ctx_live :: ctx where "ctx_live \<equiv> None"
abbreviation ctx_canceled :: ctx where "ctx_canceled \<equiv> Some (Sentinel CtxCanceled)"

text \<open>\<open>errgroup.Group.Wait\<close>: the first error among the results of the group's functions, in the
  order in which they returned.\<close>

definition g_Wait :: "goerror option list \<Rightarrow> goerror option" where
  "g_Wait results = (case find (\<lambda>r. r \<noteq> None) results of Some r \<Rightarrow> r | None \<Rightarrow> None)"

section \<open>Integers, durations, slices\<close>

type_synonym int64 = "64 word"
type_synonym duration = "64 word"

text \<open>Instants are nanoseconds since the Unix epoch. The zero \<open>time.Time\<close> is the first
  of January of the year 1; \<open>Sub\<close> saturates at the ends of \<open>time.Duration\<close>.\<close>

type_synonym gotime = int

definition zero_time :: gotime where
  "zero_time = - 62135596800 * 1000000000"

definition IsZero :: "gotime \<Rightarrow> bool" where
  "IsZero t = (t = zero_time)"

definition max_int64 :: int where "max_int64 = 9223372036854775807"
definition min_int64 :: int where "min_int64 = - 9223372036854775808"

definition time_Sub :: "gotime \<Rightarrow> gotime \<Rightarrow> duration" where
  "time_Sub t u = word_of_int (max min_int64 (min max_int64 (t - u)))"

abbreviation Second :: duration where "Second \<equiv> 1000000000"
abbreviation Millisecond :: duration where "Millisecond \<equiv> 1000000"
abbreviation Minute :: duration where "Minute \<equiv> 60 * 1000000000"

text \<open>A nil slice and an empty one have the same elements and length but a different JSON
  encoding.\<close>

type_synonym 'a slice = "'a list option"

definition elems :: "'a slice \<Rightarrow> 'a list" where
  [go_std]: "elems s = (case s of None \<Rightarrow> [] | Some xs \<Rightarrow> xs)"

section \<open>Strings\<close>

definition ascii_char :: "char \<Rightarrow> bool" where
  "ascii_char c = (of_char c < (128::nat))"

definition ascii :: "string \<Rightarrow> bool" where
  "ascii s = list_all ascii_char s"

definition is_upper :: "char \<Rightarrow> bool" where
  "is_upper c = (CHR ''A'' \<le> c \<and> c \<le> CHR ''Z'')"

definition is_lower :: "char \<Rightarrow> bool" where
  "is_lower c = (CHR ''a'' \<le> c \<and> c \<le> CHR ''z'')"

definition is_digit :: "char \<Rightarrow> bool" where
  "is_digit c = (CHR ''0'' \<le> c \<and> c \<le> CHR ''9'')"

definition ascii_up :: "char \<Rightarrow> char" where
  "ascii_up c = (if is_lower c then char_of (of_char c - (32::nat)) else c)"

definition ascii_low :: "char \<Rightarrow> char" where
  "ascii_low c = (if is_upper c then char_of (of_char c + (32::nat)) else c)"

definition ascii_space :: "char \<Rightarrow> bool" where
  "ascii_space c = (c \<in> {CHR '' '', CHR 0x09, CHR 0x0A, CHR 0x0B, CHR 0x0C, CHR 0x0D})"

text \<open>
  \<open>strings.ToUpper\<close>, \<open>ToLower\<close>, \<open>TrimSpace\<close> and the verb \<open>%q\<close> work bytewise on ASCII
  strings; on other strings they consult Go's Unicode tables, which are generated data. The
  tables are a parameter of the model, \<open>unicode\<close>: what these functions return on a string
  that is not ASCII.
\<close>

record unicode =
  uni_upper :: "string \<Rightarrow> string"
  uni_lower :: "string \<Rightarrow> string"
  uni_trim :: "string \<Rightarrow> string"
  uni_quote :: "string \<Rightarrow> string"

text \<open>An instance for concrete runs on ASCII data: other strings are left as they are.\<close>

definition ascii_tables :: unicode where
  "ascii_tables = \<lparr>uni_upper = \<lambda>s. s, uni_lower = \<lambda>s. s, uni_trim = \<lambda>s. s, uni_quote = \<lambda>s. s\<rparr>"

definition ToUpper :: "unicode \<Rightarrow> string \<Rightarrow> string" where
  "ToUpper U s = (if ascii s then map ascii_up s else uni_upper U s)"

definition ToLower :: "unicode \<Rightarrow> string \<Rightarrow> string" where
  "ToLower U s = (if ascii s then map ascii_low s else uni_lower U s)"

definition trim_ascii :: "string \<Rightarrow> string" where
  "trim_ascii s = rev (dropWhile ascii_space (rev (dropWhile ascii_space s)))"

definition TrimSpace :: "unicode \<Rightarrow> string \<Rightarrow> string" where
  "TrimSpace U s = (if ascii s then trim_ascii s else uni_trim U s)"

text \<open>The verb \<open>%q\<close>: a double-quoted Go string literal.\<close>

definition hex_low :: "nat \<Rightarrow> char" where
  "hex_low d = (if d < 10 then char_of (48 + d) else char_of (87 + d))"

definition quote_q_char :: "char \<Rightarrow> string" where
  "quote_q_char c =
     (let n = of_char c :: nat
      in if c = CHR 0x22 then [CHR 0x5C, CHR 0x22]
         else if c = CHR 0x5C then [CHR 0x5C, CHR 0x5C]
         else if 32 \<le> n \<and> n < 127 then [c]
         else if n = 7 then [CHR 0x5C, CHR ''a'']
         else if n = 8 then [CHR 0x5C, CHR ''b'']
         else if n = 9 then [CHR 0x5C, CHR ''t'']
         else if n = 10 then [CHR 0x5C, CHR ''n'']
         else if n = 11 then [CHR 0x5C, CHR ''v'']
         else if n = 12 then [CHR 0x5C, CHR ''f'']
         else if n = 13 then [CHR 0x5C, CHR ''r'']
         else [CHR 0x5C, CHR ''x'', hex_low (n div 16), hex_low (n mod 16)])"

definition quote_q :: "unicode \<Rightarrow> string \<Rightarrow> string" where
  "quote_q U s =
     (if ascii s then CHR 0x22 # concat (map quote_q_char s) @ [CHR 0x22] else uni_quote U s)"

section \<open>Decimal integers\<close>

definition digit_char :: "nat \<Rightarrow> char" where
  "digit_char d = char_of (48 + d)"

definition digit_val :: "char \<Rightarrow> nat" where
  "digit_val c = of_char c - 48"

fun nat_digits :: "nat \<Rightarrow> string" where
  "nat_digits n = (if n < 10 then [digit_char n] else nat_digits (n div 10) @ [digit_char (n mod 10)])"

declare nat_digits.simps [simp del]

text \<open>\<open>strconv.FormatInt(i, 10)\<close> and the verb \<open>%d\<close>.\<close>

definition FormatInt :: "int \<Rightarrow> string" where
  "FormatInt i = (if i < 0 then CHR ''-'' # nat_digits (nat (- i)) else nat_digits (nat i))"

definition digits_val :: "string \<Rightarrow> nat" where
  "digits_val s = foldl (\<lambda>acc c. 10 * acc + digit_val c) 0 s"

text \<open>\<open>strconv.ParseInt(s, 10, 64)\<close>: an optional sign, at least one digit, in range.\<close>

definition parse_digits :: "string \<Rightarrow> nat option" where
  "parse_digits s = (if s \<noteq> [] \<and> list_all is_digit s then Some (digits_val s) else None)"

definition in_int64 :: "int \<Rightarrow> bool" where
  "in_int64 i = (min_int64 \<le> i \<and> i \<le> max_int64)"

definition ParseInt :: "string \<Rightarrow> int64 option" where
  "ParseInt s =
     (let r = (case s of
          [] \<Rightarrow> None
        | c # cs \<Rightarrow>
            (if c = CHR ''-'' then map_option (\<lambda>n. - int n) (parse_digits cs)
             else if c = CHR ''+'' then map_option int (parse_digits cs)
             else map_option int (parse_digits s)))
      in (case r of None \<Rightarrow> None
          | Some i \<Rightarrow> (if in_int64 i then Some (word_of_int i) else None)))"

section \<open>Lemmas\<close>

subsection \<open>Errors\<close>

lemma errors_Is_simps [simp]:
  "\<not> errors_Is None t"
  "errors_Is (Some (Sentinel s)) t = (s = t)"
  "\<not> errors_Is (Some (Errorf m)) t"
  "errors_Is (Some (Wrapf p e)) t = errors_Is (Some e) t"
  by (simp_all add: errors_Is_def)

lemma g_Wait_None: "g_Wait results = None \<longleftrightarrow> (\<forall>r \<in> set results. r = None)"
  by (induction results) (auto simp: g_Wait_def)

lemma g_Wait_simps [simp]:
  "g_Wait [] = None" "g_Wait (Some e # rs) = Some e" "g_Wait (None # rs) = g_Wait rs"
  by (simp_all add: g_Wait_def)

lemma elems_simps [simp]: "elems None = []" "elems (Some xs) = xs"
  by (simp_all add: elems_def)

subsection \<open>Signed readings of 64-bit words\<close>

lemma sint64_range:
  fixes w :: int64
  shows "- (2 ^ 63) \<le> sint w" and "sint w < 2 ^ 63"
  using sint_ge [of w] sint_lt [of w] by simp_all

lemma sint64_of_int:
  assumes "- (2 ^ 63) \<le> i" and "i < 2 ^ 63"
  shows "sint (word_of_int i :: int64) = i"
  using assms by (simp add: sint_sbintrunc' signed_take_bit_int_eq_self)

lemma sint64_add:
  fixes a b :: int64
  assumes "- (2 ^ 63) \<le> sint a + sint b" and "sint a + sint b < 2 ^ 63"
  shows "sint (a + b) = sint a + sint b"
  using assms by (simp add: sint_word_ariths(1) signed_take_bit_int_eq_self)

lemma sint64_mult:
  fixes a b :: int64
  assumes "- (2 ^ 63) \<le> sint a * sint b" and "sint a * sint b < 2 ^ 63"
  shows "sint (a * b) = sint a * sint b"
  using assms by (simp add: sint_word_ariths(3) signed_take_bit_int_eq_self)

lemma sint_time_Sub: "sint (time_Sub t u) = max min_int64 (min max_int64 (t - u))"
  unfolding time_Sub_def
  by (rule sint64_of_int) (simp_all add: min_int64_def max_int64_def)

end
