(* ===== verification/Float64.thy ===== *)
theory Float64
  imports Prelude Complex_Main
begin

text \<open>
  Go's \<open>float64\<close>, the IEEE 754 binary64 type every price, quantity and notional of the
  pipeline has. A value is its bit pattern. The low 63 bits are the magnitude: magnitudes are
  ordered as the absolute values they denote, \<open>inf_mag\<close> is infinity and larger ones are
  NaN. Comparison, multiplication with rounding to nearest (ties to even), and the conversion
  from a ratio of naturals (which \<open>strconv.ParseFloat\<close> and integer conversion use) are
  executable. The lemmas show that rounding is exact on representable values and within half
  a unit in the last place otherwise, and how signs, zeros, infinities and NaN propagate.
\<close>

section \<open>Representation\<close>

datatype float64 = Float64frombits (Float64bits: "64 word")

definition mag :: "float64 \<Rightarrow> nat" where
  "mag x = unat (Float64bits x) mod 2 ^ 63"

definition neg :: "float64 \<Rightarrow> bool" where
  "neg x = (2 ^ 63 \<le> unat (Float64bits x))"

definition inf_mag :: nat where
  "inf_mag = 2047 * 2 ^ 52"

definition pack :: "bool \<Rightarrow> nat \<Rightarrow> float64" where
  "pack s m = Float64frombits (of_nat ((if s then 2 ^ 63 else 0) + m))"

definition is_nan :: "float64 \<Rightarrow> bool" where
  "is_nan x = (inf_mag < mag x)"

definition is_inf :: "float64 \<Rightarrow> bool" where
  "is_inf x = (mag x = inf_mag)"

definition is_finite :: "float64 \<Rightarrow> bool" where
  "is_finite x = (mag x < inf_mag)"

definition f_zero :: float64 where "f_zero = pack False 0"
definition f_nan :: float64 where "f_nan = pack False (inf_mag + 1)"
definition f_inf :: float64 where "f_inf = pack False inf_mag"
definition f_one :: float64 where "f_one = pack False (1023 * 2 ^ 52)"

text \<open>A finite magnitude denotes \<open>mant m * 2 powi expo m\<close>.\<close>

definition mant :: "nat \<Rightarrow> nat" where
  "mant m = (if m < 2 ^ 52 then m else 2 ^ 52 + m mod 2 ^ 52)"

definition expo :: "nat \<Rightarrow> int" where
  "expo m = (if m < 2 ^ 52 then - 1074 else int (m div 2 ^ 52) - 1075)"

section \<open>Comparison\<close>

definition fkey :: "float64 \<Rightarrow> int" where
  "fkey x = (if neg x then - int (mag x) else int (mag x))"

definition f_le :: "float64 \<Rightarrow> float64 \<Rightarrow> bool" where
  "f_le x y = (\<not> is_nan x \<and> \<not> is_nan y \<and> fkey x \<le> fkey y)"

definition f_lt :: "float64 \<Rightarrow> float64 \<Rightarrow> bool" where
  "f_lt x y = (\<not> is_nan x \<and> \<not> is_nan y \<and> fkey x < fkey y)"

definition f_eq :: "float64 \<Rightarrow> float64 \<Rightarrow> bool" where
  "f_eq x y = (\<not> is_nan x \<and> \<not> is_nan y \<and> fkey x = fkey y)"

section \<open>Rounding\<close>

fun nbits :: "nat \<Rightarrow> nat" where
  "nbits n = (if n = 0 then 0 else Suc (nbits (n div 2)))"

declare nbits.simps [simp del]

text \<open>Integer quotient rounded to nearest, ties to even.\<close>

definition rne_div :: "nat \<Rightarrow> nat \<Rightarrow> nat" where
  "rne_div a b =
     (let d = a div b; r = a mod b
      in if b < 2 * r \<or> (2 * r = b \<and> odd d) then Suc d else d)"

text \<open>Whether \<open>2 powi k\<close> is at most \<open>a / b\<close>, and the binary logarithm of \<open>a / b\<close>
  rounded down.\<close>

definition pow_le :: "nat \<Rightarrow> nat \<Rightarrow> int \<Rightarrow> bool" where
  "pow_le a b k = (b * 2 ^ nat k \<le> a * 2 ^ nat (- k))"

definition flog2 :: "nat \<Rightarrow> nat \<Rightarrow> int" where
  "flog2 a b = (let k = int (nbits a) - int (nbits b) in if pow_le a b k then k else k - 1)"

text \<open>The magnitude nearest to \<open>a / b\<close>: the exponent of the last place is at least
  \<open>-1074\<close>, the significand is rounded to it, and a result past the largest finite
  magnitude is infinity. A carry out of the significand moves into the exponent by itself.\<close>

definition ulp_exp :: "nat \<Rightarrow> nat \<Rightarrow> int" where
  "ulp_exp a b = max (flog2 a b - 52) (- 1074)"

definition signif :: "nat \<Rightarrow> nat \<Rightarrow> int \<Rightarrow> nat" where
  "signif a b q = rne_div (a * 2 ^ nat (- q)) (b * 2 ^ nat q)"

definition round_ratio :: "nat \<Rightarrow> nat \<Rightarrow> nat" where
  "round_ratio a b =
     (if a = 0 then 0
      else let q = ulp_exp a b
           in min inf_mag (nat (q + 1074) * 2 ^ 52 + signif a b q))"

definition round_dyadic :: "nat \<Rightarrow> int \<Rightarrow> nat" where
  "round_dyadic m e = round_ratio (m * 2 ^ nat e) (2 ^ nat (- e))"

section \<open>Multiplication and conversions\<close>

definition f_mul :: "float64 \<Rightarrow> float64 \<Rightarrow> float64" where
  "f_mul x y =
     (let s = (neg x \<noteq> neg y)
      in if is_nan x \<or> is_nan y then f_nan
         else if is_inf x \<or> is_inf y
           then (if mag x = 0 \<or> mag y = 0 then f_nan else pack s inf_mag)
         else pack s (round_dyadic (mant (mag x) * mant (mag y)) (expo (mag x) + expo (mag y))))"

text \<open>\<open>float64(i)\<close> for an integer \<open>i\<close>.\<close>

definition f_of_int :: "int \<Rightarrow> float64" where
  "f_of_int i = pack (i < 0) (round_ratio (nat \<bar>i\<bar>) 1)"

text \<open>Sum and quotient of finite values (the only ones they are used on), and the conversion to
  an integer, which truncates.\<close>

definition f_dyadic :: "float64 \<Rightarrow> int \<Rightarrow> int" where
  "f_dyadic x e = (if neg x then -1 else 1) * int (mant (mag x) * 2 ^ nat (expo (mag x) - e))"

definition f_add :: "float64 \<Rightarrow> float64 \<Rightarrow> float64" where
  "f_add x y =
     (let e = min (expo (mag x)) (expo (mag y)); v = f_dyadic x e + f_dyadic y e
      in if v = 0 then pack (neg x \<and> neg y) 0 else pack (v < 0) (round_dyadic (nat \<bar>v\<bar>) e))"

definition f_div :: "float64 \<Rightarrow> float64 \<Rightarrow> float64" where
  "f_div x y =
     (let k = expo (mag x) - expo (mag y)
      in pack (neg x \<noteq> neg y)
           (round_ratio (mant (mag x) * 2 ^ nat k) (mant (mag y) * 2 ^ nat (- k))))"

definition f_to_int :: "float64 \<Rightarrow> int" where
  "f_to_int x =
     (let e = expo (mag x); n = mant (mag x) * 2 ^ nat e div 2 ^ nat (- e)
      in if neg x then - int n else int n)"

section \<open>Lemmas\<close>

subsection \<open>Bit patterns\<close>

lemma unat_Float64bits_less: "unat (Float64bits x) < 2 ^ 64"
  using unsigned_less [of "Float64bits x"] by simp

lemma mag_less: "mag x < 2 ^ 63"
  by (simp add: mag_def)

lemma mag_neg_unat: "unat (Float64bits x) = (if neg x then 2 ^ 63 else 0) + mag x"
proof (cases "neg x")
  case True
  then have "2 ^ 63 \<le> unat (Float64bits x)" by (simp add: neg_def)
  moreover have "unat (Float64bits x) < 2 ^ 63 + 2 ^ 63"
    using unat_Float64bits_less [of x] by simp
  ultimately have "unat (Float64bits x) mod 2 ^ 63 = unat (Float64bits x) - 2 ^ 63"
    by (simp add: le_mod_geq)
  with True \<open>2 ^ 63 \<le> unat (Float64bits x)\<close> show ?thesis by (simp add: mag_def)
next
  case False
  then show ?thesis by (simp add: neg_def mag_def)
qed

lemma pack_mag_neg [simp]: "pack (neg x) (mag x) = x"
  unfolding pack_def mag_neg_unat [symmetric] by simp

lemma unat_pack:
  assumes "m < 2 ^ 63"
  shows "unat (Float64bits (pack s m)) = (if s then 2 ^ 63 else 0) + m"
proof -
  have "(if s then 2 ^ 63 else 0) + m < 2 ^ 64"
    using assms by (cases s) simp_all
  then show ?thesis
    by (simp only: pack_def float64.sel unat_of_nat) simp
qed

lemma mag_pack [simp]: "m < 2 ^ 63 \<Longrightarrow> mag (pack s m) = m"
  by (simp add: mag_def unat_pack)

lemma neg_pack [simp]: "m < 2 ^ 63 \<Longrightarrow> neg (pack s m) = s"
  by (simp add: neg_def unat_pack)

lemma float_eqI: "x = y" if "neg x = neg y" and "mag x = mag y"
proof -
  have "x = pack (neg x) (mag x)" by simp
  also have "\<dots> = y" unfolding that by simp
  finally show ?thesis .
qed

lemma inf_mag_less [simp]: "inf_mag < 2 ^ 63" "inf_mag < 9223372036854775808"
  by (simp_all add: inf_mag_def)

lemma float_class: "is_nan x \<or> is_inf x \<or> is_finite x"
  by (auto simp: is_nan_def is_inf_def is_finite_def)

subsection \<open>Rounding to nearest\<close>

abbreviation two :: "int \<Rightarrow> real" where "two k \<equiv> 2 powi k"

text \<open>The absolute value a finite magnitude denotes.\<close>

definition fval :: "nat \<Rightarrow> real" where
  "fval m = real (mant m) * two (expo m)"

lemma two_pos [simp]: "0 < two k"
  by simp

lemma two_less_iff [simp]: "two i < two j \<longleftrightarrow> i < j"
proof
  assume "two i < two j"
  then show "i < j"
    using power_int_increasing [of j i "2 :: real"] by force
next
  assume "i < j"
  then show "two i < two j" by (rule power_int_strict_increasing) simp
qed

lemma two_move:
  "x * two (- q) < c \<longleftrightarrow> x < c * two q" "c \<le> x * two (- q) \<longleftrightarrow> c * two q \<le> x"
  by (simp_all add: power_int_minus pos_divide_less_eq pos_le_divide_eq flip: divide_inverse)

lemma two_nat: "two k = 2 ^ nat k / 2 ^ nat (- k)"
  by (cases "0 \<le> k") (simp_all add: power_int_def power_one_over)

lemma pow_le_iff: "0 < b \<Longrightarrow> pow_le a b k \<longleftrightarrow> two k \<le> real a / real b"
proof -
  assume "0 < b"
  have "pow_le a b k \<longleftrightarrow> real b * 2 ^ nat k \<le> real a * 2 ^ nat (- k)"
    unfolding pow_le_def by (simp flip: of_nat_le_iff [where 'a = real])
  also have "\<dots> \<longleftrightarrow> two k \<le> real a / real b"
    using \<open>0 < b\<close> unfolding two_nat by (simp add: field_simps)
  finally show ?thesis .
qed

lemma nbits_bounds: "0 < n \<Longrightarrow> 2 ^ (nbits n - 1) \<le> n \<and> n < 2 ^ nbits n"
proof (induction n rule: nbits.induct)
  case (1 n)
  show ?case
  proof (cases "n = 1")
    case True
    then show ?thesis by (simp add: nbits.simps)
  next
    case False
    with "1.prems" have half: "0 < n div 2" and n: "n \<noteq> 0" by auto
    with "1.IH" have IH: "2 ^ (nbits (n div 2) - 1) \<le> n div 2" "n div 2 < 2 ^ nbits (n div 2)"
      by auto
    have pos: "0 < nbits (n div 2)" using half by (subst nbits.simps) simp
    have "2 * 2 ^ (nbits (n div 2) - 1) = (2::nat) ^ nbits (n div 2)"
      using pos by (metis Suc_diff_1 power_Suc)
    with IH have "2 ^ nbits (n div 2) \<le> n" "n < 2 * 2 ^ nbits (n div 2)" by auto
    with n show ?thesis by (simp add: nbits.simps [of n])
  qed
qed

lemma two_diff_nat: "2 ^ i / 2 ^ j = two (int i - int j)"
  by (simp add: power_int_diff)

lemma ratio_nbits:
  assumes "0 < a" "0 < b"
  shows "two (int (nbits a) - int (nbits b) - 1) \<le> real a / real b"
    and "real a / real b < two (int (nbits a) - int (nbits b) + 1)"
proof -
  let ?na = "nbits a" and ?nb = "nbits b"
  have pos: "0 < ?na" "0 < ?nb" using assms by (subst nbits.simps, simp)+
  have A: "(2::real) ^ (?na - 1) \<le> a" "real a < 2 ^ ?na"
    using nbits_bounds [OF assms(1)] by (metis of_nat_le_iff of_nat_numeral of_nat_power,
        metis of_nat_less_iff of_nat_numeral of_nat_power)
  have B: "(2::real) ^ (?nb - 1) \<le> b" "real b < 2 ^ ?nb"
    using nbits_bounds [OF assms(2)] by (metis of_nat_le_iff of_nat_numeral of_nat_power,
        metis of_nat_less_iff of_nat_numeral of_nat_power)
  have "(2::real) ^ (?na - 1) / 2 ^ ?nb \<le> a / b"
    using A B assms by (intro frac_le) auto
  then show "two (int ?na - int ?nb - 1) \<le> real a / real b"
    using pos by (simp add: two_diff_nat of_nat_diff algebra_simps)
  have "real a / real b < 2 ^ ?na / 2 ^ (?nb - 1)"
    using A B assms by (intro frac_less) auto
  then show "real a / real b < two (int ?na - int ?nb + 1)"
    using pos by (simp add: two_diff_nat of_nat_diff algebra_simps)
qed

lemma flog2_bounds:
  assumes "0 < a" "0 < b"
  shows "two (flog2 a b) \<le> real a / real b" and "real a / real b < two (flog2 a b + 1)"
  using ratio_nbits [OF assms] assms
  by (auto simp: flog2_def Let_def pow_le_iff)

lemma flog2_unique:
  assumes "0 < a" "0 < b" "two k \<le> real a / real b" "real a / real b < two (k + 1)"
  shows "flog2 a b = k"
proof -
  have "two (flog2 a b) < two (k + 1)" "two k < two (flog2 a b + 1)"
    using flog2_bounds [OF assms(1,2)] assms(3,4) by linarith+
  then have "flog2 a b < k + 1" "k < flog2 a b + 1"
    by (simp_all only: two_less_iff)
  then show ?thesis by linarith
qed

lemma rne_div_exact: "0 < b \<Longrightarrow> rne_div (k * b) b = k"
  by (simp add: rne_div_def)

lemma rne_div_error:
  assumes "0 < b"
  shows "\<bar>real (rne_div a b) - real a / real b\<bar> \<le> 1 / 2"
proof -
  have a: "real a = real (a div b) * real b + real (a mod b)"
    by (metis of_nat_add of_nat_mult div_mult_mod_eq)
  then have q: "real a / real b = real (a div b) + real (a mod b) / real b"
    using assms by (simp add: field_simps)
  have r: "real (a mod b) < real b" using assms by simp
  show ?thesis
  proof (cases "b < 2 * (a mod b) \<or> (2 * (a mod b) = b \<and> odd (a div b))")
    case True
    then have "real b \<le> 2 * real (a mod b)" by linarith
    with True r assms show ?thesis
      by (auto simp: rne_div_def Let_def q abs_le_iff field_simps)
  next
    case False
    then have "2 * real (a mod b) \<le> real b" by linarith
    with False r assms show ?thesis
      by (auto simp: rne_div_def Let_def q abs_le_iff field_simps)
  qed
qed

lemma scaled_ratio:
  "0 < b \<Longrightarrow> real (a * 2 ^ nat (- q)) / real (b * 2 ^ nat q) = real a / real b * two (- q)"
  by (simp add: two_nat [of "- q"])

lemma signif_error: "0 < b \<Longrightarrow> \<bar>real (signif a b q) - real a / real b * two (- q)\<bar> \<le> 1 / 2"
  unfolding signif_def using rne_div_error [of "b * 2 ^ nat q" "a * 2 ^ nat (- q)"]
  by (simp only: scaled_ratio) simp

lemma signif_exact:
  assumes "0 < b" and "real a / real b = real m * two q"
  shows "signif a b q = m"
proof -
  have "real (a * 2 ^ nat (- q)) / real (b * 2 ^ nat q) = real m"
    unfolding scaled_ratio [OF assms(1)] assms(2) by (simp add: power_int_minus)
  then have "real (a * 2 ^ nat (- q)) = real (m * (b * 2 ^ nat q))"
    using assms(1) by (simp add: field_simps)
  then have "a * 2 ^ nat (- q) = m * (b * 2 ^ nat q)" by (simp only: of_nat_eq_iff)
  then show ?thesis
    using assms(1) by (simp only: signif_def) (rule rne_div_exact, simp)
qed

lemma real_less_53: "m < 2 ^ 53 \<Longrightarrow> real m < two 53"
  by simp

lemma round_ratio_exact:
  assumes "0 < b" and "0 < m" and v: "real a / real b = real m * two q"
    and "- 1074 \<le> q" and "m < 2 ^ 53" and "2 ^ 52 \<le> m \<or> q = - 1074"
  shows "round_ratio a b = min inf_mag (nat (q + 1074) * 2 ^ 52 + m)"
proof -
  have a: "0 < a" using v assms(2) by (cases a) auto
  have up: "real a / real b < two (q + 53)"
    unfolding v using assms(5) by (simp add: power_int_add)
  have "ulp_exp a b = q"
  proof (cases "2 ^ 52 \<le> m")
    case True
    then have "two (q + 52) \<le> real a / real b"
      unfolding v by (simp add: power_int_add)
    then have "flog2 a b = q + 52"
      using up a assms(1) by (intro flog2_unique) (simp_all add: add.commute)
    with assms(4) show ?thesis by (simp add: ulp_exp_def)
  next
    case False
    then have q: "q = - 1074" and "m < 2 ^ 52" using assms(6) by auto
    then have "real a / real b < two (q + 52)" unfolding v by (simp add: power_int_add)
    then have "two (flog2 a b) < two (q + 52)"
      using flog2_bounds(1) [OF a assms(1)] by linarith
    then have "flog2 a b < q + 52" by (simp only: two_less_iff)
    with q show ?thesis by (simp add: ulp_exp_def)
  qed
  with a signif_exact [OF assms(1) v] show ?thesis
    by (simp add: round_ratio_def Let_def)
qed

lemma expo_ge: "- 1074 \<le> expo m"
  by (auto simp: expo_def)

lemma mant_less: "mant m < 2 ^ 53"
proof -
  have "m mod 2 ^ 52 < (2::nat) ^ 52" by simp
  then show ?thesis by (simp add: mant_def)
qed

lemma mant_normal: "2 ^ 52 \<le> mant m \<or> expo m = - 1074"
  by (simp add: mant_def expo_def)

lemma mant_expo_mag: "nat (expo m + 1074) * 2 ^ 52 + mant m = m"
proof (cases "m < 2 ^ 52")
  case True
  then show ?thesis by (simp add: mant_def expo_def)
next
  case False
  then have "1 \<le> m div 2 ^ 52" by (simp add: Suc_leI div_greater_zero_iff)
  then have "nat (expo m + 1074) = m div 2 ^ 52 - 1"
    using False by (simp add: expo_def nat_diff_distrib)
  then have "nat (expo m + 1074) * 2 ^ 52 + 2 ^ 52 = m div 2 ^ 52 * 2 ^ 52"
    using \<open>1 \<le> m div 2 ^ 52\<close> by (metis Nat.add_diff_assoc2 add.commute add_mult_distrib diff_add
        le_add_diff_inverse2 mult_1)
  then have "nat (expo m + 1074) * 2 ^ 52 + (2 ^ 52 + m mod 2 ^ 52) = m"
    using div_mult_mod_eq [of m "2 ^ 52"] by linarith
  then show ?thesis using False by (simp add: mant_def)
qed

text \<open>A representable value is its own rounding.\<close>

lemma round_dyadic_ratio: "real (m * 2 ^ nat e) / real (2 ^ nat (- e)) = real m * two e"
  by (simp add: two_nat [of e])

lemma round_ratio_fval:
  assumes "0 < b" and "m < inf_mag" and "real a / real b = fval m"
  shows "round_ratio a b = m"
proof (cases "m = 0")
  case True
  with assms show ?thesis by (simp add: fval_def mant_def round_ratio_def)
next
  case False
  then have "0 < mant m" by (auto simp: mant_def)
  with assms expo_ge mant_less mant_normal
  have "round_ratio a b = min inf_mag (nat (expo m + 1074) * 2 ^ 52 + mant m)"
    by (intro round_ratio_exact) (simp_all add: fval_def)
  then show ?thesis using assms(2) by (simp only: mant_expo_mag)
qed

lemma round_dyadic_fval: "m < inf_mag \<Longrightarrow> real k * two e = fval m \<Longrightarrow> round_dyadic k e = m"
  unfolding round_dyadic_def using round_dyadic_ratio [of k e]
  by (intro round_ratio_fval) simp_all

lemma fval_normal:
  assumes "0 \<le> k" and "2 ^ 52 \<le> m \<and> m \<le> 2 ^ 53 \<or> k = 0 \<and> m < 2 ^ 52"
  shows "fval (nat k * 2 ^ 52 + m) = real m * two (k - 1074)"
proof -
  consider (carry) "m = 2 ^ 53" | (normal) "2 ^ 52 \<le> m" "m < 2 ^ 53" | (sub) "k = 0" "m < 2 ^ 52"
    using assms(2) by fastforce
  then show ?thesis
  proof cases
    case carry
    then have n: "nat k * 2 ^ 52 + m = (nat k + 2) * 2 ^ 52" by simp
    have "mant ((nat k + 2) * 2 ^ 52) = 2 ^ 52"
      unfolding mant_def by simp
    moreover have "expo ((nat k + 2) * 2 ^ 52) = k - 1074 + 1"
      unfolding expo_def using assms(1) by simp
    moreover have "two (k - 1074 + 1) = 2 * two (k - 1074)"
      by (subst power_int_add) simp_all
    ultimately show ?thesis unfolding n fval_def using carry by simp
  next
    case normal
    define f where "f = m - 2 ^ 52"
    have f: "m = 2 ^ 52 + f" "f < 2 ^ 52" using normal by (simp_all add: f_def)
    have n: "nat k * 2 ^ 52 + m = (nat k + 1) * 2 ^ 52 + f" using f by simp
    have "((nat k + 1) * 2 ^ 52 + f) mod 2 ^ 52 = f"
      using f(2) by (metis mod_less mod_mult_self3)
    then have "mant ((nat k + 1) * 2 ^ 52 + f) = m"
      unfolding mant_def using f(1) by simp
    moreover have "((nat k + 1) * 2 ^ 52 + f) div 2 ^ 52 = nat k + 1"
      using f(2) by (metis add.commute div_mult_self3 div_less mult.commute nat_arith.rule0
          zero_neq_numeral power_not_zero)
    then have "expo ((nat k + 1) * 2 ^ 52 + f) = k - 1074"
      unfolding expo_def using assms(1) f by simp
    ultimately show ?thesis unfolding n by (simp add: fval_def)
  next
    case sub
    then show ?thesis by (simp add: fval_def mant_def expo_def)
  qed
qed

lemma signif_range:
  assumes "0 < a" "0 < b"
  defines "q \<equiv> ulp_exp a b"
  shows "2 ^ 52 \<le> signif a b q \<and> signif a b q \<le> 2 ^ 53 \<or> q = - 1074 \<and> signif a b q < 2 ^ 52"
proof -
  let ?v = "real a / real b" and ?s = "signif a b q"
  have "?v < two (flog2 a b + 1)" using flog2_bounds(2) [OF assms(1,2)] .
  also have "\<dots> \<le> two (q + 53)"
    by (rule power_int_increasing) (simp_all add: q_def ulp_exp_def)
  also have "\<dots> = two 53 * two q" by (simp add: power_int_add)
  finally have "?v * two (- q) < two 53" by (simp only: two_move)
  with signif_error [OF assms(2), of a q] have "real ?s < two 53 + 1" by linarith
  then have upper: "?s \<le> 2 ^ 53" by simp
  show ?thesis
  proof (cases "q = - 1074")
    case True
    with upper show ?thesis by (meson linorder_not_le)
  next
    case False
    then have "flog2 a b = q + 52" by (simp add: q_def ulp_exp_def max_def split: if_splits)
    then have "two 52 * two q \<le> ?v"
      using flog2_bounds(1) [OF assms(1,2)] by (simp add: power_int_add mult.commute)
    then have "two 52 \<le> ?v * two (- q)" by (simp only: two_move)
    with signif_error [OF assms(2), of a q] have "two 52 - 1 < real ?s" by linarith
    then have "2 ^ 52 \<le> ?s" by simp
    with upper show ?thesis by simp
  qed
qed

text \<open>Any ratio that does not overflow is rounded by at most half a unit in the last place.\<close>

lemma round_ratio_error:
  assumes "0 < a" "0 < b" "round_ratio a b < inf_mag"
  shows "\<bar>fval (round_ratio a b) - real a / real b\<bar> \<le> two (ulp_exp a b) / 2"
proof -
  define q where "q = ulp_exp a b"
  have q: "0 \<le> q + 1074" by (simp add: q_def ulp_exp_def)
  have r: "round_ratio a b = nat (q + 1074) * 2 ^ 52 + signif a b q"
    using assms(1,3) by (auto simp: round_ratio_def Let_def q_def min_def split: if_splits)
  have "fval (round_ratio a b) = real (signif a b q) * two q"
    unfolding r using signif_range [OF assms(1,2)] q
    by (subst fval_normal) (auto simp: q_def)
  then have "fval (round_ratio a b) - real a / real b
      = (real (signif a b q) - real a / real b * two (- q)) * two q"
    by (simp add: power_int_minus field_simps)
  then have "\<bar>fval (round_ratio a b) - real a / real b\<bar>
      = \<bar>real (signif a b q) - real a / real b * two (- q)\<bar> * two q"
    by (simp add: abs_mult)
  also have "\<dots> \<le> 1 / 2 * two q"
    using signif_error [OF assms(2), of a q] by (intro mult_right_mono) simp_all
  finally show ?thesis by (simp add: q_def)
qed

text \<open>Values from \<open>2 ^ 1024\<close> on round to infinity.\<close>

lemma round_ratio_overflow:
  assumes "0 < b" "two 1024 \<le> real a / real b"
  shows "round_ratio a b = inf_mag"
proof -
  have "0 < real a / real b" using assms(2) two_pos [of 1024] by linarith
  then have a: "0 < a" using assms(1) by (simp add: zero_less_divide_iff)
  have "two 1024 < two (flog2 a b + 1)"
    using flog2_bounds(2) [OF a assms(1)] assms(2) by linarith
  then have q: "972 \<le> ulp_exp a b"
    by (simp only: two_less_iff) (simp add: ulp_exp_def)
  then have "2 ^ 52 \<le> signif a b (ulp_exp a b)"
    using signif_range [OF a assms(1)] by auto
  moreover have "2046 * 2 ^ 52 \<le> nat (ulp_exp a b + 1074) * 2 ^ 52"
    using q by (intro mult_right_mono) auto
  ultimately have "inf_mag \<le> nat (ulp_exp a b + 1074) * 2 ^ 52 + signif a b (ulp_exp a b)"
    unfolding inf_mag_def by linarith
  then show ?thesis using a by (simp add: round_ratio_def Let_def)
qed

lemma round_ratio_le_inf: "round_ratio a b \<le> inf_mag"
  by (simp add: round_ratio_def Let_def)

lemma round_dyadic_le_inf: "round_dyadic m e \<le> inf_mag"
  by (simp add: round_dyadic_def round_ratio_le_inf)

lemma round_dyadic_less [simp]:
  "round_dyadic m e < 2 ^ 63" "round_dyadic m e < 9223372036854775808"
  using round_dyadic_le_inf [of m e] by (simp_all add: inf_mag_def)

subsection \<open>Multiplication\<close>

lemma f_const_mag [simp]:
  "mag f_nan = inf_mag + 1" "mag f_inf = inf_mag" "mag f_zero = 0" "\<not> neg f_zero" "\<not> neg f_inf"
  by (simp_all add: f_nan_def f_inf_def f_zero_def inf_mag_def)

lemma f_mul_commute: "f_mul x y = f_mul y x"
proof -
  have "(neg x \<noteq> neg y) = (neg y \<noteq> neg x)" by auto
  then show ?thesis
    unfolding f_mul_def Let_def by (auto simp: mult.commute add.commute)
qed

lemma mag_f_mul_finite:
  "is_finite x \<Longrightarrow> is_finite y \<Longrightarrow>
     mag (f_mul x y) = round_dyadic (mant (mag x) * mant (mag y)) (expo (mag x) + expo (mag y))"
  by (simp add: f_mul_def Let_def is_finite_def is_nan_def is_inf_def)

lemma neg_f_mul_finite:
  "is_finite x \<Longrightarrow> is_finite y \<Longrightarrow> neg (f_mul x y) = (neg x \<noteq> neg y)"
  by (simp add: f_mul_def Let_def is_finite_def is_nan_def is_inf_def)

lemma f_mul_not_nan: "is_finite x \<Longrightarrow> is_finite y \<Longrightarrow> \<not> is_nan (f_mul x y)"
  by (simp add: is_nan_def mag_f_mul_finite round_dyadic_le_inf not_less)

lemma f_mul_one:
  assumes "is_finite x"
  shows "f_mul x f_one = x"
proof (rule float_eqI)
  have one: "mag f_one = 1023 * 2 ^ 52" "\<not> neg f_one" by (simp_all add: f_one_def)
  then have fin: "is_finite f_one" by (simp add: is_finite_def inf_mag_def)
  show "neg (f_mul x f_one) = neg x"
    using one by (simp add: neg_f_mul_finite [OF assms fin])
  have m1: "mant (mag f_one) = 2 ^ 52" "expo (mag f_one) = - 52"
    by (simp_all add: one mant_def expo_def)
  have "round_dyadic (mant (mag x) * mant (mag f_one)) (expo (mag x) + expo (mag f_one)) = mag x"
    unfolding m1 using assms
    by (intro round_dyadic_fval) (simp_all add: is_finite_def fval_def power_int_diff)
  then show "mag (f_mul x f_one) = mag x" by (simp add: mag_f_mul_finite [OF assms fin])
qed

lemma f_mul_overflow:
  assumes "is_finite x" "is_finite y" "two 1024 \<le> fval (mag x) * fval (mag y)"
  shows "is_inf (f_mul x y)"
proof -
  let ?e = "expo (mag x) + expo (mag y)" and ?m = "mant (mag x) * mant (mag y)"
  have "real ?m * two ?e = fval (mag x) * fval (mag y)"
    by (simp add: fval_def power_int_add)
  then have "real (?m * 2 ^ nat ?e) / real (2 ^ nat (- ?e)) = fval (mag x) * fval (mag y)"
    by (simp only: round_dyadic_ratio)
  then show ?thesis
    using assms round_ratio_overflow [of "2 ^ nat (- ?e)" "?m * 2 ^ nat ?e"]
    by (simp add: is_inf_def mag_f_mul_finite round_dyadic_def)
qed

end
