(* ===== verification/Strconv.thy ===== *)
theory Strconv
  imports Float64
begin

text \<open>
  The conversions between floats and text that the services use: \<open>strconv.ParseFloat\<close>
  (on exchange prices and on JSON numbers), the shortest representation that parses back to
  the same float (\<open>strconv.AppendFloat\<close> with precision -1, in the layout that
  \<open>encoding/json\<close> chooses), and the verb \<open>%.2f\<close>.
\<close>

section \<open>ParseFloat\<close>

definition lower_ascii :: "string \<Rightarrow> string" where
  "lower_ascii s = map ascii_low s"

text \<open>The special values: \<open>nan\<close> without a sign, \<open>inf\<close> and \<open>infinity\<close> with an optional
  one, in any case.\<close>

definition special_unsigned :: "bool \<Rightarrow> string \<Rightarrow> float64 option" where
  "special_unsigned s t =
     (if lower_ascii t = ''inf'' \<or> lower_ascii t = ''infinity'' then Some (pack s inf_mag) else None)"

definition parse_special :: "string \<Rightarrow> float64 option" where
  "parse_special t =
     (case t of
        [] \<Rightarrow> None
      | c # cs \<Rightarrow>
          (if c = CHR ''+'' then special_unsigned False cs
           else if c = CHR ''-'' then special_unsigned True cs
           else if lower_ascii t = ''nan'' then Some f_nan
           else special_unsigned False t))"

definition digit_in :: "nat \<Rightarrow> char \<Rightarrow> nat option" where
  "digit_in base c =
     (let l = ascii_low c
      in if is_digit c then Some (digit_val c)
         else if base = 16 \<and> CHR ''a'' \<le> l \<and> l \<le> CHR ''f'' then Some (of_char l - 87)
         else None)"

text \<open>The mantissa: digits, underscores and at most one point. The results are the digits'
  value, the number of digits after the point, whether there was a digit, and the rest.\<close>

fun scan_mant :: "nat \<Rightarrow> string \<Rightarrow> bool \<Rightarrow> nat \<Rightarrow> nat \<Rightarrow> bool \<Rightarrow> nat \<times> nat \<times> bool \<times> string" where
  "scan_mant base [] dot m f saw = (m, f, saw, [])"
| "scan_mant base (c # cs) dot m f saw =
     (if c = CHR ''_'' then scan_mant base cs dot m f saw
      else if c = CHR ''.'' then
        (if dot then (m, f, saw, c # cs) else scan_mant base cs True m f saw)
      else (case digit_in base c of
              None \<Rightarrow> (m, f, saw, c # cs)
            | Some d \<Rightarrow> scan_mant base cs dot (base * m + d) (if dot then Suc f else f) True))"

text \<open>The exponent's digits; past 10000 further digits are read and ignored.\<close>

fun scan_exp :: "string \<Rightarrow> nat \<Rightarrow> nat \<times> string" where
  "scan_exp [] e = (e, [])"
| "scan_exp (c # cs) e =
     (if c = CHR ''_'' then scan_exp cs e
      else if is_digit c then scan_exp cs (if e < 10000 then 10 * e + digit_val c else e)
      else (e, c # cs))"

definition read_exp :: "char \<Rightarrow> string \<Rightarrow> (int \<times> string) option" where
  "read_exp ec s =
     (case s of
        [] \<Rightarrow> (if ec = CHR ''p'' then None else Some (0, []))
      | c # cs \<Rightarrow>
          (if ascii_low c \<noteq> ec then (if ec = CHR ''p'' then None else Some (0, s))
           else
             (let ng = (cs \<noteq> [] \<and> hd cs = CHR ''-'');
                  ds = (if cs \<noteq> [] \<and> (hd cs = CHR ''+'' \<or> hd cs = CHR ''-'') then tl cs else cs)
              in if ds = [] \<or> \<not> is_digit (hd ds) then None
                 else (let (e, rest) = scan_exp ds 0
                       in Some (if ng then - int e else int e, rest)))))"

text \<open>Underscores stand between digits, or between a base prefix and a digit.\<close>

fun underscores_ok :: "bool \<Rightarrow> char \<Rightarrow> string \<Rightarrow> bool" where
  "underscores_ok hex saw [] = (saw \<noteq> CHR ''_'')"
| "underscores_ok hex saw (c # cs) =
     (if digit_in (if hex then 16 else 10) c \<noteq> None then underscores_ok hex CHR ''0'' cs
      else if c = CHR ''_'' then (saw = CHR ''0'' \<and> underscores_ok hex CHR ''_'' cs)
      else (saw \<noteq> CHR ''_'' \<and> underscores_ok hex CHR ''!'' cs))"

definition hex_prefix :: "string \<Rightarrow> bool" where
  "hex_prefix s = (2 < length s \<and> s ! 0 = CHR ''0'' \<and> ascii_low (s ! 1) = CHR ''x'')"

text \<open>A number as a ratio: \<open>m * 10^(e-f)\<close>, or \<open>m * 2^(e-4f)\<close> in base 16.\<close>

definition scale_ratio :: "nat \<Rightarrow> nat \<Rightarrow> int \<Rightarrow> nat \<times> nat" where
  "scale_ratio r m k = (m * r ^ nat k, r ^ nat (- k))"

definition read_float :: "string \<Rightarrow> (nat \<times> nat) option" where
  "read_float s =
     (let hex = hex_prefix s;
          body = (if hex then drop 2 s else s);
          (m, f, saw, rest) = scan_mant (if hex then 16 else 10) body False 0 0 False
      in if \<not> saw then None
         else (case read_exp (if hex then CHR ''p'' else CHR ''e'') rest of
                 None \<Rightarrow> None
               | Some (e, rest') \<Rightarrow>
                   (if rest' \<noteq> [] then None
                    else if CHR ''_'' \<in> set s \<and> \<not> underscores_ok hex (if hex then CHR ''0'' else CHR ''^'') body
                      then None
                    else Some (if hex then scale_ratio 2 m (e - 4 * int f)
                               else scale_ratio 10 m (e - int f)))))"

text \<open>A value too large for \<open>float64\<close> is a range error.\<close>

definition ParseFloat :: "string \<Rightarrow> float64 option" where
  "ParseFloat s =
     (case parse_special s of
        Some x \<Rightarrow> Some x
      | None \<Rightarrow>
          (let ng = (s \<noteq> [] \<and> hd s = CHR ''-'');
               u = (if s \<noteq> [] \<and> (hd s = CHR ''+'' \<or> hd s = CHR ''-'') then tl s else s)
           in (case read_float u of
                 None \<Rightarrow> None
               | Some (a, b) \<Rightarrow>
                   (let r = round_ratio a b
                    in if r = inf_mag then None else Some (pack ng r)))))"

section \<open>Shortest decimal\<close>

definition flog10 :: "nat \<Rightarrow> nat \<Rightarrow> int" where
  "flog10 a b =
     (let k = int (length (nat_digits a)) - int (length (nat_digits b))
      in if b * 10 ^ nat k \<le> a * 10 ^ nat (- k) then k else k - 1)"

text \<open>\<open>c * 10^p\<close> rounds to the magnitude \<open>r\<close>.\<close>

definition dec_rounds :: "nat \<Rightarrow> nat \<Rightarrow> int \<Rightarrow> bool" where
  "dec_rounds r c p = (let (a, b) = scale_ratio 10 c p in round_ratio a b = r)"

text \<open>The decimal with \<open>n\<close> digits nearest to \<open>a / b\<close> among those that round to \<open>r\<close>.\<close>

definition dec_n :: "nat \<Rightarrow> nat \<Rightarrow> nat \<Rightarrow> nat \<Rightarrow> (nat \<times> int) option" where
  "dec_n r a b n =
     (let p = flog10 a b - int n + 1;
          x = a * 10 ^ nat (- p); y = b * 10 ^ nat p;
          lo = x div y; near = rne_div x y; far = (if near = lo then Suc lo else lo)
      in if dec_rounds r near p then Some (near, p)
         else if dec_rounds r far p then Some (far, p)
         else None)"

fun dec_search :: "nat \<Rightarrow> nat \<Rightarrow> nat \<Rightarrow> nat list \<Rightarrow> (nat \<times> int) option" where
  "dec_search r a b [] = None"
| "dec_search r a b (n # ns) =
     (case dec_n r a b n of Some d \<Rightarrow> Some d | None \<Rightarrow> dec_search r a b ns)"

text \<open>The shortest decimal of a magnitude. Seventeen digits always suffice; the exact
  decimal expansion closes the search.\<close>

definition shortest :: "nat \<Rightarrow> nat \<times> int" where
  "shortest r =
     (let e = expo r; a = mant r * 2 ^ nat e; b = 2 ^ nat (- e)
      in (case dec_search r a b [1..<18] of
            Some d \<Rightarrow> d
          | None \<Rightarrow> (mant r * 2 ^ nat e * 5 ^ nat (- e), min e 0)))"

fun strip_zeros :: "nat \<Rightarrow> nat \<times> int \<Rightarrow> nat \<times> int" where
  "strip_zeros 0 (c, p) = (c, p)"
| "strip_zeros (Suc k) (c, p) =
     (if c \<noteq> 0 \<and> c mod 10 = 0 then strip_zeros k (c div 10, p + 1) else (c, p))"

definition shortest_digits :: "nat \<Rightarrow> nat \<times> int" where
  "shortest_digits r = (let (c, p) = shortest r in strip_zeros (length (nat_digits c)) (c, p))"

text \<open>Layouts: \<open>%f\<close> with all digits, \<open>%e\<close> with at least two exponent digits (which
  \<open>encoding/json\<close> shortens when the first is a zero).\<close>

definition layout_f :: "nat \<Rightarrow> int \<Rightarrow> string" where
  "layout_f c p =
     (let ds = nat_digits c; n = int (length ds)
      in if 0 \<le> p then ds @ replicate (nat p) CHR ''0''
         else if 0 < n + p then take (nat (n + p)) ds @ ''.'' @ drop (nat (n + p)) ds
         else ''0.'' @ replicate (nat (- (n + p))) CHR ''0'' @ ds)"

definition layout_e :: "nat \<Rightarrow> int \<Rightarrow> string" where
  "layout_e c p =
     (let ds = nat_digits c; x = int (length ds) - 1 + p
      in take 1 ds @ (if tl ds = [] then [] else ''.'' @ tl ds) @ ''e'' @
         (if x < 0 then ''-'' else ''+'') @ nat_digits (nat \<bar>x\<bar>))"

definition mag_1e_6 :: nat where "mag_1e_6 = round_ratio 1 (10 ^ 6)"
definition mag_1e21 :: nat where "mag_1e21 = round_ratio (10 ^ 21) 1"

text \<open>How \<open>encoding/json\<close> writes a float: NaN and the infinities are an error.\<close>

definition json_float :: "float64 \<Rightarrow> string option" where
  "json_float x =
     (if \<not> is_finite x then None
      else
        (let (c, p) = (if mag x = 0 then (0, 0) else shortest_digits (mag x));
             body = (if mag x \<noteq> 0 \<and> (mag x < mag_1e_6 \<or> mag_1e21 \<le> mag x)
                     then layout_e c p else layout_f c p)
         in Some ((if neg x then ''-'' else []) @ body)))"

section \<open>Two decimals\<close>

text \<open>The verb \<open>%.2f\<close>: the exact value rounded to hundredths, ties to even.\<close>

definition format_2f :: "float64 \<Rightarrow> string" where
  "format_2f x =
     (if is_nan x then ''NaN''
      else if is_inf x then (if neg x then ''-Inf'' else ''+Inf'')
      else
        (let e = expo (mag x);
             h = rne_div (100 * (mant (mag x) * 2 ^ nat e)) (2 ^ nat (- e));
             c = nat_digits (h mod 100)
         in (if neg x then ''-'' else []) @ nat_digits (h div 100) @ ''.'' @
            (if h mod 100 < 10 then CHR ''0'' # c else c)))"

end
