(* ===== verification/GoTime.thy ===== *)
theory GoTime
  imports Prelude
begin

text \<open>
  Instants as text: the RFC 3339 form with nanoseconds that \<open>time.Time\<close> uses in JSON, over
  the proleptic Gregorian calendar. Writing fails outside the years 0 to 9999. Reading follows
  \<open>time.Time.UnmarshalJSON\<close>, which falls back to \<open>time.Parse\<close>: an hour of one digit, a
  comma before the fraction and zone offsets up to 24:60 are accepted; fraction digits after
  the ninth are dropped. Also here: Unix seconds, Unix milliseconds, and the text of a
  duration of whole seconds.
\<close>

section \<open>Calendar\<close>

definition leap :: "int \<Rightarrow> bool" where
  "leap y = (y mod 4 = 0 \<and> (y mod 100 \<noteq> 0 \<or> y mod 400 = 0))"

definition days_in :: "int \<Rightarrow> int \<Rightarrow> int" where
  "days_in y m =
     (if m = 2 then (if leap y then 29 else 28)
      else if m = 4 \<or> m = 6 \<or> m = 9 \<or> m = 11 then 30 else 31)"

text \<open>Days are counted from the epoch. The year is taken to start in March, so that the leap
  day is its last day; 400 such years have 146097 days.\<close>

definition year_days :: "int \<Rightarrow> int" where
  "year_days y = 365 * y + y div 4 - y div 100 + y div 400"

definition month_days :: "int \<Rightarrow> int" where
  "month_days mp = (153 * mp + 2) div 5"

definition days_from_civil :: "int \<Rightarrow> int \<Rightarrow> int \<Rightarrow> int" where
  "days_from_civil y m d =
     (let y' = (if m \<le> 2 then y - 1 else y); mp = (if 2 < m then m - 3 else m + 9)
      in year_days y' + month_days mp + d - 1 - 719468)"

definition civil_from_days :: "int \<Rightarrow> int \<times> int \<times> int" where
  "civil_from_days z =
     (let n = z + 719468; era = n div 146097; doe = n mod 146097;
          yoe = (doe - doe div 1460 + doe div 36524 - doe div 146096) div 365;
          doy = doe - (365 * yoe + yoe div 4 - yoe div 100);
          mp = (5 * doy + 2) div 153;
          d = doy - month_days mp + 1;
          m = (if mp < 10 then mp + 3 else mp - 9)
      in (yoe + era * 400 + (if m \<le> 2 then 1 else 0), m, d))"

section \<open>Text\<close>

definition pad :: "nat \<Rightarrow> nat \<Rightarrow> string" where
  "pad w n = (let s = nat_digits n in replicate (w - length s) CHR ''0'' @ s)"

definition strip_trailing :: "string \<Rightarrow> string" where
  "strip_trailing s = rev (dropWhile (\<lambda>c. c = CHR ''0'') (rev s))"

definition frac_text :: "nat \<Rightarrow> string" where
  "frac_text ns = (if ns = 0 then [] else ''.'' @ strip_trailing (pad 9 ns))"

definition format_time :: "gotime \<Rightarrow> string option" where
  "format_time t =
     (let secs = t div 1000000000; ns = t mod 1000000000;
          (y, m, d) = civil_from_days (secs div 86400); sod = nat (secs mod 86400)
      in if y < 0 \<or> 9999 < y then None
         else Some (pad 4 (nat y) @ ''-'' @ pad 2 (nat m) @ ''-'' @ pad 2 (nat d) @ ''T'' @
                    pad 2 (sod div 3600) @ '':'' @ pad 2 (sod div 60 mod 60) @ '':'' @
                    pad 2 (sod mod 60) @ frac_text (nat ns) @ ''Z''))"

text \<open>A number of exactly \<open>n\<close> digits at the front.\<close>

definition take_num :: "nat \<Rightarrow> string \<Rightarrow> (int \<times> string) option" where
  "take_num n s =
     (if length (take n s) = n \<and> list_all is_digit (take n s)
      then Some (int (digits_val (take n s)), drop n s) else None)"

definition take_lit :: "char \<Rightarrow> string \<Rightarrow> string option" where
  "take_lit c s = (case s of [] \<Rightarrow> None | x # xs \<Rightarrow> (if x = c then Some xs else None))"

definition take_hour :: "string \<Rightarrow> (int \<times> string) option" where
  "take_hour s = (case take_num 2 s of Some r \<Rightarrow> Some r | None \<Rightarrow> take_num 1 s)"

definition take_frac :: "string \<Rightarrow> int \<times> string" where
  "take_frac s =
     (if 2 \<le> length s \<and> (hd s = CHR ''.'' \<or> hd s = CHR '','') \<and> is_digit (s ! 1)
      then (let ds = takeWhile is_digit (tl s); nine = take 9 ds
            in (int (digits_val nine * 10 ^ (9 - length nine)), dropWhile is_digit (tl s)))
      else (0, s))"

text \<open>The zone offset in seconds, with nothing after it.\<close>

definition take_zone :: "string \<Rightarrow> int option" where
  "take_zone s =
     (if s = ''Z'' then Some 0
      else if length s = 6 \<and> (hd s = CHR ''+'' \<or> hd s = CHR ''-'') \<and> s ! 3 = CHR '':'' then
        (case (take_num 2 (tl s), take_num 2 (drop 4 s)) of
           (Some (h, _), Some (m, _)) \<Rightarrow>
             (if h \<le> 24 \<and> m \<le> 60
              then Some ((if hd s = CHR ''-'' then - 1 else 1) * (h * 60 + m) * 60) else None)
         | _ \<Rightarrow> None)
      else None)"

definition parse_date :: "string \<Rightarrow> (int \<times> string) option" where
  "parse_date s =
     (case take_num 4 s of None \<Rightarrow> None | Some (y, s1) \<Rightarrow>
     (case take_lit CHR ''-'' s1 of None \<Rightarrow> None | Some s2 \<Rightarrow>
     (case take_num 2 s2 of None \<Rightarrow> None | Some (m, s3) \<Rightarrow>
     (case take_lit CHR ''-'' s3 of None \<Rightarrow> None | Some s4 \<Rightarrow>
     (case take_num 2 s4 of None \<Rightarrow> None | Some (d, s5) \<Rightarrow>
       (if 1 \<le> m \<and> m \<le> 12 \<and> 1 \<le> d \<and> d \<le> days_in y m
        then Some (days_from_civil y m d, s5) else None))))))"

definition parse_clock :: "string \<Rightarrow> (int \<times> string) option" where
  "parse_clock s =
     (case take_hour s of None \<Rightarrow> None | Some (h, s1) \<Rightarrow>
     (case take_lit CHR '':'' s1 of None \<Rightarrow> None | Some s2 \<Rightarrow>
     (case take_num 2 s2 of None \<Rightarrow> None | Some (mi, s3) \<Rightarrow>
     (case take_lit CHR '':'' s3 of None \<Rightarrow> None | Some s4 \<Rightarrow>
     (case take_num 2 s4 of None \<Rightarrow> None | Some (se, s5) \<Rightarrow>
       (if h < 24 \<and> mi < 60 \<and> se < 60 then Some (h * 3600 + mi * 60 + se, s5) else None))))))"

definition parse_time :: "string \<Rightarrow> gotime option" where
  "parse_time s =
     (case parse_date s of None \<Rightarrow> None | Some (days, s1) \<Rightarrow>
     (case take_lit CHR ''T'' s1 of None \<Rightarrow> None | Some s2 \<Rightarrow>
     (case parse_clock s2 of None \<Rightarrow> None | Some (sod, s3) \<Rightarrow>
       (let (ns, s4) = take_frac s3
        in (case take_zone s4 of None \<Rightarrow> None
            | Some off \<Rightarrow> Some ((days * 86400 + sod - off) * 1000000000 + ns))))))"

section \<open>Unix time\<close>

definition Unix :: "gotime \<Rightarrow> int" where
  "Unix t = t div 1000000000"

definition UnixMilli :: "int64 \<Rightarrow> gotime" where
  "UnixMilli ms = sint ms * 1000000"

section \<open>Durations\<close>

text \<open>\<open>d.Round(time.Second).String()\<close>: rounded half away from zero (saturating at the ends
  of the type), then hours, minutes and seconds.\<close>

definition round_second :: "duration \<Rightarrow> int" where
  "round_second d =
     (let x = sint d; r = \<bar>x\<bar> mod 1000000000;
          a = (if r + r < 1000000000 then \<bar>x\<bar> - r else \<bar>x\<bar> + 1000000000 - r)
      in max min_int64 (min max_int64 (if x < 0 then - a else a)))"

definition seconds_text :: "nat \<Rightarrow> string" where
  "seconds_text s =
     (if s < 60 then nat_digits s @ ''s''
      else if s < 3600 then nat_digits (s div 60) @ ''m'' @ nat_digits (s mod 60) @ ''s''
      else nat_digits (s div 3600) @ ''h'' @ nat_digits (s div 60 mod 60) @ ''m'' @
           nat_digits (s mod 60) @ ''s'')"

definition rounded_text :: "duration \<Rightarrow> string" where
  "rounded_text d =
     (let r = round_second d
      in if r = max_int64 then ''2562047h47m16.854775807s''
         else if r = min_int64 then ''-2562047h47m16.854775808s''
         else (if r < 0 then ''-'' else []) @ seconds_text (nat (\<bar>r\<bar> div 1000000000)))"

end
