(* ===== verification/Domain.thy ===== *)
theory Domain
  imports Strconv GoTime
begin

text \<open>
  The shared contract of the services (\<open>shared/domain\<close>): trade events, order books and
  their best levels, FX rates, alert payloads with their deduplication key, candle intervals,
  and the names of topics and Redis keys. The lemmas show when Redis keys of different
  symbols and kinds are distinct, what the FX lookup answers on every branch, and which
  alerts share a deduplication key.
\<close>

section \<open>Trades and order books (trade.go)\<close>

type_synonym Side = string

definition SideBuy :: Side where "SideBuy = ''BUY''"
definition SideSell :: Side where "SideSell = ''SELL''"

record MarketMetadata =
  BaseAsset :: string
  QuoteAsset :: string
  Exchange :: string

record TradeEvent =
  Symbol :: string
  Price :: float64
  Quantity :: float64
  Side :: Side
  TradeID :: int64
  Notional :: float64
  Market :: MarketMetadata
  IsWhale :: bool
  EventTime :: gotime
  IngestTime :: gotime

record PriceLevel =
  LvlPrice :: float64
  LvlQuantity :: float64

record OrderBook =
  BookSymbol :: string
  Bids :: "PriceLevel slice"
  Asks :: "PriceLevel slice"
  LastUpdate :: gotime

text \<open>Zero values, as \<open>var x T\<close> declares them.\<close>

definition zero_metadata :: MarketMetadata where
  "zero_metadata = \<lparr>BaseAsset = [], QuoteAsset = [], Exchange = []\<rparr>"

definition zero_trade :: TradeEvent where
  "zero_trade =
     \<lparr>Symbol = [], Price = f_zero, Quantity = f_zero, Side = [], TradeID = 0, Notional = f_zero,
      Market = zero_metadata, IsWhale = False, EventTime = zero_time, IngestTime = zero_time\<rparr>"

definition zero_level :: PriceLevel where
  "zero_level = \<lparr>LvlPrice = f_zero, LvlQuantity = f_zero\<rparr>"

definition zero_book :: OrderBook where
  "zero_book = \<lparr>BookSymbol = [], Bids = None, Asks = None, LastUpdate = zero_time\<rparr>"

definition BestBid :: "OrderBook \<Rightarrow> PriceLevel \<times> bool" where
  "BestBid b = (case elems (Bids b) of [] \<Rightarrow> (zero_level, False) | l # _ \<Rightarrow> (l, True))"

definition BestAsk :: "OrderBook \<Rightarrow> PriceLevel \<times> bool" where
  "BestAsk b = (case elems (Asks b) of [] \<Rightarrow> (zero_level, False) | l # _ \<Rightarrow> (l, True))"

section \<open>Candle intervals (candle.go)\<close>

definition Interval1m :: string where "Interval1m = ''1m''"
definition Interval5m :: string where "Interval5m = ''5m''"
definition Interval15m :: string where "Interval15m = ''15m''"
definition Interval1h :: string where "Interval1h = ''1h''"

definition Interval_Duration :: "string \<Rightarrow> duration" where
  "Interval_Duration i =
     (if i = Interval1m then Minute
      else if i = Interval5m then 5 * Minute
      else if i = Interval15m then 15 * Minute
      else if i = Interval1h then 60 * Minute
      else 0)"

section \<open>FX rates (fx.go)\<close>

record FXRates =
  Base :: string
  Rates :: "string \<rightharpoonup> float64"
  FetchedAt :: gotime

definition OnExchangeQuoteAssets :: "string \<rightharpoonup> bool" where
  "OnExchangeQuoteAssets = [''USD'' \<mapsto> True, ''USDT'' \<mapsto> True, ''USDC'' \<mapsto> True]"

text \<open>A map lookup without the second result yields the zero value on a miss.\<close>

definition Rate :: "unicode \<Rightarrow> FXRates \<Rightarrow> string \<Rightarrow> float64 \<times> bool" where
  "Rate U f q =
     (let quote = ToUpper U q
      in if OnExchangeQuoteAssets quote = Some True then (f_one, True)
         else (case Rates f quote of None \<Rightarrow> (f_zero, False) | Some r \<Rightarrow> (r, True)))"

section \<open>Alerts (alert.go)\<close>

definition AlertWhale :: string where "AlertWhale = ''whale''"
definition AlertLiquation :: string where "AlertLiquation = ''liquidation''"
definition AlertPriceType :: string where "AlertPriceType = ''price''"

record LiquidationAlert =
  LiqSymbol :: string
  LiqPrice :: float64
  LiqQuantity :: float64
  LiqSide :: Side
  LiqTime :: gotime

record WhaleAlert =
  AlertSymbol :: string
  AlertPrice :: float64
  AlertQuantity :: float64
  AlertNotional :: float64
  AlertSide :: Side
  Threshold :: float64
  AlertTime :: gotime

definition DedupKey :: "WhaleAlert \<Rightarrow> string" where
  "DedupKey a =
     ''alert:whale:'' @ AlertSymbol a @ '':'' @ format_2f (AlertPrice a) @ '':'' @
     FormatInt (Unix (AlertTime a))"

section \<open>Topics and keys (broker.go)\<close>

definition TopicTradesRaw :: string where "TopicTradesRaw = ''trades.raw''"
definition ConsumerGroupProcessor :: string where "ConsumerGroupProcessor = ''processor-service''"
definition TopicOrderbookRaw :: string where "TopicOrderbookRaw = ''orderbook.raw''"
definition TopicCandles :: string where "TopicCandles = ''candles''"
definition ConsumerGroupAnalytics :: string where "ConsumerGroupAnalytics = ''analytics-service''"

text \<open>The RabbitMQ topology: exchanges, queues and routing keys.\<close>

definition ExchangeAlerts :: string where "ExchangeAlerts = ''alerts''"
definition ExchangeAlertsDLX :: string where "ExchangeAlertsDLX = ''alerts.dlx''"
definition QueueWhaleAlerts :: string where "QueueWhaleAlerts = ''whale.alerts''"
definition QueueLiquidations :: string where "QueueLiquidations = ''liquidations''"
definition QueuePriceAlerts :: string where "QueuePriceAlerts = ''price.alerts''"
definition RoutingKeyWhale :: string where "RoutingKeyWhale = ''whale.alert''"
definition RoutingKeyLiquidation :: string where "RoutingKeyLiquidation = ''liquidation.alert''"
definition RoutingKeyPrice :: string where "RoutingKeyPrice = ''price.alert''"

definition KeyFXRates :: string where "KeyFXRates = ''fx:rates''"

definition KeyPrice :: "string \<Rightarrow> string" where
  "KeyPrice symbol = ''price:'' @ symbol"

definition KeyLatestTrade :: "string \<Rightarrow> string" where
  "KeyLatestTrade symbol = ''trade:latest:'' @ symbol"

definition KeyOrderBook :: "string \<Rightarrow> string" where
  "KeyOrderBook symbol = ''orderbook:'' @ symbol"

section \<open>Lemmas\<close>

lemmas redis_keys = KeyPrice_def KeyLatestTrade_def KeyOrderBook_def KeyFXRates_def

lemma keys_inject [simp]:
  "KeyPrice s = KeyPrice t \<longleftrightarrow> s = t"
  "KeyLatestTrade s = KeyLatestTrade t \<longleftrightarrow> s = t"
  "KeyOrderBook s = KeyOrderBook t \<longleftrightarrow> s = t"
  by (simp_all add: redis_keys)

lemma keys_distinct [simp]:
  "KeyPrice s \<noteq> KeyLatestTrade t" "KeyLatestTrade t \<noteq> KeyPrice s"
  "KeyPrice s \<noteq> KeyOrderBook t" "KeyOrderBook t \<noteq> KeyPrice s"
  "KeyLatestTrade s \<noteq> KeyOrderBook t" "KeyOrderBook t \<noteq> KeyLatestTrade s"
  "KeyFXRates \<noteq> KeyPrice s" "KeyFXRates \<noteq> KeyLatestTrade s" "KeyFXRates \<noteq> KeyOrderBook s"
  by (simp_all add: redis_keys)

lemma side_distinct [simp]: "SideBuy \<noteq> SideSell" "SideSell \<noteq> SideBuy"
  by (simp_all add: SideBuy_def SideSell_def)


section \<open>Properties\<close>

text \<open>Conversion rates: the on-exchange quote assets, in any case, have rate one whatever the
  table holds; any other asset has a rate exactly when the table has an entry under its
  upper-case name, and then that entry; a missing rate is reported, never made up.\<close>

theorem Rate_sources:
  "(ToUpper U q \<in> {''USD'', ''USDT'', ''USDC''} \<longrightarrow> Rate U f q = (f_one, True)) \<and>
   (ToUpper U q \<notin> {''USD'', ''USDT'', ''USDC''} \<longrightarrow>
      (snd (Rate U f q) \<longleftrightarrow> ToUpper U q \<in> dom (Rates f)) \<and>
      (\<forall>r. Rates f (ToUpper U q) = Some r \<longrightarrow> Rate U f q = (r, True))) \<and>
   (ToUpper U q = ToUpper U q' \<longrightarrow> Rate U f q = Rate U f q')"
  by (auto simp: Rate_def Let_def OnExchangeQuoteAssets_def split: option.split)

theorem Rate_sources_witness:
  "Rate ascii_tables \<lparr>Base = ''USD'', Rates = Map.empty, FetchedAt = 0\<rparr> ''usdt'' = (f_one, True) \<and>
   \<not> snd (Rate ascii_tables \<lparr>Base = ''USD'', Rates = Map.empty, FetchedAt = 0\<rparr> ''eur'')"
proof -
  have u: "ToUpper ascii_tables ''usdt'' = ''USDT''" "ToUpper ascii_tables ''eur'' = ''EUR''" by code_simp+
  show ?thesis
    using Rate_sources [of ascii_tables "''usdt''" "\<lparr>Base = ''USD'', Rates = Map.empty, FetchedAt = 0\<rparr>"]
      Rate_sources [of ascii_tables "''eur''" "\<lparr>Base = ''USD'', Rates = Map.empty, FetchedAt = 0\<rparr>"]
    by (simp add: u)
qed

text \<open>The deduplication key is the same for every copy of an alert, and also for different
  trades of one symbol in the same second whose prices agree to two decimals: quantity, side,
  notional and trade id are not part of it, so the second of two such whales is not notified.\<close>

theorem DedupKey_collides:
  assumes "AlertSymbol a = AlertSymbol b" "format_2f (AlertPrice a) = format_2f (AlertPrice b)"
    and "Unix (AlertTime a) = Unix (AlertTime b)"
  shows "DedupKey a = DedupKey b \<and>
    DedupKey (a\<lparr>AlertQuantity := q, AlertNotional := n, AlertSide := sd, Threshold := th\<rparr>) = DedupKey b"
  using assms by (simp add: DedupKey_def)

theorem DedupKey_collides_witness:
  "DedupKey \<lparr>AlertSymbol = ''BTCUSDT'', AlertPrice = f_one, AlertQuantity = f_one, AlertNotional = f_one,
      AlertSide = SideBuy, Threshold = f_one, AlertTime = 1000000000\<rparr>
   = DedupKey \<lparr>AlertSymbol = ''BTCUSDT'', AlertPrice = f_one, AlertQuantity = f_zero, AlertNotional = f_zero,
      AlertSide = SideSell, Threshold = f_one, AlertTime = 1999999999\<rparr>"
  using DedupKey_collides [of
      "\<lparr>AlertSymbol = ''BTCUSDT'', AlertPrice = f_one, AlertQuantity = f_one, AlertNotional = f_one,
        AlertSide = SideBuy, Threshold = f_one, AlertTime = 1000000000\<rparr>"
      "\<lparr>AlertSymbol = ''BTCUSDT'', AlertPrice = f_one, AlertQuantity = f_zero, AlertNotional = f_zero,
        AlertSide = SideSell, Threshold = f_one, AlertTime = 1999999999\<rparr>"]
  by (simp add: Unix_def)

end
