(* ===== verification/Enrich.thy ===== *)
theory Enrich
  imports Domain
begin

text \<open>
  The handler chain of processor-service: the static metadata table (\<open>metadata.go\<close>), the
  enricher (\<open>enricher.go\<close>) and the middleware combinator (\<open>middleware.go\<close>). A
  \<open>TradeHandler\<close> is a state transformer with an error result; the context it is given is
  part of the state, since it may be cancelled while the handler runs. The lemmas show that
  the enricher forwards exactly one event that differs from its input only in notional and
  market, and that a chain runs its middlewares outermost first.
\<close>

type_synonym 's TradeHandler = "TradeEvent \<Rightarrow> 's \<Rightarrow> 's \<times> goerror option"
type_synonym 's TradeMiddleware = "'s TradeHandler \<Rightarrow> 's TradeHandler"

section \<open>Metadata\<close>

record StaticMetadataProvider =
  table :: "string \<rightharpoonup> MarketMetadata"

definition defaultMarketMetadata :: "string \<rightharpoonup> MarketMetadata" where
  "defaultMarketMetadata =
     [''BTCUSDT'' \<mapsto> \<lparr>BaseAsset = ''BTC'', QuoteAsset = ''USDT'', Exchange = ''Binance''\<rparr>,
      ''ETHUSDT'' \<mapsto> \<lparr>BaseAsset = ''ETH'', QuoteAsset = ''USDT'', Exchange = ''Binance''\<rparr>,
      ''SOLUSDT'' \<mapsto> \<lparr>BaseAsset = ''SOL'', QuoteAsset = ''USDT'', Exchange = ''Binance''\<rparr>]"

definition NewStaticMetadataProvider :: "(string \<rightharpoonup> MarketMetadata) \<Rightarrow> StaticMetadataProvider" where
  "NewStaticMetadataProvider t = \<lparr>table = t\<rparr>"

definition NewDefaultMetadataProvider :: StaticMetadataProvider where
  "NewDefaultMetadataProvider = NewStaticMetadataProvider defaultMarketMetadata"

definition Lookup :: "StaticMetadataProvider \<Rightarrow> string \<Rightarrow> MarketMetadata \<times> bool" where
  "Lookup p symbol =
     (case table p symbol of None \<Rightarrow> (zero_metadata, False) | Some m \<Rightarrow> (m, True))"

section \<open>Enricher\<close>

text \<open>The enriched copy: the notional is the rounded product, the market the looked-up
  metadata or, on a miss, its zero value.\<close>

definition enrich :: "StaticMetadataProvider \<Rightarrow> TradeEvent \<Rightarrow> TradeEvent" where
  "enrich p e =
     (let e1 = e\<lparr>Notional := f_mul (Price e) (Quantity e)\<rparr>
      in e1\<lparr>Market := fst (Lookup p (Symbol e1))\<rparr>)"

definition Enricher_Handle :: "'s TradeHandler \<Rightarrow> StaticMetadataProvider \<Rightarrow> 's TradeHandler" where
  "Enricher_Handle next p e st = next (enrich p e) st"

section \<open>Middleware\<close>

text \<open>The loop of \<open>Chain\<close>: \<open>i\<close> counts down from the last middleware.\<close>

fun chain_loop :: "nat \<Rightarrow> 's TradeMiddleware list \<Rightarrow> 's TradeHandler \<Rightarrow> 's TradeHandler" where
  "chain_loop 0 mws h = h"
| "chain_loop (Suc i) mws h = chain_loop i mws ((mws ! i) h)"

definition Chain :: "'s TradeHandler \<Rightarrow> 's TradeMiddleware list \<Rightarrow> 's TradeHandler" where
  "Chain base mws = chain_loop (length mws) mws base"

text \<open>The logger is what it does to the state; the entry holds the fields that are logged.\<close>

record log_entry =
  log_symbol :: string
  log_price :: float64
  log_quantity :: float64
  log_side :: Side
  log_trade_id :: int64

definition trade_entry :: "TradeEvent \<Rightarrow> log_entry" where
  "trade_entry e =
     \<lparr>log_symbol = Symbol e, log_price = Price e, log_quantity = Quantity e,
      log_side = Side e, log_trade_id = TradeID e\<rparr>"

definition withLogging :: "(log_entry \<Rightarrow> 's \<Rightarrow> 's) \<Rightarrow> 's TradeMiddleware" where
  "withLogging debug next e st = next e (debug (trade_entry e) st)"

section \<open>Lemmas\<close>

lemma enrich_fields [simp]:
  "Symbol (enrich p e) = Symbol e" "Price (enrich p e) = Price e"
  "Quantity (enrich p e) = Quantity e" "Side (enrich p e) = Side e"
  "TradeID (enrich p e) = TradeID e" "IsWhale (enrich p e) = IsWhale e"
  "EventTime (enrich p e) = EventTime e" "IngestTime (enrich p e) = IngestTime e"
  "Notional (enrich p e) = f_mul (Price e) (Quantity e)"
  "Market (enrich p e) = fst (Lookup p (Symbol e))"
  by (simp_all add: enrich_def Let_def)

lemma enrich_idem: "enrich p (enrich p e) = enrich p e"
  by (intro TradeEvent.equality) simp_all

lemma chain_loop_foldr: "i \<le> length mws \<Longrightarrow> chain_loop i mws h = foldr (\<lambda>m g. m g) (take i mws) h"
proof (induction i arbitrary: h)
  case (Suc i)
  then show ?case by (simp add: take_Suc_conv_app_nth)
qed simp

lemma Chain_foldr: "Chain base mws = foldr (\<lambda>m g. m g) mws base"
  by (simp add: Chain_def chain_loop_foldr)

text \<open>Logging changes neither the event nor the result: over a logger that appends to a list, a
  logged handler is the bare one with one entry more in the log.\<close>

lemma withLogging_transparent:
  "withLogging (\<lambda>l (st, ls). (st, ls @ [l])) (\<lambda>ev (st, ls). let (st', r) = h ev st in ((st', ls), r)) e (st, ls)
     = (let (st', r) = h e st in ((st', ls @ [trade_entry e]), r))"
  by (simp add: withLogging_def)

lemma f_one_finite [simp]: "is_finite f_one" "mag f_one = 1023 * 2 ^ 52" "\<not> neg f_one"
  by (simp_all add: is_finite_def f_one_def inf_mag_def)

section \<open>Properties\<close>

text \<open>The enricher calls the next handler exactly once, with a copy that differs from the
  trade only in the notional (price times quantity, rounded) and in the market metadata (the
  table's entry, or empty on a miss: a miss never drops the trade), and returns what it
  returns.\<close>

theorem Enricher_forwards:
  "Enricher_Handle next p e st =
     next (e\<lparr>Notional := f_mul (Price e) (Quantity e),
             Market := (case table p (Symbol e) of None \<Rightarrow> zero_metadata | Some m \<Rightarrow> m)\<rparr>) st"
  by (simp add: Enricher_Handle_def enrich_def Let_def Lookup_def split: option.splits)

text \<open>For a trade with positive finite price and quantity, as ingestion lets through, the
  notional is a number that is not negative: the product rounded to within half a unit in the
  last place, or plus infinity where it is too large for a float64. Where both factors are
  below infinity it is never NaN.\<close>

theorem enrich_notional:
  assumes "is_finite (Price e)" "is_finite (Quantity e)" "f_lt f_zero (Price e)" "f_lt f_zero (Quantity e)"
  shows "\<not> is_nan (Notional (enrich p e)) \<and> f_le f_zero (Notional (enrich p e)) \<and>
         (is_finite (Notional (enrich p e)) \<longrightarrow>
            \<bar>fval (mag (Notional (enrich p e))) - fval (mag (Price e)) * fval (mag (Quantity e))\<bar>
              \<le> two (ulp_exp
                    (mant (mag (Price e)) * mant (mag (Quantity e))
                       * 2 ^ nat (expo (mag (Price e)) + expo (mag (Quantity e))))
                    (2 ^ nat (- (expo (mag (Price e)) + expo (mag (Quantity e)))))) / 2)"
proof -
  let ?x = "Price e" and ?y = "Quantity e" and ?e = "expo (mag (Price e)) + expo (mag (Quantity e))"
  let ?m = "mant (mag ?x) * mant (mag ?y)"
  have pos: "\<not> neg ?x" "\<not> neg ?y" "0 < mag ?x" "0 < mag ?y"
    using assms(3,4) by (auto simp: f_lt_def fkey_def split: if_splits)
  have m: "0 < ?m" using pos(3,4) by (simp add: mant_def)
  have nan: "\<not> is_nan (f_mul ?x ?y)" using assms(1,2) by (rule f_mul_not_nan)
  have sign: "\<not> neg (f_mul ?x ?y)" using pos by (simp add: neg_f_mul_finite assms)
  have "f_le f_zero (f_mul ?x ?y)"
    using nan sign by (simp add: f_le_def fkey_def is_nan_def)
  moreover have "\<bar>fval (mag (f_mul ?x ?y)) - fval (mag ?x) * fval (mag ?y)\<bar>
      \<le> two (ulp_exp (?m * 2 ^ nat ?e) (2 ^ nat (- ?e))) / 2" if "is_finite (f_mul ?x ?y)"
  proof -
    have v: "real (?m * 2 ^ nat ?e) / real (2 ^ nat (- ?e)) = fval (mag ?x) * fval (mag ?y)"
      unfolding round_dyadic_ratio by (simp add: fval_def power_int_add)
    have "round_ratio (?m * 2 ^ nat ?e) (2 ^ nat (- ?e)) = mag (f_mul ?x ?y)"
      by (simp add: mag_f_mul_finite assms round_dyadic_def)
    with that m show ?thesis
      using round_ratio_error [of "?m * 2 ^ nat ?e" "2 ^ nat (- ?e)"] unfolding v
      by (simp add: is_finite_def)
  qed
  ultimately show ?thesis using nan by simp
qed

theorem enrich_notional_witness:
  "\<not> is_nan (Notional (enrich NewDefaultMetadataProvider (zero_trade\<lparr>Price := f_one, Quantity := f_one\<rparr>))) \<and>
   f_le f_zero (Notional (enrich NewDefaultMetadataProvider (zero_trade\<lparr>Price := f_one, Quantity := f_one\<rparr>))) \<and>
   Notional (enrich NewDefaultMetadataProvider (zero_trade\<lparr>Price := f_one, Quantity := f_one\<rparr>)) = f_one"
proof -
  have "f_lt f_zero f_one" by (simp add: f_lt_def is_nan_def fkey_def inf_mag_def)
  then show ?thesis
    using enrich_notional [of "zero_trade\<lparr>Price := f_one, Quantity := f_one\<rparr>" NewDefaultMetadataProvider]
    by (simp add: f_mul_one)
qed

text \<open>A chain of middlewares is their nesting in the order given: the first is outermost
  and runs first, the base handler runs last.\<close>

theorem Chain_nests: "Chain base [] = base \<and> Chain base (m # mws) = m (Chain base mws)"
  by (simp add: Chain_foldr)

end
