(* ===== verification/Json.thy ===== *)
theory Json
  imports Strconv
begin

text \<open>
  The text format every service exchanges: JSON as \<open>encoding/json\<close> reads and writes it.
  A document is a tree whose number and string leaves keep their source text (a string leaf
  the text between its quotes), because what a leaf means depends on the Go type it is
  decoded into. \<open>json_parse\<close> is the scanner (any byte string, \<open>None\<close> for text that is
  not one JSON value), \<open>json_print\<close> the compact writer; \<open>quote\<close> and \<open>unquote\<close>
  convert Go strings, with the escapes of the writer (HTML-safe) and of the reader
  (surrogates, invalid UTF-8).
\<close>

section \<open>Documents\<close>

datatype json =
    JNull
  | JBool bool
  | JNum string
  | JStr string
  | JArr "json list"
  | JObj "(string \<times> json) list"

section \<open>Scanner\<close>

definition json_space :: "char \<Rightarrow> bool" where
  "json_space c = (c \<in> {CHR '' '', CHR 0x09, CHR 0x0A, CHR 0x0D})"

definition skip_ws :: "string \<Rightarrow> string" where
  "skip_ws s = dropWhile json_space s"

definition is_hex :: "char \<Rightarrow> bool" where
  "is_hex c = (digit_in 16 c \<noteq> None)"

text \<open>The characters that may follow a backslash, apart from the hexadecimal form.\<close>

definition escapes :: "char list" where
  "escapes = [CHR ''b'', CHR ''f'', CHR ''n'', CHR ''r'', CHR ''t'', CHR 0x5C, CHR ''/'', CHR 0x22]"

text \<open>The text of a string up to its closing quote, and the rest after the quote.\<close>

fun scan_string :: "string \<Rightarrow> (string \<times> string) option" where
  "scan_string [] = None"
| "scan_string (c # cs) =
     (if c = CHR 0x22 then Some ([], cs)
      else if of_char c < (32::nat) then None
      else if c = CHR 0x5C then
        (case cs of
           [] \<Rightarrow> None
         | d # ds \<Rightarrow>
             (if d = CHR ''u'' then
                (case ds of
                   h1 # h2 # h3 # h4 # rest \<Rightarrow>
                     (if is_hex h1 \<and> is_hex h2 \<and> is_hex h3 \<and> is_hex h4
                      then map_option (\<lambda>(s, r). (c # d # h1 # h2 # h3 # h4 # s, r)) (scan_string rest)
                      else None)
                 | _ \<Rightarrow> None)
              else if d \<in> set escapes then map_option (\<lambda>(s, r). (c # d # s, r)) (scan_string ds)
              else None))
      else map_option (\<lambda>(s, r). (c # s, r)) (scan_string cs))"

text \<open>Numbers: an optional minus, an integer part without leading zeros, an optional
  fraction, an optional exponent.\<close>

definition num_char :: "char \<Rightarrow> bool" where
  "num_char c = (is_digit c \<or> c \<in> {CHR ''+'', CHR ''-'', CHR ''.'', CHR ''e'', CHR ''E''})"

definition int_part_ok :: "string \<Rightarrow> bool" where
  "int_part_ok ds = (ds \<noteq> [] \<and> (hd ds = CHR ''0'' \<longrightarrow> tl ds = []))"

definition exp_ok :: "string \<Rightarrow> bool" where
  "exp_ok s =
     (case s of
        [] \<Rightarrow> True
      | c # cs \<Rightarrow>
          (c = CHR ''e'' \<or> c = CHR ''E'') \<and>
          (let ds = (if cs \<noteq> [] \<and> (hd cs = CHR ''+'' \<or> hd cs = CHR ''-'') then tl cs else cs)
           in ds \<noteq> [] \<and> list_all is_digit ds))"

definition json_number :: "string \<Rightarrow> bool" where
  "json_number s =
     (let u = (if s \<noteq> [] \<and> hd s = CHR ''-'' then tl s else s);
          i = takeWhile is_digit u; r = dropWhile is_digit u
      in int_part_ok i \<and>
         (if r \<noteq> [] \<and> hd r = CHR ''.''
          then takeWhile is_digit (tl r) \<noteq> [] \<and> exp_ok (dropWhile is_digit (tl r))
          else exp_ok r))"

text \<open>Values nest at most 10000 deep. The fuel bounds the number of values and separators
  read; one unit per byte of the text is enough, since every step consumes a byte.\<close>

definition max_depth :: nat where "max_depth = 10000"

definition strip_prefix :: "string \<Rightarrow> string \<Rightarrow> string option" where
  "strip_prefix p s = (if take (length p) s = p then Some (drop (length p) s) else None)"

fun parse_value :: "nat \<Rightarrow> nat \<Rightarrow> string \<Rightarrow> (json \<times> string) option"
  and parse_elems :: "nat \<Rightarrow> nat \<Rightarrow> string \<Rightarrow> (json list \<times> string) option"
  and parse_members :: "nat \<Rightarrow> nat \<Rightarrow> string \<Rightarrow> ((string \<times> json) list \<times> string) option" where
  "parse_value 0 d s = None"
| "parse_value (Suc k) d s =
     (case skip_ws s of
        [] \<Rightarrow> None
      | c # cs \<Rightarrow>
          (if c = CHR ''{'' then
             (if max_depth \<le> d then None
              else if skip_ws cs \<noteq> [] \<and> hd (skip_ws cs) = CHR ''}'' then Some (JObj [], tl (skip_ws cs))
              else map_option (\<lambda>(ms, r). (JObj ms, r)) (parse_members k (Suc d) cs))
           else if c = CHR ''['' then
             (if max_depth \<le> d then None
              else if skip_ws cs \<noteq> [] \<and> hd (skip_ws cs) = CHR '']'' then Some (JArr [], tl (skip_ws cs))
              else map_option (\<lambda>(vs, r). (JArr vs, r)) (parse_elems k (Suc d) cs))
           else if c = CHR 0x22 then map_option (\<lambda>(t, r). (JStr t, r)) (scan_string cs)
           else if num_char c then
             (let t = takeWhile num_char (c # cs)
              in if json_number t then Some (JNum t, dropWhile num_char (c # cs)) else None)
           else (case strip_prefix ''null'' (c # cs) of
                   Some r \<Rightarrow> Some (JNull, r)
                 | None \<Rightarrow> (case strip_prefix ''true'' (c # cs) of
                              Some r \<Rightarrow> Some (JBool True, r)
                            | None \<Rightarrow> map_option (\<lambda>r. (JBool False, r)) (strip_prefix ''false'' (c # cs))))))"
| "parse_elems 0 d s = None"
| "parse_elems (Suc k) d s =
     (case parse_value k d s of
        None \<Rightarrow> None
      | Some (v, r) \<Rightarrow>
          (case skip_ws r of
             [] \<Rightarrow> None
           | c # cs \<Rightarrow>
               (if c = CHR '']'' then Some ([v], cs)
                else if c = CHR '','' then map_option (\<lambda>(vs, r'). (v # vs, r')) (parse_elems k d cs)
                else None)))"
| "parse_members 0 d s = None"
| "parse_members (Suc k) d s =
     (case skip_ws s of
        [] \<Rightarrow> None
      | q # qs \<Rightarrow>
          (if q \<noteq> CHR 0x22 then None
           else (case scan_string qs of
                   None \<Rightarrow> None
                 | Some (nm, r) \<Rightarrow>
                     (case skip_ws r of
                        [] \<Rightarrow> None
                      | c # cs \<Rightarrow>
                          (if c \<noteq> CHR '':'' then None
                           else (case parse_value k d cs of
                                   None \<Rightarrow> None
                                 | Some (v, r1) \<Rightarrow>
                                     (case skip_ws r1 of
                                        [] \<Rightarrow> None
                                      | e # es \<Rightarrow>
                                          (if e = CHR ''}'' then Some ([(nm, v)], es)
                                           else if e = CHR '','' then
                                             map_option (\<lambda>(ms, r'). ((nm, v) # ms, r')) (parse_members k d es)
                                           else None))))))))"

definition json_parse :: "string \<Rightarrow> json option" where
  "json_parse s =
     (case parse_value (Suc (2 * length s)) 0 s of
        None \<Rightarrow> None
      | Some (v, r) \<Rightarrow> (if skip_ws r = [] then Some v else None))"

section \<open>Writer\<close>

fun sep_by :: "string \<Rightarrow> string list \<Rightarrow> string" where
  "sep_by d [] = []"
| "sep_by d [x] = x"
| "sep_by d (x # y # ys) = x @ d @ sep_by d (y # ys)"

fun json_print :: "json \<Rightarrow> string" where
  "json_print JNull = ''null''"
| "json_print (JBool b) = (if b then ''true'' else ''false'')"
| "json_print (JNum t) = t"
| "json_print (JStr t) = [CHR 0x22] @ t @ [CHR 0x22]"
| "json_print (JArr vs) = ''['' @ sep_by '','' (map json_print vs) @ '']''"
| "json_print (JObj ms) =
     ''{'' @ sep_by '','' (map (\<lambda>(k, v). [CHR 0x22] @ k @ [CHR 0x22, CHR '':''] @ json_print v) ms) @ ''}''"

section \<open>Strings\<close>

definition hex_digit :: "nat \<Rightarrow> char" where
  "hex_digit d = (if d < 10 then char_of (48 + d) else char_of (87 + d))"

definition quote_byte :: "char \<Rightarrow> string" where
  "quote_byte c =
     (if c = CHR 0x22 \<or> c = CHR 0x5C then [CHR 0x5C, c]
      else if c = CHR 0x08 then [CHR 0x5C, CHR ''b'']
      else if c = CHR 0x0C then [CHR 0x5C, CHR ''f'']
      else if c = CHR 0x0A then [CHR 0x5C, CHR ''n'']
      else if c = CHR 0x0D then [CHR 0x5C, CHR ''r'']
      else if c = CHR 0x09 then [CHR 0x5C, CHR ''t'']
      else if of_char c < (32::nat) \<or> c = CHR ''<'' \<or> c = CHR ''>'' \<or> c = CHR ''&''
        then [CHR 0x5C, CHR ''u'', CHR ''0'', CHR ''0'',
              hex_digit (of_char c div 16), hex_digit (of_char c mod 16)]
      else [c])"

text \<open>The length of the well-formed UTF-8 sequence a byte string starts with, 0 if there is
  none.\<close>

definition cont :: "nat \<Rightarrow> bool" where "cont b = (128 \<le> b \<and> b < 192)"

definition utf8_len :: "string \<Rightarrow> nat" where
  "utf8_len s =
     (case map of_char s :: nat list of
        [] \<Rightarrow> 0
      | b0 # bs \<Rightarrow>
          (if b0 < 128 then 1
           else if 194 \<le> b0 \<and> b0 < 224 then
             (case bs of b1 # _ \<Rightarrow> (if cont b1 then 2 else 0) | _ \<Rightarrow> 0)
           else if 224 \<le> b0 \<and> b0 < 240 then
             (case bs of b1 # b2 # _ \<Rightarrow>
                (if cont b1 \<and> cont b2 \<and> (b0 = 224 \<longrightarrow> 160 \<le> b1) \<and> (b0 = 237 \<longrightarrow> b1 < 160)
                 then 3 else 0)
              | _ \<Rightarrow> 0)
           else if 240 \<le> b0 \<and> b0 < 245 then
             (case bs of b1 # b2 # b3 # _ \<Rightarrow>
                (if cont b1 \<and> cont b2 \<and> cont b3 \<and> (b0 = 240 \<longrightarrow> 144 \<le> b1) \<and> (b0 = 244 \<longrightarrow> b1 < 144)
                 then 4 else 0)
              | _ \<Rightarrow> 0)
           else 0))"

definition utf8_enc :: "nat \<Rightarrow> string" where
  "utf8_enc n = map char_of
     (if n < 128 then [n]
      else if n < 2048 then [192 + n div 64, 128 + n mod 64]
      else if n < 65536 then [224 + n div 4096, 128 + n div 64 mod 64, 128 + n mod 64]
      else [240 + n div 262144, 128 + n div 4096 mod 64, 128 + n div 64 mod 64, 128 + n mod 64])"

definition replacement :: nat where "replacement = 65533"

function quote :: "string \<Rightarrow> string" where
  "quote s =
     (if s = [] then []
      else (let n = utf8_len s
            in if n = 0 then [CHR 0x5C] @ ''ufffd'' @ quote (tl s)
               else if n = 1 then quote_byte (hd s) @ quote (tl s)
               else if take 3 s = utf8_enc 8232 then [CHR 0x5C] @ ''u2028'' @ quote (drop 3 s)
               else if take 3 s = utf8_enc 8233 then [CHR 0x5C] @ ''u2029'' @ quote (drop 3 s)
               else take n s @ quote (drop n s)))"
  by pat_completeness auto
termination
  by (relation "measure length") (auto simp: Let_def)

declare quote.simps [simp del]

definition hex4 :: "string \<Rightarrow> nat" where
  "hex4 s = foldl (\<lambda>a c. 16 * a + (case digit_in 16 c of None \<Rightarrow> 0 | Some d \<Rightarrow> d)) 0 (take 4 s)"

definition simple_escape :: "char \<Rightarrow> char" where
  "simple_escape d =
     (if d = CHR ''b'' then CHR 0x08 else if d = CHR ''f'' then CHR 0x0C
      else if d = CHR ''n'' then CHR 0x0A else if d = CHR ''r'' then CHR 0x0D
      else if d = CHR ''t'' then CHR 0x09 else d)"

definition high_surr :: "nat \<Rightarrow> bool" where "high_surr n = (55296 \<le> n \<and> n < 56320)"
definition low_surr :: "nat \<Rightarrow> bool" where "low_surr n = (56320 \<le> n \<and> n < 57344)"

text \<open>The Go string a string leaf denotes; the leaf comes from \<open>scan_string\<close>, so its
  escapes are complete.\<close>

function unquote :: "string \<Rightarrow> string" where
  "unquote s =
     (if s = [] then []
      else if hd s = CHR 0x5C then
        (if length s = 1 then []
         else if s ! 1 = CHR ''u'' then
           (let n = hex4 (drop 2 s); r = drop 6 s; m = hex4 (drop 2 r)
            in if high_surr n \<and> take 2 r = [CHR 0x5C, CHR ''u''] \<and> low_surr m
               then utf8_enc (65536 + (n - 55296) * 1024 + (m - 56320)) @ unquote (drop 6 r)
               else if high_surr n \<or> low_surr n then utf8_enc replacement @ unquote r
               else utf8_enc n @ unquote r)
         else simple_escape (s ! 1) # unquote (drop 2 s))
      else (let n = utf8_len s
            in if n = 0 then utf8_enc replacement @ unquote (tl s)
               else take n s @ unquote (drop n s)))"
  by pat_completeness auto
termination
  by (relation "measure length") (auto simp: Let_def)

declare unquote.simps [simp del]

end
