(* ===== verification/Wire.thy ===== *)
theory Wire
  imports Json Domain
begin

text \<open>
  The JSON forms of the domain types, as \<open>encoding/json\<close> derives them from the struct tags:
  \<open>json.Marshal\<close> and \<open>json.Unmarshal\<close> on trade events, order books and the exchange's
  trade message. Marshalling fails on a float that is not finite and on an instant outside
  the years 0 to 9999. Unmarshalling reads the members in order, matches a key exactly or,
  failing that, up to case, ignores unknown keys, leaves a field unchanged on \<open>null\<close>, and
  fails if any matched member has the wrong type (Go decodes the rest and then returns the
  error, and every caller of the repository drops the value in that case).
\<close>

section \<open>Decoding\<close>

text \<open>Key folding: ASCII letters, and the two letters outside ASCII that fold to \<open>s\<close> and
  \<open>k\<close>.\<close>

fun fold_key :: "string \<Rightarrow> string" where
  "fold_key (a # b # c # s) =
     (if [a, b] = [CHR 0xC5, CHR 0xBF] then CHR ''S'' # fold_key (c # s)
      else if [a, b, c] = [CHR 0xE2, CHR 0x84, CHR 0xAA] then CHR ''K'' # fold_key s
      else ascii_up a # fold_key (b # c # s))"
| "fold_key [a, b] =
     (if [a, b] = [CHR 0xC5, CHR 0xBF] then ''S'' else [ascii_up a, ascii_up b])"
| "fold_key [a] = [ascii_up a]"
| "fold_key [] = []"

definition match_field :: "string list \<Rightarrow> string \<Rightarrow> string option" where
  "match_field names k =
     (if k \<in> set names then Some k
      else find (\<lambda>n. fold_key n = fold_key k) names)"

text \<open>Members applied in order: \<open>set\<close> stores one field.\<close>

fun dec_members ::
  "string list \<Rightarrow> (string \<Rightarrow> json \<Rightarrow> 'r \<Rightarrow> 'r option) \<Rightarrow> (string \<times> json) list \<Rightarrow> 'r \<Rightarrow> 'r option" where
  "dec_members names store [] r = Some r"
| "dec_members names store ((k, v) # ms) r =
     (case match_field names (unquote k) of
        None \<Rightarrow> dec_members names store ms r
      | Some n \<Rightarrow> (case store n v r of None \<Rightarrow> None | Some r' \<Rightarrow> dec_members names store ms r'))"

definition dec_struct ::
  "string list \<Rightarrow> (string \<Rightarrow> json \<Rightarrow> 'r \<Rightarrow> 'r option) \<Rightarrow> 'r \<Rightarrow> json \<Rightarrow> 'r option" where
  "dec_struct names store r v =
     (case v of JObj ms \<Rightarrow> dec_members names store ms r | JNull \<Rightarrow> Some r | _ \<Rightarrow> None)"

definition dec_string :: "string \<Rightarrow> json \<Rightarrow> string option" where
  "dec_string old v = (case v of JStr t \<Rightarrow> Some (unquote t) | JNull \<Rightarrow> Some old | _ \<Rightarrow> None)"

definition dec_bool :: "bool \<Rightarrow> json \<Rightarrow> bool option" where
  "dec_bool old v = (case v of JBool b \<Rightarrow> Some b | JNull \<Rightarrow> Some old | _ \<Rightarrow> None)"

definition dec_int64 :: "int64 \<Rightarrow> json \<Rightarrow> int64 option" where
  "dec_int64 old v = (case v of JNum t \<Rightarrow> ParseInt t | JNull \<Rightarrow> Some old | _ \<Rightarrow> None)"

definition dec_float :: "float64 \<Rightarrow> json \<Rightarrow> float64 option" where
  "dec_float old v = (case v of JNum t \<Rightarrow> ParseFloat t | JNull \<Rightarrow> Some old | _ \<Rightarrow> None)"

text \<open>\<open>Time.UnmarshalJSON\<close> sees the text between the quotes as it stands.\<close>

definition dec_time :: "gotime \<Rightarrow> json \<Rightarrow> gotime option" where
  "dec_time old v = (case v of JStr t \<Rightarrow> parse_time t | JNull \<Rightarrow> Some old | _ \<Rightarrow> None)"

fun dec_list :: "(json \<Rightarrow> 'a option) \<Rightarrow> json list \<Rightarrow> 'a list option" where
  "dec_list f [] = Some []"
| "dec_list f (v # vs) =
     (case f v of None \<Rightarrow> None
      | Some x \<Rightarrow> (case dec_list f vs of None \<Rightarrow> None | Some xs \<Rightarrow> Some (x # xs)))"

definition dec_slice :: "(json \<Rightarrow> 'a option) \<Rightarrow> json \<Rightarrow> 'a slice option" where
  "dec_slice f v =
     (case v of JArr vs \<Rightarrow> map_option Some (dec_list f vs) | JNull \<Rightarrow> Some None | _ \<Rightarrow> None)"

section \<open>Trade events\<close>

definition metadata_fields :: "string list" where
  "metadata_fields = [''base_asset'', ''quote_asset'', ''exchange'']"

definition store_metadata :: "string \<Rightarrow> json \<Rightarrow> MarketMetadata \<Rightarrow> MarketMetadata option" where
  "store_metadata n v m =
     (if n = ''base_asset'' then map_option (\<lambda>s. m\<lparr>BaseAsset := s\<rparr>) (dec_string (BaseAsset m) v)
      else if n = ''quote_asset'' then map_option (\<lambda>s. m\<lparr>QuoteAsset := s\<rparr>) (dec_string (QuoteAsset m) v)
      else map_option (\<lambda>s. m\<lparr>Exchange := s\<rparr>) (dec_string (Exchange m) v))"

definition trade_fields :: "string list" where
  "trade_fields =
     [''symbol'', ''price'', ''quantity'', ''side'', ''trade_id'', ''notional'', ''market'',
      ''is_whale'', ''event_time'', ''ingest_time'']"

definition store_trade :: "string \<Rightarrow> json \<Rightarrow> TradeEvent \<Rightarrow> TradeEvent option" where
  "store_trade n v e =
     (if n = ''symbol'' then map_option (\<lambda>s. e\<lparr>Symbol := s\<rparr>) (dec_string (Symbol e) v)
      else if n = ''price'' then map_option (\<lambda>x. e\<lparr>Price := x\<rparr>) (dec_float (Price e) v)
      else if n = ''quantity'' then map_option (\<lambda>x. e\<lparr>Quantity := x\<rparr>) (dec_float (Quantity e) v)
      else if n = ''side'' then map_option (\<lambda>s. e\<lparr>Side := s\<rparr>) (dec_string (Side e) v)
      else if n = ''trade_id'' then map_option (\<lambda>i. e\<lparr>TradeID := i\<rparr>) (dec_int64 (TradeID e) v)
      else if n = ''notional'' then map_option (\<lambda>x. e\<lparr>Notional := x\<rparr>) (dec_float (Notional e) v)
      else if n = ''market'' then
        map_option (\<lambda>m. e\<lparr>Market := m\<rparr>) (dec_struct metadata_fields store_metadata (Market e) v)
      else if n = ''is_whale'' then map_option (\<lambda>b. e\<lparr>IsWhale := b\<rparr>) (dec_bool (IsWhale e) v)
      else if n = ''event_time'' then map_option (\<lambda>t. e\<lparr>EventTime := t\<rparr>) (dec_time (EventTime e) v)
      else map_option (\<lambda>t. e\<lparr>IngestTime := t\<rparr>) (dec_time (IngestTime e) v))"

definition unmarshal_trade :: "string \<Rightarrow> TradeEvent option" where
  "unmarshal_trade raw =
     (case json_parse raw of None \<Rightarrow> None
      | Some v \<Rightarrow> dec_struct trade_fields store_trade zero_trade v)"

text \<open>Members that are omitted when empty are filtered out; a member without an encoding
  fails the whole document.\<close>

fun enc_members :: "(string \<times> json option) list \<Rightarrow> (string \<times> json) list option" where
  "enc_members [] = Some []"
| "enc_members ((k, v) # ms) =
     (case v of None \<Rightarrow> None
      | Some j \<Rightarrow> map_option (\<lambda>js. (k, j) # js) (enc_members ms))"

definition enc_obj :: "(string \<times> json option) list \<Rightarrow> json option" where
  "enc_obj ms = map_option JObj (enc_members ms)"

definition enc_string :: "string \<Rightarrow> json option" where
  "enc_string s = Some (JStr (quote s))"

definition enc_float :: "float64 \<Rightarrow> json option" where
  "enc_float x = map_option JNum (json_float x)"

definition enc_time :: "gotime \<Rightarrow> json option" where
  "enc_time t = map_option JStr (format_time t)"

definition enc_int64 :: "int64 \<Rightarrow> json option" where
  "enc_int64 i = Some (JNum (FormatInt (sint i)))"

definition unless :: "bool \<Rightarrow> 'a \<Rightarrow> 'a list" where
  "unless b x = (if b then [] else [x])"

definition enc_metadata :: "MarketMetadata \<Rightarrow> json option" where
  "enc_metadata m = enc_obj
     (unless (BaseAsset m = []) (''base_asset'', enc_string (BaseAsset m)) @
      unless (QuoteAsset m = []) (''quote_asset'', enc_string (QuoteAsset m)) @
      unless (Exchange m = []) (''exchange'', enc_string (Exchange m)))"

definition enc_trade :: "TradeEvent \<Rightarrow> json option" where
  "enc_trade e = enc_obj
     ([(''symbol'', enc_string (Symbol e)), (''price'', enc_float (Price e)),
       (''quantity'', enc_float (Quantity e)), (''side'', enc_string (Side e)),
       (''trade_id'', enc_int64 (TradeID e))] @
      unless (mag (Notional e) = 0) (''notional'', enc_float (Notional e)) @
      [(''market'', enc_metadata (Market e))] @
      unless (\<not> IsWhale e) (''is_whale'', Some (JBool True)) @
      [(''event_time'', enc_time (EventTime e)), (''ingest_time'', enc_time (IngestTime e))])"

definition marshal_trade :: "TradeEvent \<Rightarrow> string option" where
  "marshal_trade e = map_option json_print (enc_trade e)"

section \<open>Order books\<close>

definition level_fields :: "string list" where
  "level_fields = [''price'', ''quantity'']"

definition store_level :: "string \<Rightarrow> json \<Rightarrow> PriceLevel \<Rightarrow> PriceLevel option" where
  "store_level n v l =
     (if n = ''price'' then map_option (\<lambda>x. l\<lparr>LvlPrice := x\<rparr>) (dec_float (LvlPrice l) v)
      else map_option (\<lambda>x. l\<lparr>LvlQuantity := x\<rparr>) (dec_float (LvlQuantity l) v))"

definition dec_level :: "json \<Rightarrow> PriceLevel option" where
  "dec_level v = dec_struct level_fields store_level zero_level v"

definition book_fields :: "string list" where
  "book_fields = [''symbol'', ''bids'', ''asks'', ''last_update'']"

definition store_book :: "string \<Rightarrow> json \<Rightarrow> OrderBook \<Rightarrow> OrderBook option" where
  "store_book n v b =
     (if n = ''symbol'' then map_option (\<lambda>s. b\<lparr>BookSymbol := s\<rparr>) (dec_string (BookSymbol b) v)
      else if n = ''bids'' then map_option (\<lambda>ls. b\<lparr>Bids := ls\<rparr>) (dec_slice dec_level v)
      else if n = ''asks'' then map_option (\<lambda>ls. b\<lparr>Asks := ls\<rparr>) (dec_slice dec_level v)
      else map_option (\<lambda>t. b\<lparr>LastUpdate := t\<rparr>) (dec_time (LastUpdate b) v))"

definition unmarshal_book :: "string \<Rightarrow> OrderBook option" where
  "unmarshal_book raw =
     (case json_parse raw of None \<Rightarrow> None
      | Some v \<Rightarrow> dec_struct book_fields store_book zero_book v)"

fun enc_list :: "('a \<Rightarrow> json option) \<Rightarrow> 'a list \<Rightarrow> json list option" where
  "enc_list f [] = Some []"
| "enc_list f (x # xs) =
     (case f x of None \<Rightarrow> None | Some j \<Rightarrow> map_option (\<lambda>js. j # js) (enc_list f xs))"

definition enc_slice :: "('a \<Rightarrow> json option) \<Rightarrow> 'a slice \<Rightarrow> json option" where
  "enc_slice f s = (case s of None \<Rightarrow> Some JNull | Some xs \<Rightarrow> map_option JArr (enc_list f xs))"

definition enc_level :: "PriceLevel \<Rightarrow> json option" where
  "enc_level l = enc_obj
     [(''price'', enc_float (LvlPrice l)), (''quantity'', enc_float (LvlQuantity l))]"

definition enc_book :: "OrderBook \<Rightarrow> json option" where
  "enc_book b = enc_obj
     [(''symbol'', enc_string (BookSymbol b)), (''bids'', enc_slice enc_level (Bids b)),
      (''asks'', enc_slice enc_level (Asks b)), (''last_update'', enc_time (LastUpdate b))]"

definition marshal_book :: "OrderBook \<Rightarrow> string option" where
  "marshal_book b = map_option json_print (enc_book b)"

text \<open>The error \<open>json.Marshal\<close> returns: the first float that is not finite, or an instant out
  of range.\<close>

definition float_error :: "float64 \<Rightarrow> goerror" where
  "float_error x = Errorf (''json: unsupported value: '' @
     (if is_nan x then ''NaN'' else if neg x then ''-Inf'' else ''+Inf''))"

definition time_error :: goerror where
  "time_error = Errorf
     ''json: error calling MarshalJSON for type time.Time: Time.MarshalJSON: year outside of range [0,9999]''"

definition marshal_error :: "float64 list \<Rightarrow> goerror" where
  "marshal_error xs = (case find (\<lambda>x. \<not> is_finite x) xs of Some x \<Rightarrow> float_error x | None \<Rightarrow> time_error)"

definition json_Marshal_trade :: "TradeEvent \<Rightarrow> goerror + string" where
  "json_Marshal_trade e =
     (case marshal_trade e of
        Some s \<Rightarrow> Inr s
      | None \<Rightarrow> Inl (marshal_error [Price e, Quantity e, Notional e]))"

definition level_floats :: "PriceLevel \<Rightarrow> float64 list" where
  "level_floats l = [LvlPrice l, LvlQuantity l]"

definition json_Marshal_book :: "OrderBook \<Rightarrow> goerror + string" where
  "json_Marshal_book b =
     (case marshal_book b of
        Some s \<Rightarrow> Inr s
      | None \<Rightarrow> Inl (marshal_error (concat (map level_floats (elems (Bids b) @ elems (Asks b))))))"


section \<open>When marshalling fails\<close>

lemma json_float_None: "json_float x = None \<longleftrightarrow> \<not> is_finite x"
  by (simp add: json_float_def Let_def split: prod.splits)

lemma enc_members_None: "enc_members ms = None \<longleftrightarrow> (\<exists>kv \<in> set ms. snd kv = None)"
  by (induction ms rule: enc_members.induct) (auto split: option.splits)

lemma enc_members_Some:
  "enc_members ms = Some js \<longleftrightarrow> ms = map (\<lambda>(k, j). (k, Some j)) js"
proof (induction ms arbitrary: js rule: enc_members.induct)
  case (2 k v ms)
  then show ?case by (cases js) (auto split: option.splits)
qed auto

lemma enc_obj_None: "enc_obj ms = None \<longleftrightarrow> (\<exists>kv \<in> set ms. snd kv = None)"
  by (simp add: enc_obj_def enc_members_None)

lemma enc_float_None: "enc_float x = None \<longleftrightarrow> \<not> is_finite x"
  by (simp add: enc_float_def json_float_None)

lemma enc_metadata_Some: "enc_metadata m \<noteq> None"
  by (auto simp: enc_metadata_def enc_obj_None unless_def enc_string_def)

lemma enc_list_None: "enc_list f xs = None \<longleftrightarrow> (\<exists>x \<in> set xs. f x = None)"
  by (induction xs) (auto split: option.splits)

text \<open>A trade marshals exactly if its floats are finite and its instants in range.\<close>

definition trade_encodable :: "TradeEvent \<Rightarrow> bool" where
  "trade_encodable e =
     (is_finite (Price e) \<and> is_finite (Quantity e) \<and> is_finite (Notional e) \<and>
      format_time (EventTime e) \<noteq> None \<and> format_time (IngestTime e) \<noteq> None)"

lemma marshal_trade_None: "marshal_trade e = None \<longleftrightarrow> \<not> trade_encodable e"
proof -
  have "mag (Notional e) = 0 \<Longrightarrow> is_finite (Notional e)"
    by (simp add: is_finite_def inf_mag_def)
  then show ?thesis
    using enc_metadata_Some [of "Market e"]
    by (auto simp: marshal_trade_def enc_trade_def enc_obj_None unless_def enc_float_None
        enc_time_def enc_string_def enc_int64_def trade_encodable_def)
qed

definition book_encodable :: "OrderBook \<Rightarrow> bool" where
  "book_encodable b =
     (list_all (\<lambda>l. is_finite (LvlPrice l) \<and> is_finite (LvlQuantity l)) (elems (Bids b) @ elems (Asks b)) \<and>
      format_time (LastUpdate b) \<noteq> None)"

lemma enc_level_None: "enc_level l = None \<longleftrightarrow> \<not> (is_finite (LvlPrice l) \<and> is_finite (LvlQuantity l))"
  by (auto simp: enc_level_def enc_obj_None enc_float_None)

lemma enc_slice_None: "enc_slice f s = None \<longleftrightarrow> (\<exists>x \<in> set (elems s). f x = None)"
  by (auto simp: enc_slice_def enc_list_None split: option.splits)

lemma marshal_book_None: "marshal_book b = None \<longleftrightarrow> \<not> book_encodable b"
  by (auto simp: marshal_book_def enc_book_def enc_obj_None enc_slice_None enc_level_None
      enc_time_def enc_string_def book_encodable_def list_all_iff)

end
