(* ===== verification/Consumer.thy ===== *)
theory Consumer
  imports Enrich Wire
begin

text \<open>
  The Kafka consumer of processor-service (\<open>consumer.go\<close>). The broker client is not part of
  the repository: what it delivers (the successive poll results), which constructor result it
  gives and what a ping answers are arguments. Marking a record is recorded in order, since it
  is what the client may commit. The lemmas characterise the marked records of a batch and of
  a whole run, and the budget a health ping gets.
\<close>

section \<open>Model\<close>

record kgo_record =
  RTopic :: string
  RPartition :: int
  ROffset :: int
  RKey :: string
  RValue :: string

type_synonym marks = "kgo_record list"

definition NewConsumer :: "string list \<Rightarrow> goerror + 'client \<Rightarrow> goerror + 'client" where
  "NewConsumer brokers new_client =
     (if brokers = [] then Inl (Errorf ''kafka: no broker configured'')
      else (case new_client of
              Inl e \<Rightarrow> Inl (Wrapf ''kafka: new consumer: '' e)
            | Inr c \<Rightarrow> Inr c))"

definition dispatch :: "'s TradeHandler \<Rightarrow> kgo_record \<Rightarrow> 's \<times> marks \<Rightarrow> 's \<times> marks" where
  "dispatch handle rec sm =
     (let (st, ms) = sm
      in (case unmarshal_trade (RValue rec) of
            None \<Rightarrow> (st, ms @ [rec])
          | Some event \<Rightarrow>
              (case handle event st of
                 (st', Some err) \<Rightarrow> (st', ms)
               | (st', None) \<Rightarrow> (st', ms @ [rec]))))"

text \<open>One poll: what the context says after \<open>PollFetches\<close> returned, the fetch errors (only
  logged) and the records.\<close>

record poll =
  p_ctx :: ctx
  p_errors :: "(string \<times> int \<times> goerror) list"
  p_records :: "kgo_record list"

datatype run_result = Running | Returned "goerror option"

fun Consumer_Run :: "'s TradeHandler \<Rightarrow> poll list \<Rightarrow> 's \<times> marks \<Rightarrow> ('s \<times> marks) \<times> run_result" where
  "Consumer_Run handle [] sm = (sm, Running)"
| "Consumer_Run handle (p # ps) sm =
     (if p_ctx p \<noteq> None then (sm, Returned None)
      else Consumer_Run handle ps (fold (dispatch handle) (p_records p) sm))"

definition metadataTimeout :: duration where "metadataTimeout = 2 * Second"

text \<open>\<open>remaining\<close> is \<open>time.Until(deadline)\<close> if the context has a deadline; \<open>ping\<close> answers
  within the timeout it is given.\<close>

definition ping_timeout :: "duration option \<Rightarrow> duration" where
  "ping_timeout remaining =
     (case remaining of
        None \<Rightarrow> metadataTimeout
      | Some r \<Rightarrow> (if r <s metadataTimeout then r else metadataTimeout))"

definition Consumer_Check :: "duration option \<Rightarrow> (duration \<Rightarrow> goerror option) \<Rightarrow> goerror option" where
  "Consumer_Check remaining ping =
     (let timeout = ping_timeout remaining
      in if timeout \<le>s 0 then Some (Errorf ''kafka ping: no time remaining on context'')
         else (case ping timeout of
                 None \<Rightarrow> None
               | Some e \<Rightarrow> Some (Wrapf ''kafka ping: '' e)))"

section \<open>Lemmas\<close>

text \<open>Whether a record is marked, given the state its handler runs in.\<close>

definition marked :: "'s TradeHandler \<Rightarrow> 's \<Rightarrow> kgo_record \<Rightarrow> bool" where
  "marked handle st rec =
     (case unmarshal_trade (RValue rec) of
        None \<Rightarrow> True | Some e \<Rightarrow> snd (handle e st) = None)"

definition next_state :: "'s TradeHandler \<Rightarrow> kgo_record \<Rightarrow> 's \<Rightarrow> 's" where
  "next_state handle rec st =
     (case unmarshal_trade (RValue rec) of None \<Rightarrow> st | Some e \<Rightarrow> fst (handle e st))"

lemma dispatch_eq:
  "dispatch handle rec (st, ms) =
     (next_state handle rec st, ms @ (if marked handle st rec then [rec] else []))"
  by (auto simp: dispatch_def next_state_def marked_def split: option.splits prod.splits)

text \<open>The marks a batch adds, and the state it leaves.\<close>

fun batch_marks :: "'s TradeHandler \<Rightarrow> kgo_record list \<Rightarrow> 's \<Rightarrow> marks" where
  "batch_marks handle [] st = []"
| "batch_marks handle (rec # recs) st =
     (if marked handle st rec then [rec] else []) @ batch_marks handle recs (next_state handle rec st)"

lemma fold_dispatch:
  "fold (dispatch handle) recs (st, ms) =
     (fold (next_state handle) recs st, ms @ batch_marks handle recs st)"
  by (induction recs arbitrary: st ms) (simp_all add: dispatch_eq)

lemma batch_marks_all:
  assumes "\<And>e st. snd (handle e st) = None"
  shows "batch_marks handle recs st = recs"
proof -
  have "marked handle st rec" for st rec
    using assms by (simp add: marked_def split: option.splits)
  then show ?thesis by (induction recs arbitrary: st) simp_all
qed

lemma batch_marks_malformed:
  assumes "\<And>e st. snd (handle e st) \<noteq> None"
  shows "batch_marks handle recs st = filter (\<lambda>r. unmarshal_trade (RValue r) = None) recs"
proof -
  have "marked handle st rec \<longleftrightarrow> unmarshal_trade (RValue rec) = None" for st rec
    using assms by (auto simp: marked_def split: option.splits)
  then show ?thesis by (induction recs arbitrary: st) simp_all
qed

lemma batch_marks_subseq: "set (batch_marks handle recs st) \<subseteq> set recs"
  by (induction recs arbitrary: st) (auto split: if_splits)

text \<open>The records that are dispatched: those of the polls before the context is done.\<close>

definition live_records :: "poll list \<Rightarrow> kgo_record list" where
  "live_records ps = concat (map p_records (takeWhile (\<lambda>p. p_ctx p = None) ps))"

lemma Consumer_Run_eq:
  "Consumer_Run handle ps (st, ms) =
     ((fold (next_state handle) (live_records ps) st, ms @ batch_marks handle (live_records ps) st),
      (if list_all (\<lambda>p. p_ctx p = None) ps then Running else Returned None))"
proof (induction ps arbitrary: st ms)
  case (Cons p ps)
  have "batch_marks handle (xs @ ys) st
      = batch_marks handle xs st @ batch_marks handle ys (fold (next_state handle) xs st)" for xs ys st
    by (induction xs arbitrary: st) simp_all
  with Cons show ?case by (auto simp: live_records_def fold_dispatch)
qed (simp add: live_records_def)

lemma sint_metadataTimeout: "sint metadataTimeout = 2000000000"
  by (simp add: metadataTimeout_def)

section \<open>Properties\<close>

text \<open>Offset discipline of \<open>dispatch\<close>: a record is marked for commit, once and after
  its handler ran, if its payload does not decode (no handler runs) or its handler returned
  nil; a record whose handler failed is not marked.\<close>

theorem dispatch_marks:
  "dispatch handle rec (st, ms) =
     (case unmarshal_trade (RValue rec) of
        None \<Rightarrow> (st, ms @ [rec])
      | Some e \<Rightarrow> (fst (handle e st), if snd (handle e st) = None then ms @ [rec] else ms))"
  by (auto simp: dispatch_def split: option.splits prod.splits)

text \<open>\<open>Run\<close> dispatches exactly the records of the polls that returned before the context
  was done, in order, marks them in that order (all of them if no handler call fails, only the
  undecodable ones if every handler call fails), leaves the poll that observed the
  cancellation untouched, and returns nil exactly when some poll sees the context done.\<close>

theorem Consumer_Run_marks:
  "Consumer_Run handle ps (st, []) =
     ((fold (next_state handle) (live_records ps) st, batch_marks handle (live_records ps) st),
      (if \<exists>p \<in> set ps. p_ctx p \<noteq> None then Returned None else Running)) \<and>
   ((\<forall>e s. snd (handle e s) = None) \<longrightarrow> batch_marks handle (live_records ps) st = live_records ps) \<and>
   ((\<forall>e s. snd (handle e s) \<noteq> None) \<longrightarrow>
      batch_marks handle (live_records ps) st
        = filter (\<lambda>r. unmarshal_trade (RValue r) = None) (live_records ps))"
  by (auto simp: Consumer_Run_eq list_all_iff batch_marks_all batch_marks_malformed)

theorem Consumer_Run_marks_witness:
  "batch_marks (\<lambda>e s. (s, None)) (live_records
      [\<lparr>p_ctx = None, p_errors = [], p_records = [\<lparr>RTopic = TopicTradesRaw, RPartition = 0, ROffset = 7, RKey = [], RValue = ''{}''\<rparr>]\<rparr>,
       \<lparr>p_ctx = ctx_canceled, p_errors = [], p_records = []\<rparr>]) (0::nat)
     = [\<lparr>RTopic = TopicTradesRaw, RPartition = 0, ROffset = 7, RKey = [], RValue = ''{}''\<rparr>]"
  using Consumer_Run_marks [of "\<lambda>e s. (s, None)"
      "[\<lparr>p_ctx = None, p_errors = [], p_records = [\<lparr>RTopic = TopicTradesRaw, RPartition = 0, ROffset = 7, RKey = [], RValue = ''{}''\<rparr>]\<rparr>,
        \<lparr>p_ctx = ctx_canceled, p_errors = [], p_records = []\<rparr>]" "0::nat"]
  by (simp add: live_records_def)

text \<open>The health ping is bounded: it is given a positive timeout of at most two seconds
  and at most the time left on the caller's context; with no time left it is not made at all
  and the check fails.\<close>

theorem Consumer_Check_budget:
  "(0 <s ping_timeout remaining \<longrightarrow>
      sint (ping_timeout remaining) \<le> 2000000000 \<and>
      (\<forall>r. remaining = Some r \<longrightarrow> sint (ping_timeout remaining) \<le> sint r) \<and>
      Consumer_Check remaining ping
        = map_option (Wrapf ''kafka ping: '') (ping (ping_timeout remaining))) \<and>
   (\<not> 0 <s ping_timeout remaining \<longrightarrow>
      Consumer_Check remaining ping = Some (Errorf ''kafka ping: no time remaining on context'') \<and>
      (\<exists>r. remaining = Some r \<and> sint r \<le> 0))"
  by (cases remaining)
     (auto simp: ping_timeout_def Consumer_Check_def Let_def word_sless_alt word_sle_eq
        sint_metadataTimeout split: option.splits)

theorem Consumer_Check_budget_witness:
  "Consumer_Check (Some 5) (\<lambda>t. if t = 5 then None else Some (Errorf ''late'')) = None \<and>
   Consumer_Check (Some 0) (\<lambda>t. None) \<noteq> None"
  using Consumer_Check_budget [of "Some 5" "\<lambda>t. if t = 5 then None else Some (Errorf ''late'')"]
    Consumer_Check_budget [of "Some 0" "\<lambda>t. None"]
  by (simp add: ping_timeout_def word_sless_alt sint_metadataTimeout)

end
