(* ===== verification/Chan.thy ===== *)
theory Chan
  imports Prelude
begin

text \<open>
  Buffered Go channels that are never closed, and \<open>select\<close>. A blocking operation is a list
  of the alternatives that are ready: an empty list means the goroutine blocks, and when more
  than one case is ready Go picks any of them. The interface the pipeline relies on is the
  locale \<open>bounded_fifo\<close>: values come out in the order they went in, none is lost or
  invented, and the buffer never holds more than its capacity. Go channels interpret it.
\<close>

section \<open>Channels\<close>

record 'a chan =
  Buf :: "'a list"
  Cap :: nat

definition make_chan :: "nat \<Rightarrow> 'a chan" where
  "make_chan n = \<lparr>Buf = [], Cap = n\<rparr>"

definition can_send :: "'a chan \<Rightarrow> bool" where
  "can_send c = (length (Buf c) < Cap c)"

definition chan_send :: "'a \<Rightarrow> 'a chan \<Rightarrow> 'a chan" where
  "chan_send x c = c\<lparr>Buf := Buf c @ [x]\<rparr>"

definition chan_recv :: "'a chan \<Rightarrow> ('a \<times> 'a chan) option" where
  "chan_recv c = (case Buf c of [] \<Rightarrow> None | x # xs \<Rightarrow> Some (x, c\<lparr>Buf := xs\<rparr>))"

definition chan_ok :: "'a chan \<Rightarrow> bool" where
  "chan_ok c = (length (Buf c) \<le> Cap c)"

text \<open>The ready cases of a \<open>select\<close> between an operation and \<open>ctx.Done()\<close>.\<close>

definition done_case :: "ctx \<Rightarrow> (goerror \<Rightarrow> 'b) \<Rightarrow> 'b list" where
  "done_case ctx k = (case ctx of None \<Rightarrow> [] | Some e \<Rightarrow> [k e])"

definition send_case :: "'a \<Rightarrow> 'a chan \<Rightarrow> ('a chan \<Rightarrow> 'b) \<Rightarrow> 'b list" where
  "send_case x c k = (if can_send c then [k (chan_send x c)] else [])"

definition recv_case :: "'a chan \<Rightarrow> ('a \<Rightarrow> 'a chan \<Rightarrow> 'b) \<Rightarrow> 'b list" where
  "recv_case c k = (case chan_recv c of None \<Rightarrow> [] | Some (x, c') \<Rightarrow> [k x c'])"

section \<open>The interface\<close>

datatype 'a qop = Send 'a | Recv

locale bounded_fifo =
  fixes ready :: "'q \<Rightarrow> bool"
    and send :: "'a \<Rightarrow> 'q \<Rightarrow> 'q"
    and recv :: "'q \<Rightarrow> ('a \<times> 'q) option"
    and contents :: "'q \<Rightarrow> 'a list"
    and capacity :: "'q \<Rightarrow> nat"
    and invar :: "'q \<Rightarrow> bool"
  assumes contents_send: "invar q \<Longrightarrow> ready q \<Longrightarrow> contents (send x q) = contents q @ [x]"
    and recv_None: "invar q \<Longrightarrow> recv q = None \<longleftrightarrow> contents q = []"
    and recv_Some: "invar q \<Longrightarrow> recv q = Some (x, q') \<Longrightarrow> contents q = x # contents q'"
    and capacity_send: "capacity (send x q) = capacity q"
    and capacity_recv: "recv q = Some (x, q') \<Longrightarrow> capacity q' = capacity q"
    and invar_send: "invar q \<Longrightarrow> ready q \<Longrightarrow> invar (send x q)"
    and invar_recv: "invar q \<Longrightarrow> recv q = Some (x, q') \<Longrightarrow> invar q'"
    and invar_bound: "invar q \<Longrightarrow> length (contents q) \<le> capacity q"
begin

text \<open>A run of operations: the accepted sends, the received values, and the final queue.
  An operation that would block is skipped.\<close>

fun run :: "'a qop list \<Rightarrow> 'q \<Rightarrow> 'a list \<times> 'a list \<times> 'q" where
  "run [] q = ([], [], q)"
| "run (Send x # os) q =
     (if ready q then (let (s, r, q') = run os (send x q) in (x # s, r, q')) else run os q)"
| "run (Recv # os) q =
     (case recv q of
        None \<Rightarrow> run os q
      | Some (x, q1) \<Rightarrow> (let (s, r, q') = run os q1 in (s, x # r, q')))"

lemma run_invar: "invar q \<Longrightarrow> run os q = (s, r, q') \<Longrightarrow> invar q' \<and> capacity q' = capacity q"
proof (induction os q arbitrary: s r rule: run.induct)
  case (2 x os q)
  then show ?case
    by (auto simp: Let_def capacity_send split: if_splits prod.splits intro: invar_send)
next
  case (3 os q)
  then show ?case
    by (fastforce simp: Let_def capacity_recv split: option.splits prod.splits intro: invar_recv)
qed simp

text \<open>Nothing is lost, invented or reordered: what was received followed by what is still
  buffered is what was buffered followed by what was accepted.\<close>

lemma run_fifo: "invar q \<Longrightarrow> run os q = (s, r, q') \<Longrightarrow> r @ contents q' = contents q @ s"
proof (induction os q arbitrary: s r rule: run.induct)
  case (2 x os q)
  then show ?case
    by (fastforce simp: Let_def contents_send split: if_splits prod.splits intro: invar_send)
next
  case (3 os q)
  show ?case
  proof (cases "recv q")
    case None
    with 3 show ?thesis by simp
  next
    case (Some p)
    then obtain x q1 where p: "recv q = Some (x, q1)" by (cases p) auto
    obtain s' r' where "run os q1 = (s', r', q')" "s = s'" "r = x # r'"
      using 3(4) p by (auto simp: Let_def split: prod.splits)
    with 3(2) [of "(x, q1)"] 3(3) p show ?thesis
      by (simp add: invar_recv [OF 3(3) p] recv_Some [OF 3(3) p])
  qed
qed simp

lemma run_bounded: "invar q \<Longrightarrow> run os q = (s, r, q') \<Longrightarrow> length (contents q') \<le> capacity q"
  using run_invar invar_bound by fastforce

end

section \<open>Lemmas\<close>

lemma chan_simps [simp]:
  "Buf (make_chan n) = []" "Cap (make_chan n) = n"
  "Buf (chan_send x c) = Buf c @ [x]" "Cap (chan_send x c) = Cap c"
  by (simp_all add: make_chan_def chan_send_def)

lemma chan_recv_eq:
  "chan_recv c = None \<longleftrightarrow> Buf c = []"
  "chan_recv c = Some (x, c') \<longleftrightarrow> Buf c = x # Buf c' \<and> Cap c' = Cap c"
  by (auto simp: chan_recv_def split: list.splits)

lemma chan_ok_simps [inv_intro]:
  "chan_ok (make_chan n)"
  "chan_ok c \<Longrightarrow> can_send c \<Longrightarrow> chan_ok (chan_send x c)"
  "chan_ok c \<Longrightarrow> chan_recv c = Some (x, c') \<Longrightarrow> chan_ok c'"
  by (auto simp: chan_ok_def can_send_def chan_recv_eq)

lemma done_case_simps [simp]: "done_case None k = []" "done_case (Some e) k = [k e]"
  by (simp_all add: done_case_def)

lemma set_send_case: "set (send_case x c k) = {y. can_send c \<and> y = k (chan_send x c)}"
  by (simp add: send_case_def)

lemma set_recv_case: "set (recv_case c k) = {y. \<exists>x c'. chan_recv c = Some (x, c') \<and> y = k x c'}"
  by (cases "chan_recv c") (auto simp: recv_case_def)

interpretation go_chan: bounded_fifo can_send chan_send chan_recv Buf Cap chan_ok
  by unfold_locales (auto simp: chan_recv_eq chan_ok_def can_send_def)

end
