(* ===== verification/OrderBooks.thy ===== *)
theory OrderBooks
  imports Chan Domain
begin

text \<open>
  The live order books of processor-service (\<open>orderbook.go\<close>). \<open>Get\<close> and \<open>Update\<close> hold the
  store's mutex and are atomic; \<open>Apply\<close> is a \<open>Get\<close>, a local change and an \<open>Update\<close>, and is
  modelled both as a whole and as its two atomic halves, so that interleavings can be stated.
  The lemmas give the book that any sequence of trades leaves (the last trade of each side),
  the well-formedness every operation keeps, and what a second writer can destroy.
\<close>

section \<open>Model\<close>

record OrderBookStore =
  data :: "string \<rightharpoonup> OrderBook"

definition NewOrderBookStore :: OrderBookStore where
  "NewOrderBookStore = \<lparr>data = Map.empty\<rparr>"

definition Get :: "OrderBookStore \<Rightarrow> string \<Rightarrow> OrderBook \<times> bool" where
  "Get s symbol =
     (case data s symbol of None \<Rightarrow> (zero_book, False) | Some b \<Rightarrow> (b, True))"

definition Update :: "string \<Rightarrow> OrderBook \<Rightarrow> OrderBookStore \<Rightarrow> OrderBookStore" where
  "Update symbol book s = s\<lparr>data := (data s)(symbol \<mapsto> book)\<rparr>"

text \<open>The change \<open>Apply\<close> makes to the copy it read.\<close>

definition apply_local :: "TradeEvent \<Rightarrow> OrderBook \<Rightarrow> OrderBook" where
  "apply_local e b =
     (let b1 = b\<lparr>BookSymbol := Symbol e, LastUpdate := EventTime e\<rparr>;
          level = \<lparr>LvlPrice = Price e, LvlQuantity = Quantity e\<rparr>
      in if Side e = SideBuy then b1\<lparr>Asks := Some [level]\<rparr>
         else if Side e = SideSell then b1\<lparr>Bids := Some [level]\<rparr>
         else b1)"

definition Apply :: "TradeEvent \<Rightarrow> OrderBookStore \<Rightarrow> OrderBookStore" where
  "Apply e s = Update (Symbol e) (apply_local e (fst (Get s (Symbol e)))) s"

text \<open>One turn of \<open>Run\<close>: it applies a received trade and goes on, or returns when the context
  is done.\<close>

datatype 's loop = Continue 's | Return

definition OrderBook_Run ::
  "ctx \<Rightarrow> TradeEvent chan \<Rightarrow> OrderBookStore \<Rightarrow> (TradeEvent chan \<times> OrderBookStore) loop list" where
  "OrderBook_Run ctx update s =
     recv_case update (\<lambda>e c. Continue (c, Apply e s)) @ done_case ctx (\<lambda>_. Return)"

text \<open>Two goroutines inside \<open>Apply\<close>: each first reads its copy, later stores it.\<close>

datatype astep = Reads nat | Writes nat

fun apply_threads ::
  "(nat \<Rightarrow> TradeEvent) \<Rightarrow> astep list \<Rightarrow> (nat \<Rightarrow> OrderBook) \<Rightarrow> OrderBookStore \<Rightarrow> OrderBookStore" where
  "apply_threads ev [] loc s = s"
| "apply_threads ev (Reads i # ss) loc s =
     apply_threads ev ss (loc(i := fst (Get s (Symbol (ev i))))) s"
| "apply_threads ev (Writes i # ss) loc s =
     apply_threads ev ss loc (Update (Symbol (ev i)) (apply_local (ev i) (loc i)) s)"

section \<open>Specification\<close>

text \<open>The trades of a symbol, and the level the last trade of one side leaves.\<close>

definition of_symbol :: "string \<Rightarrow> TradeEvent list \<Rightarrow> TradeEvent list" where
  "of_symbol sb es = filter (\<lambda>e. Symbol e = sb) es"

definition level_of :: "TradeEvent \<Rightarrow> PriceLevel" where
  "level_of e = \<lparr>LvlPrice = Price e, LvlQuantity = Quantity e\<rparr>"

definition last_level :: "Side \<Rightarrow> TradeEvent list \<Rightarrow> PriceLevel slice" where
  "last_level sd es =
     (let xs = filter (\<lambda>e. Side e = sd) es
      in if xs = [] then None else Some [level_of (last xs)])"

definition spec_book :: "string \<Rightarrow> TradeEvent list \<Rightarrow> OrderBook option" where
  "spec_book sb es =
     (let xs = of_symbol sb es
      in if xs = [] then None
         else Some \<lparr>BookSymbol = sb, Bids = last_level SideSell xs, Asks = last_level SideBuy xs,
                    LastUpdate = EventTime (last xs)\<rparr>)"

text \<open>Well-formed stores: the book of a symbol carries it, bids are sorted highest first and
  asks lowest first.\<close>

definition bids_sorted :: "PriceLevel list \<Rightarrow> bool" where
  "bids_sorted ls = sorted_wrt (\<lambda>a b. f_le (LvlPrice b) (LvlPrice a)) ls"

definition asks_sorted :: "PriceLevel list \<Rightarrow> bool" where
  "asks_sorted ls = sorted_wrt (\<lambda>a b. f_le (LvlPrice a) (LvlPrice b)) ls"

definition wf_book :: "string \<Rightarrow> OrderBook \<Rightarrow> bool" where
  "wf_book sb b =
     (BookSymbol b = sb \<and> bids_sorted (elems (Bids b)) \<and> asks_sorted (elems (Asks b)))"

definition wf_store :: "OrderBookStore \<Rightarrow> bool" where
  "wf_store s = (\<forall>sb b. data s sb = Some b \<longrightarrow> wf_book sb b)"

section \<open>Lemmas\<close>

lemma Get_Update [simp]:
  "Get (Update sb b s) sb' = (if sb' = sb then (b, True) else Get s sb')"
  by (simp add: Get_def Update_def)

lemma data_Apply:
  "data (Apply e s) = (data s)(Symbol e \<mapsto> apply_local e (fst (Get s (Symbol e))))"
  by (simp add: Apply_def Update_def)

lemma Get_data: "Get s sb = (case data s sb of None \<Rightarrow> (zero_book, False) | Some b \<Rightarrow> (b, True))"
  by (simp add: Get_def)

lemma apply_local_symbol [simp]: "BookSymbol (apply_local e b) = Symbol e"
  by (simp add: apply_local_def Let_def)

lemma apply_local_time [simp]: "LastUpdate (apply_local e b) = EventTime e"
  by (simp add: apply_local_def Let_def)

lemma apply_local_sides [simp]:
  "Asks (apply_local e b) = (if Side e = SideBuy then Some [level_of e] else Asks b)"
  "Bids (apply_local e b) = (if Side e = SideSell then Some [level_of e] else Bids b)"
  by (simp_all add: apply_local_def Let_def level_of_def)

lemma of_symbol_snoc:
  "of_symbol sb (es @ [e]) = of_symbol sb es @ (if Symbol e = sb then [e] else [])"
  by (simp add: of_symbol_def)

lemma last_level_snoc:
  "last_level sd (es @ [e]) = (if Side e = sd then Some [level_of e] else last_level sd es)"
  by (simp add: last_level_def Let_def)

lemma last_level_Nil [simp]: "last_level sd [] = None"
  by (simp add: last_level_def)

text \<open>The fold of \<open>Apply\<close> refines the specification.\<close>

lemma spec_book_snoc:
  "spec_book sb (es @ [e]) =
     (if Symbol e = sb
      then Some (apply_local e (case spec_book sb es of None \<Rightarrow> zero_book | Some b \<Rightarrow> b))
      else spec_book sb es)"
proof (cases "Symbol e = sb")
  case True
  have "apply_local e (case spec_book sb es of None \<Rightarrow> zero_book | Some b \<Rightarrow> b)
      = \<lparr>BookSymbol = sb, Bids = last_level SideSell (of_symbol sb es @ [e]),
         Asks = last_level SideBuy (of_symbol sb es @ [e]), LastUpdate = EventTime e\<rparr>"
    using True
    by (intro OrderBook.equality)
       (auto simp: spec_book_def Let_def last_level_snoc zero_book_def of_symbol_def
             split: if_splits option.splits)
  then show ?thesis using True
    by (simp add: spec_book_def Let_def of_symbol_snoc)
next
  case False
  then show ?thesis by (simp add: spec_book_def of_symbol_snoc)
qed

lemma fold_Apply: "data (fold Apply es NewOrderBookStore) sb = spec_book sb es"
proof (induction es rule: rev_induct)
  case Nil
  show ?case by (simp add: NewOrderBookStore_def spec_book_def of_symbol_def)
next
  case (snoc e es)
  show ?case
    using snoc by (auto simp: data_Apply Get_data spec_book_snoc split: option.splits)
qed

lemma wf_apply_local: "wf_book sb b \<or> b = zero_book \<Longrightarrow> wf_book (Symbol e) (apply_local e b)"
  by (auto simp: wf_book_def bids_sorted_def asks_sorted_def zero_book_def)

lemma wf_store_Apply [inv_intro]: "wf_store s \<Longrightarrow> wf_store (Apply e s)"
  unfolding wf_store_def data_Apply Get_data
  by (auto split: option.splits if_splits intro: wf_apply_local)

lemma wf_store_New [inv_intro]: "wf_store NewOrderBookStore"
  by (simp add: wf_store_def NewOrderBookStore_def)

lemma wf_store_fold: "wf_store s \<Longrightarrow> wf_store (fold Apply es s)"
  by (induction es arbitrary: s) (auto intro: inv_intro)


section \<open>Properties\<close>

text \<open>C16. After any sequence of trades the store answers, for every symbol, with the book the
  specification describes: present exactly if the symbol traded, asks holding the level of its
  last buy, bids that of its last sell, stamped with its last trade's event time.\<close>

theorem books_last_trade:
  "Get (fold Apply es NewOrderBookStore) sb =
     (case spec_book sb es of None \<Rightarrow> (zero_book, False) | Some b \<Rightarrow> (b, True))"
  by (simp add: Get_data fold_Apply)

text \<open>Every trade keeps the store well-formed: each book carries its own symbol, bids are
  sorted highest first and asks lowest first.\<close>

theorem Apply_keeps_wf:
  assumes "wf_store s"
  shows "wf_store (Apply e s)"
  using assms by (rule wf_store_Apply)

theorem Apply_keeps_wf_witness:
  "wf_store NewOrderBookStore \<and> wf_store (Apply (zero_trade\<lparr>Side := SideBuy\<rparr>) NewOrderBookStore)"
  using Apply_keeps_wf [OF wf_store_New, of "zero_trade\<lparr>Side := SideBuy\<rparr>"] wf_store_New by simp

text \<open>A trade touches only its own symbol and, of that symbol's book, only the side it
  traded against: a buy replaces the asks and keeps the bids, a sell the other way round.\<close>

theorem Apply_frame:
  "(sb \<noteq> Symbol e \<longrightarrow> Get (Apply e s) sb = Get s sb) \<and>
   (Side e = SideBuy \<longrightarrow>
      Asks (fst (Get (Apply e s) (Symbol e))) = Some [level_of e] \<and>
      Bids (fst (Get (Apply e s) (Symbol e))) = Bids (fst (Get s (Symbol e)))) \<and>
   (Side e = SideSell \<longrightarrow>
      Bids (fst (Get (Apply e s) (Symbol e))) = Some [level_of e] \<and>
      Asks (fst (Get (Apply e s) (Symbol e))) = Asks (fst (Get s (Symbol e))))"
  by (simp add: Apply_def)

theorem Apply_frame_witness:
  "Get (Apply (zero_trade\<lparr>Symbol := ''A'', Side := SideBuy\<rparr>) NewOrderBookStore) ''B''
     = Get NewOrderBookStore ''B'' \<and>
   Asks (fst (Get (Apply (zero_trade\<lparr>Symbol := ''A'', Side := SideBuy\<rparr>) NewOrderBookStore) ''A''))
     = Some [level_of zero_trade] \<and>
   Bids (fst (Get (Apply (zero_trade\<lparr>Symbol := ''A'', Side := SideSell\<rparr>) NewOrderBookStore) ''A''))
     = Some [level_of zero_trade]"
  using Apply_frame [of "''B''" "zero_trade\<lparr>Symbol := ''A'', Side := SideBuy\<rparr>" NewOrderBookStore]
    Apply_frame [of "''B''" "zero_trade\<lparr>Symbol := ''A'', Side := SideSell\<rparr>" NewOrderBookStore]
  by (simp add: level_of_def)

text \<open>C40. The mutex makes \<open>Get\<close> and \<open>Update\<close> atomic but not \<open>Apply\<close>: if two goroutines apply
  a buy and a sell of the same symbol and both read before either writes, the level of the one
  that writes first is lost and its side is as before, whichever it is; while each sequential
  order is that sequence of \<open>Apply\<close> and keeps both levels. The store is only safe because a single
  goroutine runs \<open>Apply\<close>.\<close>

theorem Apply_two_writers_lose_a_side:
  assumes "Symbol (ev 0) = sb" "Symbol (ev 1) = sb" "Side (ev 0) = SideBuy" "Side (ev 1) = SideSell"
  shows "(let b = fst (Get (apply_threads ev [Reads 0, Reads 1, Writes 0, Writes 1] loc s) sb)
          in Asks b = Asks (fst (Get s sb)) \<and> Bids b = Some [level_of (ev 1)]) \<and>
         (let b = fst (Get (apply_threads ev [Reads 0, Reads 1, Writes 1, Writes 0] loc s) sb)
          in Bids b = Bids (fst (Get s sb)) \<and> Asks b = Some [level_of (ev 0)]) \<and>
         apply_threads ev [Reads 0, Writes 0, Reads 1, Writes 1] loc s = Apply (ev 1) (Apply (ev 0) s) \<and>
         apply_threads ev [Reads 1, Writes 1, Reads 0, Writes 0] loc s = Apply (ev 0) (Apply (ev 1) s) \<and>
         (\<forall>b \<in> {fst (Get (Apply (ev 1) (Apply (ev 0) s)) sb), fst (Get (Apply (ev 0) (Apply (ev 1) s)) sb)}.
            Asks b = Some [level_of (ev 0)] \<and> Bids b = Some [level_of (ev 1)])"
  using assms by (simp add: Apply_def Let_def)

theorem Apply_two_writers_lose_a_side_witness:
  "Asks (fst (Get (apply_threads
      (\<lambda>i. if i = 0 then zero_trade\<lparr>Side := SideBuy\<rparr> else zero_trade\<lparr>Side := SideSell\<rparr>)
      [Reads 0, Reads 1, Writes 0, Writes 1] (\<lambda>_. zero_book) NewOrderBookStore) [])) = None"
  using Apply_two_writers_lose_a_side [of
      "\<lambda>i. if i = 0 then zero_trade\<lparr>Side := SideBuy\<rparr> else zero_trade\<lparr>Side := SideSell\<rparr>"
      "[]" "\<lambda>_. zero_book" NewOrderBookStore]
  by (simp add: zero_trade_def NewOrderBookStore_def Get_def zero_book_def Let_def)

end
