(* ===== verification/RedisWriter.thy ===== *)
theory RedisWriter
  imports OrderBooks Wire Enrich
begin

text \<open>
  The Redis writer of processor-service (\<open>redis_writer.go\<close>). The client library and the
  server are not part of the repository: a client is a record of functions over a state of
  any type, and \<open>redis_laws\<close> states what a successful \<open>Set\<close> promises. Order books are read
  from the store at the moment of the write. The lemmas give the keys a write touches on every
  branch, in order, and what readers find after it.
\<close>

section \<open>Model\<close>

text \<open>The value of a \<open>Set\<close> is a byte string or a float, which the client renders.\<close>

datatype redis_arg = ArgBytes string | ArgFloat float64

record 'r redis_client =
  rSet :: "'r \<Rightarrow> string \<Rightarrow> redis_arg \<Rightarrow> 'r \<times> goerror option"
  rPing :: "'r \<Rightarrow> duration \<Rightarrow> goerror option"
  rClose :: "'r \<Rightarrow> goerror option"

definition NewRedisWriter :: "string \<Rightarrow> (string \<Rightarrow> 'client) \<Rightarrow> goerror + 'client" where
  "NewRedisWriter addr new_client =
     (if addr = [] then Inl (Errorf ''redis: addr is required'') else Inr (new_client addr))"

definition Write :: "'r redis_client \<Rightarrow> OrderBookStore option \<Rightarrow> TradeEvent \<Rightarrow> 'r \<Rightarrow> 'r \<times> goerror option" where
  "Write client books event r =
     (case json_Marshal_trade event of
        Inl err \<Rightarrow> (r, Some (Wrapf ''marshal trade: '' err))
      | Inr tradeJson \<Rightarrow>
         (case rSet client r (KeyLatestTrade (Symbol event)) (ArgBytes tradeJson) of
            (r1, Some err) \<Rightarrow> (r1, Some (Wrapf ''set latest trade: '' err))
          | (r1, None) \<Rightarrow>
             (case rSet client r1 (KeyPrice (Symbol event)) (ArgFloat (Price event)) of
                (r2, Some err) \<Rightarrow> (r2, Some (Wrapf ''set price: '' err))
              | (r2, None) \<Rightarrow>
                 (case books of
                    None \<Rightarrow> (r2, None)
                  | Some bs \<Rightarrow>
                     (let (book, ok) = Get bs (Symbol event)
                      in if \<not> ok then (r2, None)
                         else (case json_Marshal_book book of
                                 Inl err \<Rightarrow> (r2, Some (Wrapf ''marshal order book: '' err))
                               | Inr bookJSON \<Rightarrow>
                                  (case rSet client r2 (KeyOrderBook (Symbol event)) (ArgBytes bookJSON) of
                                     (r3, Some err) \<Rightarrow> (r3, Some (Wrapf ''set order book: '' err))
                                   | (r3, None) \<Rightarrow> (r3, None))))))))"

definition RedisWriter_Check :: "'r redis_client \<Rightarrow> 'r \<Rightarrow> duration \<Rightarrow> goerror option" where
  "RedisWriter_Check client r budget =
     (case rPing client r budget of Some e \<Rightarrow> Some (Wrapf ''redis ping: '' e) | None \<Rightarrow> None)"

text \<open>The ready cases of \<open>Run\<close>'s select: a trade is received, or the context is done. The body then
  calls \<open>Write\<close>, whose error is only logged.\<close>

definition RedisWriter_Run :: "ctx \<Rightarrow> TradeEvent chan \<Rightarrow> (TradeEvent chan \<times> TradeEvent) loop list" where
  "RedisWriter_Run ctx update = recv_case update (\<lambda>e c. Continue (c, e)) @ done_case ctx (\<lambda>_. Return)"

section \<open>What the client promises\<close>

text \<open>\<open>view r k\<close> is what the server holds under key \<open>k\<close>. A \<open>Set\<close> that reports success has
  stored its value and changed nothing else; one that reports an error may or may not have
  taken effect, but only on its own key.\<close>

definition redis_laws :: "'r redis_client \<Rightarrow> ('r \<Rightarrow> string \<rightharpoonup> redis_arg) \<Rightarrow> bool" where
  "redis_laws client view =
     ((\<forall>r k v r'. rSet client r k v = (r', None) \<longrightarrow> view r' = (view r)(k \<mapsto> v)) \<and>
      (\<forall>r k v r' e k'. rSet client r k v = (r', Some e) \<longrightarrow> k' \<noteq> k \<longrightarrow> view r' k' = view r k'))"

text \<open>A client that records its calls and answers from a map; a \<open>Set\<close> on a key of \<open>bad\<close>
  fails without effect.\<close>

record mem_redis =
  kv :: "string \<rightharpoonup> redis_arg"
  calls :: "(string \<times> redis_arg) list"

definition mem_client :: "string set \<Rightarrow> goerror \<Rightarrow> mem_redis redis_client" where
  "mem_client bad err =
     \<lparr>rSet = (\<lambda>m k v. let m1 = m\<lparr>calls := calls m @ [(k, v)]\<rparr>
                      in if k \<in> bad then (m1, Some err) else (m1\<lparr>kv := (kv m)(k \<mapsto> v)\<rparr>, None)),
      rPing = (\<lambda>_ _. None), rClose = (\<lambda>_. None)\<rparr>"

section \<open>Lemmas\<close>

lemma redis_lawsD:
  assumes "redis_laws client view"
  shows "rSet client r k v = (r', None) \<Longrightarrow> view r' = (view r)(k \<mapsto> v)"
    and "rSet client r k v = (r', Some e) \<Longrightarrow> k' \<noteq> k \<Longrightarrow> view r' k' = view r k'"
  using assms unfolding redis_laws_def by blast+

lemma mem_client_laws: "redis_laws (mem_client bad err) kv"
  by (auto simp: redis_laws_def mem_client_def Let_def split: if_splits)

text \<open>The keys of one symbol.\<close>

definition symbol_keys :: "string \<Rightarrow> string set" where
  "symbol_keys s = {KeyLatestTrade s, KeyPrice s, KeyOrderBook s}"

lemma Write_frame:
  assumes "redis_laws client view" "Write client books e r = (r', res)" "k \<notin> symbol_keys (Symbol e)"
  shows "view r' k = view r k"
  using assms(2,3) unfolding Write_def symbol_keys_def Let_def
  by (auto split: sum.splits option.splits prod.splits if_splits
      dest!: redis_lawsD(1) [OF assms(1)] redis_lawsD(2) [OF assms(1), where k' = k])

lemma Write_success:
  assumes laws: "redis_laws client view" and w: "Write client (Some bs) e r = (r', None)"
    and b: "Get bs (Symbol e) = (b, True)"
  shows "\<exists>tj bj. marshal_trade e = Some tj \<and> marshal_book b = Some bj \<and>
    view r' = (view r)(KeyLatestTrade (Symbol e) \<mapsto> ArgBytes tj, KeyPrice (Symbol e) \<mapsto> ArgFloat (Price e),
                       KeyOrderBook (Symbol e) \<mapsto> ArgBytes bj)"
  using w b unfolding Write_def json_Marshal_trade_def json_Marshal_book_def
  by (auto split: sum.splits option.splits prod.splits if_splits dest!: redis_lawsD(1) [OF laws])

lemma Write_success_no_book:
  assumes laws: "redis_laws client view" and w: "Write client books e r = (r', None)"
    and b: "books = None \<or> \<not> snd (Get (the books) (Symbol e))"
  shows "\<exists>tj. marshal_trade e = Some tj \<and>
    view r' = (view r)(KeyLatestTrade (Symbol e) \<mapsto> ArgBytes tj, KeyPrice (Symbol e) \<mapsto> ArgFloat (Price e))"
  using w b unfolding Write_def json_Marshal_trade_def
  by (auto split: sum.splits option.splits prod.splits if_splits dest!: redis_lawsD(1) [OF laws])

lemma Write_marshal_fails:
  "marshal_trade e = None \<Longrightarrow>
     Write client books e r =
       (r, Some (Wrapf ''marshal trade: '' (marshal_error [Price e, Quantity e, Notional e])))"
  by (simp add: Write_def json_Marshal_trade_def)


subsection \<open>Concrete inputs\<close>

definition sample_trade :: TradeEvent where
  "sample_trade = zero_trade\<lparr>Symbol := ''BTCUSDT'', Price := f_one, Quantity := f_one, Side := SideBuy\<rparr>"

lemma format_zero_time: "format_time zero_time = Some ''0001-01-01T00:00:00Z''"
  by code_simp

lemma sample_encodable: "trade_encodable sample_trade"
  by (simp add: trade_encodable_def sample_trade_def zero_trade_def format_zero_time)
     (simp add: is_finite_def inf_mag_def)

lemma sample_book: "Get (Apply sample_trade NewOrderBookStore) ''BTCUSDT'' =
    (\<lparr>BookSymbol = ''BTCUSDT'', Bids = None, Asks = Some [\<lparr>LvlPrice = f_one, LvlQuantity = f_one\<rparr>],
      LastUpdate = zero_time\<rparr>, True)"
  by (simp add: Apply_def apply_local_def sample_trade_def Get_def Update_def NewOrderBookStore_def
      zero_book_def zero_trade_def Let_def)

lemma sample_marshals:
  "\<exists>tj. marshal_trade sample_trade = Some tj"
  "\<exists>bj. marshal_book (fst (Get (Apply sample_trade NewOrderBookStore) ''BTCUSDT'')) = Some bj"
  using marshal_trade_None [of sample_trade] sample_encodable
  by (auto simp: sample_book marshal_book_None book_encodable_def format_zero_time simp flip: not_None_eq)

lemma sample_symbol [simp]: "Symbol sample_trade = ''BTCUSDT''" "Price sample_trade = f_one"
  by (simp_all add: sample_trade_def)

section \<open>Properties\<close>

text \<open>C17. A write that reports success has stored under the trade's symbol, as readers then
  see it, the JSON of the trade, its price, and the JSON of the symbol's current book; every
  other key is as before.\<close>

theorem Write_publishes:
  assumes "redis_laws client view" "Write client (Some bs) e r = (r', None)" "Get bs (Symbol e) = (b, True)"
  shows "\<exists>tj bj. marshal_trade e = Some tj \<and> marshal_book b = Some bj \<and>
           view r' (KeyLatestTrade (Symbol e)) = Some (ArgBytes tj) \<and>
           view r' (KeyPrice (Symbol e)) = Some (ArgFloat (Price e)) \<and>
           view r' (KeyOrderBook (Symbol e)) = Some (ArgBytes bj) \<and>
           (\<forall>k. k \<notin> symbol_keys (Symbol e) \<longrightarrow> view r' k = view r k)"
  using Write_success [OF assms] by (auto simp: symbol_keys_def)

theorem Write_publishes_witness:
  "\<exists>r' tj. Write (mem_client {} (Errorf [])) (Some (Apply sample_trade NewOrderBookStore)) sample_trade
        \<lparr>kv = Map.empty, calls = []\<rparr> = (r', None) \<and>
      marshal_trade sample_trade = Some tj \<and>
      kv r' (KeyLatestTrade ''BTCUSDT'') = Some (ArgBytes tj) \<and>
      kv r' (KeyPrice ''BTCUSDT'') = Some (ArgFloat f_one) \<and> kv r' (KeyPrice ''ETHUSDT'') = None"
proof -
  let ?bs = "Apply sample_trade NewOrderBookStore" and ?m = "\<lparr>kv = Map.empty, calls = []\<rparr>"
  obtain tj bj where j: "marshal_trade sample_trade = Some tj"
      "marshal_book (fst (Get ?bs ''BTCUSDT'')) = Some bj"
    using sample_marshals by blast
  obtain r' where w: "Write (mem_client {} (Errorf [])) (Some ?bs) sample_trade ?m = (r', None)"
    using j sample_book
    by (simp add: Write_def json_Marshal_trade_def json_Marshal_book_def mem_client_def Let_def)
  have "KeyPrice ''ETHUSDT'' \<notin> symbol_keys ''BTCUSDT''" by (simp add: symbol_keys_def)
  then have "kv r' (KeyLatestTrade ''BTCUSDT'') = Some (ArgBytes tj) \<and>
      kv r' (KeyPrice ''BTCUSDT'') = Some (ArgFloat f_one) \<and> kv r' (KeyPrice ''ETHUSDT'') = None"
    using Write_publishes [OF mem_client_laws w, of "fst (Get ?bs ''BTCUSDT'')"] sample_book j(1) by force
  with w j(1) show ?thesis by blast
qed

text \<open>The three assignments of a write, in order, with the step each error names.\<close>

definition write_plan :: "TradeEvent \<Rightarrow> string \<Rightarrow> string \<Rightarrow> (string \<times> redis_arg) list" where
  "write_plan e tj bj =
     [(KeyLatestTrade (Symbol e), ArgBytes tj), (KeyPrice (Symbol e), ArgFloat (Price e)), (KeyOrderBook (Symbol e), ArgBytes bj)]"

definition write_steps :: "string list" where
  "write_steps = [''set latest trade: '', ''set price: '', ''set order book: '']"

text \<open>C38. Partial failure, on any client: a write of an encodable trade and book that reports an error
  made the assignments latest trade, price and book in this order up to the first that failed,
  and wraps that error with the name of its step. The assignments before it are in effect, and
  every key but the failed one is otherwise as before, so none after it was made.\<close>

theorem Write_stops_at_first_error:
  assumes "redis_laws client view" "marshal_trade e = Some tj" "Get bs (Symbol e) = (b, True)" "marshal_book b = Some bj"
    and "Write client (Some bs) e r = (r', Some err)"
  shows "\<exists>n < 3. \<exists>r0 cause. view r0 = view r ++ map_of (take n (write_plan e tj bj)) \<and>
     rSet client r0 (fst (write_plan e tj bj ! n)) (snd (write_plan e tj bj ! n)) = (r', Some cause) \<and>
     err = Wrapf (write_steps ! n) cause \<and>
     (\<forall>k. k \<noteq> fst (write_plan e tj bj ! n) \<longrightarrow> view r' k = (view r ++ map_of (take n (write_plan e tj bj))) k)"
proof -
  let ?p = "write_plan e tj bj"
  obtain r1 x1 where s1: "rSet client r (KeyLatestTrade (Symbol e)) (ArgBytes tj) = (r1, x1)" by fastforce
  obtain r2 x2 where s2: "rSet client r1 (KeyPrice (Symbol e)) (ArgFloat (Price e)) = (r2, x2)" by fastforce
  obtain r3 x3 where s3: "rSet client r2 (KeyOrderBook (Symbol e)) (ArgBytes bj) = (r3, x3)" by fastforce
  have v1: "view r1 = (view r)(KeyLatestTrade (Symbol e) \<mapsto> ArgBytes tj)" if "x1 = None"
    using that s1 redis_lawsD(1) [OF assms(1)] by blast
  have v2: "view r2 = (view r1)(KeyPrice (Symbol e) \<mapsto> ArgFloat (Price e))" if "x2 = None"
    using that s2 redis_lawsD(1) [OF assms(1)] by blast
  have fail: ?thesis
    if "n < 3" "view r0 = view r ++ map_of (take n ?p)" "rSet client r0 (fst (?p ! n)) (snd (?p ! n)) = (r', Some cause)"
      "err = Wrapf (write_steps ! n) cause" for n r0 cause
  proof -
    have "view r' k = (view r ++ map_of (take n ?p)) k" if "k \<noteq> fst (?p ! n)" for k
      using redis_lawsD(2) [OF assms(1) \<open>rSet client r0 _ _ = _\<close> that] \<open>view r0 = _\<close> by simp
    then show ?thesis using that by blast
  qed
  note w = assms(5) [unfolded Write_def json_Marshal_trade_def json_Marshal_book_def]
  consider "\<exists>c. x1 = Some c" | "x1 = None" "\<exists>c. x2 = Some c" | "x1 = None" "x2 = None" by fastforce
  then show ?thesis
  proof cases
    case 1
    then obtain c where "x1 = Some c" by blast
    then show ?thesis using w assms(2) s1 by (intro fail [of 0 r c]) (simp_all add: write_plan_def write_steps_def)
  next
    case 2
    then obtain c where "x2 = Some c" by blast
    then show ?thesis using w assms(2) s1 s2 2(1) v1 by (intro fail [of 1 r1 c]) (simp_all add: write_plan_def write_steps_def)
  next
    case 3
    then obtain c where c: "x3 = Some c" "r' = r3" "err = Wrapf ''set order book: '' c"
      using w assms(2-4) s1 s2 s3 by (cases x3) auto
    have "view r2 = view r ++ map_of (take 2 ?p)"
      using v1 [OF 3(1)] v2 [OF 3(2)] by (auto simp: write_plan_def numeral_2_eq_2 map_add_def fun_eq_iff)
    then show ?thesis using c s3 by (intro fail [of 2 r2 c]) (simp_all add: write_plan_def write_steps_def)
  qed
qed

theorem Write_stops_at_first_error_witness:
  "\<exists>m'. Write (mem_client {KeyPrice ''BTCUSDT''} (Errorf ''down'')) (Some (Apply sample_trade NewOrderBookStore))
        sample_trade \<lparr>kv = Map.empty, calls = []\<rparr> = (m', Some (Wrapf ''set price: '' (Errorf ''down''))) \<and>
      kv m' (KeyLatestTrade ''BTCUSDT'') \<noteq> None \<and> kv m' (KeyOrderBook ''BTCUSDT'') = None"
proof -
  let ?bs = "Apply sample_trade NewOrderBookStore" and ?c = "mem_client {KeyPrice ''BTCUSDT''} (Errorf ''down'')"
    and ?m = "\<lparr>kv = Map.empty, calls = []\<rparr>"
  obtain tj bj b where j: "marshal_trade sample_trade = Some tj" "Get ?bs (Symbol sample_trade) = (b, True)"
      "marshal_book b = Some bj"
    using sample_marshals sample_book by auto
  obtain m' where w: "Write ?c (Some ?bs) sample_trade ?m = (m', Some (Wrapf ''set price: '' (Errorf ''down'')))"
    using j by (simp add: Write_def json_Marshal_trade_def mem_client_def Let_def)
  obtain n where n: "n < 3" "write_steps ! n = ''set price: ''"
      "\<forall>k. k \<noteq> fst (write_plan sample_trade tj bj ! n) \<longrightarrow> kv m' k = (kv ?m ++ map_of (take n (write_plan sample_trade tj bj))) k"
    using Write_stops_at_first_error [OF mem_client_laws j w] by (auto simp: Let_def)
  then have "n = 1" by (auto simp: write_steps_def less_Suc_eq numeral_3_eq_3)
  then have "kv m' (KeyLatestTrade ''BTCUSDT'') \<noteq> None" "kv m' (KeyOrderBook ''BTCUSDT'') = None"
    using n(3) by (simp_all add: write_plan_def)
  with w show ?thesis by blast
qed

text \<open>C39. A trade whose notional overflows is lost to readers: if a raw trade has a JSON form but its
  price times its quantity is too large for a float64, \<open>Write\<close> on the enriched trade fails
  before its first call, so neither the latest trade, nor the price, nor the book of the symbol
  is written.\<close>

theorem Write_overflow_writes_nothing:
  assumes "trade_encodable e" "is_inf (f_mul (Price e) (Quantity e))"
  shows "marshal_trade e \<noteq> None \<and> Write client books (enrich p e) r
           = (r, Some (Wrapf ''marshal trade: '' (float_error (f_mul (Price e) (Quantity e)))))"
proof -
  have fin: "is_finite (Price e)" "is_finite (Quantity e)" using assms(1) by (simp_all add: trade_encodable_def)
  have "\<not> is_finite (Notional (enrich p e))" using assms(2) by (simp add: is_inf_def is_finite_def)
  then have "marshal_trade (enrich p e) = None"
    by (simp add: marshal_trade_None trade_encodable_def)
  moreover have "marshal_trade e \<noteq> None" using marshal_trade_None [of e] assms(1) by simp
  ultimately show ?thesis using fin assms(2)
    by (simp add: Write_marshal_fails marshal_error_def is_inf_def is_finite_def)
qed

theorem Write_overflow_writes_nothing_witness:
  "marshal_trade (sample_trade\<lparr>Price := pack False (2000 * 2 ^ 52), Quantity := pack False (2000 * 2 ^ 52)\<rparr>) \<noteq> None \<and>
   Write (mem_client {} (Errorf [])) None
      (enrich NewDefaultMetadataProvider
         (sample_trade\<lparr>Price := pack False (2000 * 2 ^ 52), Quantity := pack False (2000 * 2 ^ 52)\<rparr>))
      \<lparr>kv = Map.empty, calls = []\<rparr>
     = (\<lparr>kv = Map.empty, calls = []\<rparr>,
        Some (Wrapf ''marshal trade: '' (Errorf ''json: unsupported value: +Inf'')))"
proof -
  let ?x = "pack False (2000 * 2 ^ 52)"
  let ?e = "sample_trade\<lparr>Price := ?x, Quantity := ?x\<rparr>"
  have m: "mag ?x = 2000 * 2 ^ 52" "\<not> neg ?x" by simp_all
  have fin: "is_finite ?x" using m(1) by (simp add: is_finite_def inf_mag_def)
  have "fval (mag ?x) = two 977"
    unfolding m(1) by (simp add: fval_def mant_def expo_def)
  then have "two 1024 \<le> fval (mag ?x) * fval (mag ?x)"
    by (simp flip: power_int_add)
  with fin have inf: "is_inf (f_mul ?x ?x)" by (intro f_mul_overflow)
  then have err: "float_error (f_mul ?x ?x) = Errorf ''json: unsupported value: +Inf''"
    using neg_f_mul_finite [OF fin fin] by (simp add: float_error_def is_inf_def is_nan_def)
  have "trade_encodable ?e" using fin sample_encodable by (simp add: trade_encodable_def)
  then show ?thesis
    using Write_overflow_writes_nothing [of ?e] inf err by simp
qed

end
