(* ===== verification/Fan_Out.thy ===== *)
theory Fan_Out
  imports Chan Domain
begin

text \<open>
  The fan-out of processor-service (\<open>fanout.go\<close>): three sink channels and \<open>Publish\<close>, whose
  loop keeps one select case per sink that has not accepted the event yet (Go sets the channel
  variable to nil) and one for the context. One turn of the loop is the list of its ready
  cases; \<open>publish_runs\<close> closes it under turns while nothing else touches the channels. The
  lemmas show that the order in which sinks accept does not matter, that the call ends after
  at most three sends, what a full sink blocks and what it does not, and what cancellation
  leaves behind.
\<close>

section \<open>Model\<close>

definition defaultFanOutBuffer :: int where "defaultFanOutBuffer = 256"

record FanOut =
  orderBook :: "TradeEvent chan"
  redisWriter :: "TradeEvent chan"
  broadcast :: "TradeEvent chan"

definition NewFanOut :: "int \<Rightarrow> FanOut" where
  "NewFanOut bufferSize =
     (let n = nat (if bufferSize \<le> 0 then defaultFanOutBuffer else bufferSize)
      in \<lparr>orderBook = make_chan n, redisWriter = make_chan n, broadcast = make_chan n\<rparr>)"

text \<open>The local variables of \<open>Publish\<close>: which channel variables are not nil.\<close>

record wants =
  ob :: bool
  rw :: bool
  bc :: bool

definition all_wants :: wants where
  "all_wants = \<lparr>ob = True, rw = True, bc = True\<rparr>"

definition wants_any :: "wants \<Rightarrow> bool" where
  "wants_any w = (ob w \<or> rw w \<or> bc w)"

datatype pub_turn = Turn wants FanOut | Failed goerror

definition publish_turn :: "ctx \<Rightarrow> TradeEvent \<Rightarrow> wants \<Rightarrow> FanOut \<Rightarrow> pub_turn list" where
  "publish_turn ctx e w f =
     (if ob w then send_case e (orderBook f) (\<lambda>c. Turn (w\<lparr>ob := False\<rparr>) (f\<lparr>orderBook := c\<rparr>)) else []) @
     (if rw w then send_case e (redisWriter f) (\<lambda>c. Turn (w\<lparr>rw := False\<rparr>) (f\<lparr>redisWriter := c\<rparr>)) else []) @
     (if bc w then send_case e (broadcast f) (\<lambda>c. Turn (w\<lparr>bc := False\<rparr>) (f\<lparr>broadcast := c\<rparr>)) else []) @
     done_case ctx Failed"

text \<open>The call, run alone: the loop ends with a nil error when no sink is left, with the
  context's error when that case is taken, and does not end while no case is ready.\<close>

inductive publish_runs :: "ctx \<Rightarrow> TradeEvent \<Rightarrow> wants \<Rightarrow> FanOut \<Rightarrow> FanOut \<Rightarrow> goerror option \<Rightarrow> bool"
  for ctx e where
  pub_done: "\<not> wants_any w \<Longrightarrow> publish_runs ctx e w f f None"
| pub_fail: "wants_any w \<Longrightarrow> Failed err \<in> set (publish_turn ctx e w f) \<Longrightarrow>
     publish_runs ctx e w f f (Some err)"
| pub_turn: "wants_any w \<Longrightarrow> Turn w' f1 \<in> set (publish_turn ctx e w f) \<Longrightarrow>
     publish_runs ctx e w' f1 f2 r \<Longrightarrow> publish_runs ctx e w f f2 r"

definition Publish :: "ctx \<Rightarrow> TradeEvent \<Rightarrow> FanOut \<Rightarrow> FanOut \<Rightarrow> goerror option \<Rightarrow> bool" where
  "Publish ctx e f f' r = publish_runs ctx e all_wants f f' r"

definition fan_ok :: "FanOut \<Rightarrow> bool" where
  "fan_ok f = (chan_ok (orderBook f) \<and> chan_ok (redisWriter f) \<and> chan_ok (broadcast f))"

section \<open>Specification\<close>

text \<open>Delivery to the sinks still wanted, all at once.\<close>

definition deliver_to :: "wants \<Rightarrow> TradeEvent \<Rightarrow> FanOut \<Rightarrow> FanOut" where
  "deliver_to w e f =
     \<lparr>orderBook = (if ob w then chan_send e (orderBook f) else orderBook f),
      redisWriter = (if rw w then chan_send e (redisWriter f) else redisWriter f),
      broadcast = (if bc w then chan_send e (broadcast f) else broadcast f)\<rparr>"

definition room_for :: "wants \<Rightarrow> FanOut \<Rightarrow> bool" where
  "room_for w f =
     ((ob w \<longrightarrow> can_send (orderBook f)) \<and> (rw w \<longrightarrow> can_send (redisWriter f)) \<and>
      (bc w \<longrightarrow> can_send (broadcast f)))"

definition wants_count :: "wants \<Rightarrow> nat" where
  "wants_count w = of_bool (ob w) + of_bool (rw w) + of_bool (bc w)"

definition minus_wants :: "wants \<Rightarrow> wants \<Rightarrow> wants" where
  "minus_wants w v = \<lparr>ob = ob w \<and> \<not> ob v, rw = rw w \<and> \<not> rw v, bc = bc w \<and> \<not> bc v\<rparr>"

text \<open>Sub-requests: the sinks of \<open>v\<close> are among those of \<open>w\<close>.\<close>

definition sub_wants :: "wants \<Rightarrow> wants \<Rightarrow> bool" where
  "sub_wants v w = ((ob v \<longrightarrow> ob w) \<and> (rw v \<longrightarrow> rw w) \<and> (bc v \<longrightarrow> bc w))"

section \<open>Lemmas\<close>

lemma Turn_iff:
  "Turn w' f' \<in> set (publish_turn ctx e w f) \<longleftrightarrow>
     (ob w \<and> can_send (orderBook f) \<and> w' = w\<lparr>ob := False\<rparr>
        \<and> f' = f\<lparr>orderBook := chan_send e (orderBook f)\<rparr>) \<or>
     (rw w \<and> can_send (redisWriter f) \<and> w' = w\<lparr>rw := False\<rparr>
        \<and> f' = f\<lparr>redisWriter := chan_send e (redisWriter f)\<rparr>) \<or>
     (bc w \<and> can_send (broadcast f) \<and> w' = w\<lparr>bc := False\<rparr>
        \<and> f' = f\<lparr>broadcast := chan_send e (broadcast f)\<rparr>)"
  by (cases ctx) (auto simp: publish_turn_def set_send_case)

lemma Failed_iff: "Failed err \<in> set (publish_turn ctx e w f) \<longleftrightarrow> ctx = Some err"
  by (cases ctx) (auto simp: publish_turn_def set_send_case)

lemma publish_turn_Nil:
  "publish_turn ctx e w f = [] \<longleftrightarrow>
     ctx = None \<and> (ob w \<longrightarrow> \<not> can_send (orderBook f)) \<and> (rw w \<longrightarrow> \<not> can_send (redisWriter f)) \<and>
     (bc w \<longrightarrow> \<not> can_send (broadcast f))"
  by (cases ctx) (auto simp: publish_turn_def send_case_def)

lemma Turn_count: "Turn w' f' \<in> set (publish_turn ctx e w f) \<Longrightarrow> Suc (wants_count w') = wants_count w"
  by (auto simp: Turn_iff wants_count_def)

lemma Turn_deliver:
  "Turn w' f' \<in> set (publish_turn ctx e w f) \<Longrightarrow>
     deliver_to w' e f' = deliver_to w e f \<and> (room_for w f \<longrightarrow> room_for w' f') \<and> sub_wants w' w"
  by (auto simp: Turn_iff deliver_to_def room_for_def sub_wants_def)

lemma wants_count_bounds: "0 < wants_count w \<longleftrightarrow> wants_any w" "wants_count w \<le> 3"
  by (auto simp: wants_count_def wants_any_def of_bool_def)

lemma deliver_none: "\<not> wants_any w \<Longrightarrow> deliver_to w e f = f"
  by (simp add: deliver_to_def wants_any_def)

text \<open>A call that ends without an error has delivered to every sink it wanted, once.\<close>

lemma publish_runs_ok: "publish_runs ctx e w f f' r \<Longrightarrow> r = None \<Longrightarrow> f' = deliver_to w e f"
proof (induction rule: publish_runs.induct)
  case (pub_done w f)
  then show ?case by (simp add: deliver_none)
next
  case (pub_turn w w' f1 f f2 r)
  then show ?case using Turn_deliver by metis
qed simp

text \<open>A call that ends with an error does so because the context is done, and has delivered,
  once each, to those sinks that accepted before.\<close>

lemma sub_wants_trans: "sub_wants u v \<Longrightarrow> sub_wants v w \<Longrightarrow> sub_wants u w"
  by (auto simp: sub_wants_def)

lemma deliver_minus:
  assumes "sub_wants u v" "sub_wants v w"
  shows "deliver_to (minus_wants v u) e (deliver_to (minus_wants w v) e f) = deliver_to (minus_wants w u) e f"
proof -
  have twice: "(if b \<and> \<not> a then g (if c \<and> \<not> b then g x else x) else (if c \<and> \<not> b then g x else x))
      = (if c \<and> \<not> a then g x else x)" if "a \<longrightarrow> b" "b \<longrightarrow> c"
    for a b c and g :: "TradeEvent chan \<Rightarrow> TradeEvent chan" and x
    using that by (cases a; cases b; cases c) simp_all
  have sub: "ob u \<longrightarrow> ob v" "ob v \<longrightarrow> ob w" "rw u \<longrightarrow> rw v" "rw v \<longrightarrow> rw w" "bc u \<longrightarrow> bc v" "bc v \<longrightarrow> bc w"
    using assms by (simp_all add: sub_wants_def)
  show ?thesis
    unfolding deliver_to_def minus_wants_def
    by (simp only: FanOut.simps wants.simps
        twice [OF sub(1,2)] twice [OF sub(3,4)] twice [OF sub(5,6)])
qed

lemma minus_wants_self: "deliver_to (minus_wants w w) e f = f"
  by (simp add: deliver_to_def minus_wants_def)

lemma Turn_minus:
  assumes "Turn w' f' \<in> set (publish_turn ctx e w f)"
  shows "f' = deliver_to (minus_wants w w') e f"
  using assms unfolding Turn_iff
  by (elim disjE) (simp_all add: deliver_to_def minus_wants_def)

lemma publish_runs_fail:
  "publish_runs ctx e w f f' r \<Longrightarrow> r = Some err \<Longrightarrow>
     ctx = Some err \<and> (\<exists>v. sub_wants v w \<and> wants_any v \<and> f' = deliver_to (minus_wants w v) e f)"
proof (induction rule: publish_runs.induct)
  case (pub_fail w err' f)
  have "sub_wants w w" by (simp add: sub_wants_def)
  with pub_fail show ?case by (auto simp: Failed_iff minus_wants_self intro!: exI [of _ w])
next
  case (pub_turn w w' f1 f f2 r)
  then obtain v where v: "ctx = Some err" "sub_wants v w'" "wants_any v"
      "f2 = deliver_to (minus_wants w' v) e f1"
    by blast
  have "sub_wants w' w" using Turn_deliver [OF pub_turn(2)] by simp
  with v Turn_minus [OF pub_turn(2)] have "sub_wants v w" "f2 = deliver_to (minus_wants w v) e f"
    by (auto intro: sub_wants_trans simp: deliver_minus)
  with v(1,3) show ?case by blast
qed simp

text \<open>With room in every wanted sink the call can always end, and it never takes more turns
  than there are sinks left.\<close>

lemma publish_total:
  "room_for w f \<Longrightarrow> publish_runs ctx e w f (deliver_to w e f) None"
proof (induction "wants_count w" arbitrary: w f)
  case 0
  then have "\<not> wants_any w" by (simp flip: wants_count_bounds(1))
  then show ?case by (simp add: deliver_none pub_done)
next
  case (Suc n)
  then have any: "wants_any w" by (simp flip: wants_count_bounds(1))
  have "\<exists>w' f'. Turn w' f' \<in> set (publish_turn ctx e w f)"
    using any Suc.prems by (auto simp: wants_any_def room_for_def Turn_iff)
  then obtain w' f' where t: "Turn w' f' \<in> set (publish_turn ctx e w f)" by blast
  then have "publish_runs ctx e w' f' (deliver_to w' e f') None"
    using Suc Turn_count [OF t] Turn_deliver [OF t] by (intro Suc.hyps) auto
  then show ?case using any t Turn_deliver [OF t] by (auto intro: publish_runs.pub_turn)
qed

lemma Turn_caps:
  "Turn w' f' \<in> set (publish_turn ctx e w f) \<Longrightarrow> fan_ok f \<Longrightarrow> fan_ok f'"
  unfolding Turn_iff by (elim disjE) (auto simp: fan_ok_def intro: inv_intro)

lemma publish_runs_fan_ok: "publish_runs ctx e w f f' r \<Longrightarrow> fan_ok f \<Longrightarrow> fan_ok f'"
  by (induction rule: publish_runs.induct) (auto intro: Turn_caps)

section \<open>Properties\<close>

text \<open>C18. A call of \<open>Publish\<close> that returns nil has appended the event exactly once to each of
  the three sinks, whatever order they accepted in; one that returns an error returns the
  context's error, and has appended the event once to the sinks that accepted first and not at
  all to the rest, of which there is at least one.\<close>

theorem Publish_outcomes:
  assumes "Publish ctx e f f' r"
  shows "(r = None \<longrightarrow> f' = deliver_to all_wants e f) \<and>
         (\<forall>err. r = Some err \<longrightarrow> ctx = Some err \<and>
            (\<exists>missed. wants_any missed \<and> f' = deliver_to (minus_wants all_wants missed) e f))"
  using assms publish_runs_ok publish_runs_fail unfolding Publish_def by metis

theorem Publish_outcomes_witness:
  "Publish None zero_trade (NewFanOut 1) (deliver_to all_wants zero_trade (NewFanOut 1)) None \<and>
   Buf (redisWriter (deliver_to all_wants zero_trade (NewFanOut 1))) = [zero_trade]"
proof -
  have "room_for all_wants (NewFanOut 1)"
    by (simp add: room_for_def NewFanOut_def can_send_def)
  then have run: "Publish None zero_trade (NewFanOut 1) (deliver_to all_wants zero_trade (NewFanOut 1)) None"
    unfolding Publish_def by (rule publish_total)
  then show ?thesis
    using Publish_outcomes [OF run] by (simp add: deliver_to_def all_wants_def NewFanOut_def)
qed

text \<open>Liveness of \<open>Publish\<close>: with room in every sink a call returns nil after three sends,
  even if the context is already done, and no call takes more than three turns; with a live
  context it blocks only while every sink that still wants the event is full, so one full sink
  never holds up delivery to the others.\<close>

theorem Publish_progress:
  "(room_for all_wants f \<longrightarrow> Publish ctx e f (deliver_to all_wants e f) None) \<and>
   (Turn w' f' \<in> set (publish_turn ctx e w f) \<longrightarrow> wants_count w' < wants_count w \<and> wants_count w \<le> 3) \<and>
   (publish_turn ctx e w f = [] \<longleftrightarrow>
      ctx = None \<and> (ob w \<longrightarrow> \<not> can_send (orderBook f)) \<and> (rw w \<longrightarrow> \<not> can_send (redisWriter f)) \<and>
      (bc w \<longrightarrow> \<not> can_send (broadcast f)))"
proof -
  have "wants_count w' < wants_count w" if "Turn w' f' \<in> set (publish_turn ctx e w f)"
    using Turn_count [OF that] by simp
  then show ?thesis
    by (simp add: Publish_def publish_total wants_count_bounds(2) publish_turn_Nil)
qed

theorem Publish_progress_witness:
  "Publish None zero_trade (NewFanOut 0) (deliver_to all_wants zero_trade (NewFanOut 0)) None \<and>
   wants_count (all_wants\<lparr>rw := False\<rparr>) < wants_count all_wants"
proof -
  have room: "room_for all_wants (NewFanOut 0)"
    by (simp add: room_for_def NewFanOut_def can_send_def defaultFanOutBuffer_def)
  have t: "Turn (all_wants\<lparr>rw := False\<rparr>)
      ((NewFanOut 0)\<lparr>redisWriter := chan_send zero_trade (redisWriter (NewFanOut 0))\<rparr>)
        \<in> set (publish_turn None zero_trade all_wants (NewFanOut 0))"
    using room by (simp add: Turn_iff room_for_def all_wants_def)
  show ?thesis using Publish_progress t room by blast
qed

end
