(* ===== verification/Pool.thy ===== *)
theory Pool
  imports Chan Enrich
begin

text \<open>
  The worker pool of processor-service (\<open>pool.go\<close>): a job channel as large as the number of
  workers, \<open>Submit\<close>, and the turn of a worker. A worker logs a handler error and goes on; it
  only ever returns nil, when the context is done.
\<close>

section \<open>Model\<close>

definition defaultPoolSize :: int where "defaultPoolSize = 100"

record WorkerPool =
  numWorkers :: nat
  jobs :: "TradeEvent chan"

definition NewWorkerPool :: "int \<Rightarrow> WorkerPool" where
  "NewWorkerPool size0 =
     (let n = nat (if size0 \<le> 0 then defaultPoolSize else size0)
      in \<lparr>numWorkers = n, jobs = make_chan n\<rparr>)"

text \<open>The ready cases of \<open>Submit\<close>: the pool after the send with a nil error, or the
  context's error.\<close>

definition Submit :: "ctx \<Rightarrow> TradeEvent \<Rightarrow> WorkerPool \<Rightarrow> (WorkerPool \<times> goerror option) list" where
  "Submit ctx event p =
     send_case event (jobs p) (\<lambda>c. (p\<lparr>jobs := c\<rparr>, None)) @ done_case ctx (\<lambda>e. (p, Some e))"

text \<open>The ready cases of a worker's select: it takes a job, or returns nil.\<close>

datatype worker_turn = Took TradeEvent WorkerPool | Quit "goerror option"

definition runWorker :: "ctx \<Rightarrow> WorkerPool \<Rightarrow> worker_turn list" where
  "runWorker ctx p =
     recv_case (jobs p) (\<lambda>e c. Took e (p\<lparr>jobs := c\<rparr>)) @ done_case ctx (\<lambda>_. Quit None)"

text \<open>\<open>Start\<close> waits for all workers and wraps the first error, if any worker returned one.\<close>

definition pool_Start :: "goerror option list \<Rightarrow> goerror option" where
  "pool_Start results =
     (case g_Wait results of Some e \<Rightarrow> Some (Wrapf ''worker pool: '' e) | None \<Rightarrow> None)"

text \<open>A worker draining the jobs it is given, sequentially, with its handler: errors are
  logged, here collected, and never stop it.\<close>

fun work_off :: "'s TradeHandler \<Rightarrow> TradeEvent list \<Rightarrow> 's \<Rightarrow> 's \<times> (TradeEvent \<times> goerror) list" where
  "work_off handle [] st = (st, [])"
| "work_off handle (e # es) st =
     (case handle e st of
        (st1, None) \<Rightarrow> work_off handle es st1
      | (st1, Some err) \<Rightarrow> (let (st2, log) = work_off handle es st1 in (st2, (e, err) # log)))"

section \<open>Lemmas\<close>

lemma NewWorkerPool_fields:
  "numWorkers (NewWorkerPool n) = (if n \<le> 0 then 100 else nat n)"
  "Cap (jobs (NewWorkerPool n)) = numWorkers (NewWorkerPool n)"
  "Buf (jobs (NewWorkerPool n)) = []"
  by (simp_all add: NewWorkerPool_def Let_def defaultPoolSize_def)

lemma Submit_iff:
  "(p', r) \<in> set (Submit ctx e p) \<longleftrightarrow>
     (can_send (jobs p) \<and> p' = p\<lparr>jobs := chan_send e (jobs p)\<rparr> \<and> r = None) \<or> (ctx = r \<and> r \<noteq> None \<and> p' = p)"
  by (cases ctx) (auto simp: Submit_def set_send_case)

lemma runWorker_iff:
  "Took e p' \<in> set (runWorker ctx p) \<longleftrightarrow>
     (\<exists>c. chan_recv (jobs p) = Some (e, c) \<and> p' = p\<lparr>jobs := c\<rparr>)"
  "Quit r \<in> set (runWorker ctx p) \<longleftrightarrow> r = None \<and> ctx \<noteq> None"
  by (cases ctx; auto simp: runWorker_def set_recv_case)+

lemma work_off_state: "fst (work_off handle es st) = fold (\<lambda>e s. fst (handle e s)) es st"
proof (induction es arbitrary: st)
  case (Cons e es)
  show ?case
    using Cons [of "fst (handle e st)"]
    by (cases "handle e st") (auto simp: Let_def split: prod.splits option.splits)
qed simp

text \<open>The state each job's handler call starts from.\<close>

fun states_before :: "'s TradeHandler \<Rightarrow> TradeEvent list \<Rightarrow> 's \<Rightarrow> 's list" where
  "states_before handle [] st = []"
| "states_before handle (e # es) st = st # states_before handle es (fst (handle e st))"

lemma work_off_log:
  "snd (work_off handle es st) =
     List.map_filter (\<lambda>(e, s). map_option (Pair e) (snd (handle e s))) (zip es (states_before handle es st))"
proof (induction es arbitrary: st)
  case (Cons e es)
  show ?case
    using Cons [of "fst (handle e st)"]
    by (cases "handle e st") (auto simp: Let_def map_filter_simps split: prod.splits option.splits)
qed (simp add: map_filter_simps)

lemma pool_Start_nil: "list_all (\<lambda>r. r = None) results \<Longrightarrow> pool_Start results = None"
  by (simp add: pool_Start_def list_all_iff g_Wait_None [THEN iffD2])

section \<open>Properties\<close>

text \<open>\<open>Submit\<close> blocks exactly when the job buffer is full and the context is live. When it
  returns nil the trade is at the end of the buffer, which stays within the pool size; when it
  returns an error that is the context's, and the trade is not enqueued. Once the context is
  done while there is room, both outcomes are possible.\<close>

theorem Submit_outcomes:
  "(Submit ctx e p = [] \<longleftrightarrow> \<not> can_send (jobs p) \<and> ctx = None) \<and>
   ((p', None) \<in> set (Submit ctx e p) \<longrightarrow>
      Buf (jobs p') = Buf (jobs p) @ [e] \<and> (chan_ok (jobs p) \<longrightarrow> length (Buf (jobs p')) \<le> Cap (jobs p))) \<and>
   ((p', Some err) \<in> set (Submit ctx e p) \<longleftrightarrow> p' = p \<and> ctx = Some err) \<and>
   (ctx = Some err \<and> can_send (jobs p) \<longrightarrow>
      (p, Some err) \<in> set (Submit ctx e p) \<and> (p\<lparr>jobs := chan_send e (jobs p)\<rparr>, None) \<in> set (Submit ctx e p))"
proof -
  have "Submit ctx e p = [] \<longleftrightarrow> \<not> can_send (jobs p) \<and> ctx = None"
    by (cases ctx) (auto simp: Submit_def send_case_def)
  then show ?thesis by (auto simp: Submit_iff can_send_def)
qed

theorem Submit_outcomes_witness:
  "(NewWorkerPool 1, ctx_canceled) \<in> set (Submit ctx_canceled zero_trade (NewWorkerPool 1)) \<and>
   ((NewWorkerPool 1)\<lparr>jobs := chan_send zero_trade (jobs (NewWorkerPool 1))\<rparr>, None)
     \<in> set (Submit ctx_canceled zero_trade (NewWorkerPool 1))"
proof -
  have "can_send (jobs (NewWorkerPool 1))" by (simp add: can_send_def NewWorkerPool_fields)
  then show ?thesis
    using Submit_outcomes [of ctx_canceled zero_trade "NewWorkerPool 1" "NewWorkerPool 1" "Sentinel CtxCanceled"]
    by blast
qed

text \<open>A failing trade never stops a worker: whatever errors the handler returns, it is
  called on every job in order, each call from the state the previous one left, exactly the
  failed jobs are logged with their error, and the pool, whose workers all return nil, returns
  nil.\<close>

theorem worker_survives_errors:
  "work_off handle es st =
     (fold (\<lambda>e s. fst (handle e s)) es st,
      List.map_filter (\<lambda>(e, s). map_option (Pair e) (snd (handle e s))) (zip es (states_before handle es st))) \<and>
   pool_Start (replicate (numWorkers p) None) = None"
proof -
  have "list_all (\<lambda>r. r = None) (replicate (numWorkers p) (None :: goerror option))" by (simp add: list_all_iff)
  then show ?thesis
    by (simp add: pool_Start_nil prod_eq_iff work_off_state work_off_log)
qed

end
