(* ===== verification/Processor.thy ===== *)
theory Processor
  imports Consumer RedisWriter Fan_Out Pool
begin

text \<open>
  processor-service as a whole (\<open>service.go\<close>): the consumer goroutine, the workers of the pool
  and the three sink goroutines, running concurrently over the shared channels. One step of
  \<open>proc_step\<close> is one goroutine taking one ready case of its select or one local action, built
  from the operations of the component theories; the environment cancels the context and
  answers polls. The consumer's handler is \<open>pool.Submit\<close> and the pool's handler is the
  enricher in front of \<open>fanOut.Publish\<close>, as \<open>Run\<close> wires them. The Redis writer first receives a trade
  (\<open>rwHold\<close>) and then writes it, so it can be busy while the rest of the pipeline goes on. The fields \<open>submitted\<close>,
  \<open>obSeen\<close>, \<open>rwSeen\<close>, \<open>bcSeen\<close> and \<open>aborted\<close> are histories that no step reads.

  The lemmas prove by rule induction that every trade accepted by \<open>Submit\<close> is accounted for at
  every sink, that buffers stay within capacity, that a live pipeline is never stuck before it
  is drained, that one worker keeps the order of trades, and, on the other side, that two
  workers can reverse it and that a shutdown can lose trades whose records are marked.
\<close>

section \<open>Model\<close>

datatype worker = Idle | Publishing TradeEvent wants | Stopped

record 'r proc =
  pctx :: ctx
  consuming :: bool
  batch :: "kgo_record list"
  pmarks :: marks
  pool :: WorkerPool
  workers :: "worker list"
  fan :: FanOut
  books :: OrderBookStore
  obOn :: bool
  rwOn :: bool
  bcOn :: bool
  rwHold :: "TradeEvent option"
  redis :: 'r
  submitted :: "TradeEvent list"
  obSeen :: "TradeEvent list"
  rwSeen :: "TradeEvent list"
  bcSeen :: "TradeEvent list"
  aborted :: "(TradeEvent \<times> wants) list"

text \<open>The state after \<open>Run\<close> has started its goroutines, for the configured pool size and
  fan-out buffer.\<close>

definition proc_init :: "int \<Rightarrow> int \<Rightarrow> 'r \<Rightarrow> 'r proc" where
  "proc_init poolSize fanOutBuffer r =
     \<lparr>pctx = None, consuming = True, batch = [], pmarks = [],
      pool = NewWorkerPool poolSize,
      workers = replicate (numWorkers (NewWorkerPool poolSize)) Idle,
      fan = NewFanOut fanOutBuffer, books = NewOrderBookStore,
      obOn = True, rwOn = True, bcOn = True, rwHold = None, redis = r,
      submitted = [], obSeen = [], rwSeen = [], bcSeen = [], aborted = []\<rparr>"

abbreviation metadata :: StaticMetadataProvider where
  "metadata \<equiv> NewDefaultMetadataProvider"

text \<open>\<open>drainSink\<close>, the consumer of the broadcast sink: it only logs what it receives.\<close>

definition drainSink :: "ctx \<Rightarrow> TradeEvent chan \<Rightarrow> TradeEvent chan loop list" where
  "drainSink ctx ch = recv_case ch (\<lambda>_ c. Continue c) @ done_case ctx (\<lambda>_. Return)"

datatype label =
    Cancel | Polled "kgo_record list" | ConsumerStop | Skip | Submitted | Refused
  | Take nat | Deliver nat | Finish nat | Abort nat | WorkerStop nat
  | ObApply | ObStop | RwTake | RwWrite | RwStop | BcDrain | BcStop

inductive proc_step :: "'r redis_client \<Rightarrow> 'r proc \<Rightarrow> label \<Rightarrow> 'r proc \<Rightarrow> bool" for client where
  cancel: "pctx s = None \<Longrightarrow> proc_step client s Cancel (s\<lparr>pctx := ctx_canceled\<rparr>)"
| polled: "consuming s \<Longrightarrow> batch s = [] \<Longrightarrow> pctx s = None \<Longrightarrow>
     proc_step client s (Polled rs) (s\<lparr>batch := rs\<rparr>)"
| consumer_stop: "consuming s \<Longrightarrow> batch s = [] \<Longrightarrow> pctx s \<noteq> None \<Longrightarrow>
     proc_step client s ConsumerStop (s\<lparr>consuming := False\<rparr>)"
| skip: "consuming s \<Longrightarrow> batch s = r # rs \<Longrightarrow> unmarshal_trade (RValue r) = None \<Longrightarrow>
     proc_step client s Skip (s\<lparr>batch := rs, pmarks := pmarks s @ [r]\<rparr>)"
| submitted: "consuming s \<Longrightarrow> batch s = r # rs \<Longrightarrow> unmarshal_trade (RValue r) = Some e \<Longrightarrow>
     (p, None) \<in> set (Submit (pctx s) e (pool s)) \<Longrightarrow>
     proc_step client s Submitted
       (s\<lparr>batch := rs, pmarks := pmarks s @ [r], pool := p, submitted := submitted s @ [e]\<rparr>)"
| refused: "consuming s \<Longrightarrow> batch s = r # rs \<Longrightarrow> unmarshal_trade (RValue r) = Some e \<Longrightarrow>
     (p, Some err) \<in> set (Submit (pctx s) e (pool s)) \<Longrightarrow>
     proc_step client s Refused (s\<lparr>batch := rs, pool := p\<rparr>)"
| take: "i < length (workers s) \<Longrightarrow> workers s ! i = Idle \<Longrightarrow>
     Took e p \<in> set (runWorker (pctx s) (pool s)) \<Longrightarrow>
     proc_step client s (Take i)
       (s\<lparr>pool := p, workers := (workers s)[i := Publishing (enrich metadata e) all_wants]\<rparr>)"
| deliver: "i < length (workers s) \<Longrightarrow> workers s ! i = Publishing e w \<Longrightarrow> wants_any w \<Longrightarrow>
     Turn w' f \<in> set (publish_turn (pctx s) e w (fan s)) \<Longrightarrow>
     proc_step client s (Deliver i) (s\<lparr>fan := f, workers := (workers s)[i := Publishing e w']\<rparr>)"
| finish: "i < length (workers s) \<Longrightarrow> workers s ! i = Publishing e w \<Longrightarrow> \<not> wants_any w \<Longrightarrow>
     proc_step client s (Finish i) (s\<lparr>workers := (workers s)[i := Idle]\<rparr>)"
| abort: "i < length (workers s) \<Longrightarrow> workers s ! i = Publishing e w \<Longrightarrow> wants_any w \<Longrightarrow>
     Failed err \<in> set (publish_turn (pctx s) e w (fan s)) \<Longrightarrow>
     proc_step client s (Abort i)
       (s\<lparr>workers := (workers s)[i := Idle], aborted := aborted s @ [(e, w)]\<rparr>)"
| worker_stop: "i < length (workers s) \<Longrightarrow> workers s ! i = Idle \<Longrightarrow>
     Quit None \<in> set (runWorker (pctx s) (pool s)) \<Longrightarrow>
     proc_step client s (WorkerStop i) (s\<lparr>workers := (workers s)[i := Stopped]\<rparr>)"
| ob_apply: "obOn s \<Longrightarrow> chan_recv (orderBook (fan s)) = Some (e, c) \<Longrightarrow>
     Continue (c, bs) \<in> set (OrderBook_Run (pctx s) (orderBook (fan s)) (books s)) \<Longrightarrow>
     proc_step client s ObApply
       (s\<lparr>fan := (fan s)\<lparr>orderBook := c\<rparr>, books := bs, obSeen := obSeen s @ [e]\<rparr>)"
| ob_stop: "obOn s \<Longrightarrow> Return \<in> set (OrderBook_Run (pctx s) (orderBook (fan s)) (books s)) \<Longrightarrow>
     proc_step client s ObStop (s\<lparr>obOn := False\<rparr>)"
| rw_take: "rwOn s \<Longrightarrow> rwHold s = None \<Longrightarrow> Continue (c, e) \<in> set (RedisWriter_Run (pctx s) (redisWriter (fan s))) \<Longrightarrow>
     proc_step client s RwTake (s\<lparr>fan := (fan s)\<lparr>redisWriter := c\<rparr>, rwHold := Some e\<rparr>)"
| rw_write: "rwOn s \<Longrightarrow> rwHold s = Some e \<Longrightarrow>
     proc_step client s RwWrite
       (s\<lparr>rwHold := None, redis := fst (Write client (Some (books s)) e (redis s)), rwSeen := rwSeen s @ [e]\<rparr>)"
| rw_stop: "rwOn s \<Longrightarrow> rwHold s = None \<Longrightarrow> Return \<in> set (RedisWriter_Run (pctx s) (redisWriter (fan s))) \<Longrightarrow>
     proc_step client s RwStop (s\<lparr>rwOn := False\<rparr>)"
| bc_drain: "bcOn s \<Longrightarrow> chan_recv (broadcast (fan s)) = Some (e, c) \<Longrightarrow>
     Continue c \<in> set (drainSink (pctx s) (broadcast (fan s))) \<Longrightarrow>
     proc_step client s BcDrain (s\<lparr>fan := (fan s)\<lparr>broadcast := c\<rparr>, bcSeen := bcSeen s @ [e]\<rparr>)"
| bc_stop: "bcOn s \<Longrightarrow> Return \<in> set (drainSink (pctx s) (broadcast (fan s))) \<Longrightarrow>
     proc_step client s BcStop (s\<lparr>bcOn := False\<rparr>)"

inductive proc_reach :: "'r redis_client \<Rightarrow> 'r proc \<Rightarrow> 'r proc \<Rightarrow> bool" for client s0 where
  reach_start: "proc_reach client s0 s0"
| reach_step: "proc_reach client s0 s \<Longrightarrow> proc_step client s l t \<Longrightarrow> proc_reach client s0 t"

text \<open>All goroutines have returned, so \<open>eg.Wait()\<close> and \<open>Run\<close> return.\<close>

definition all_stopped :: "'r proc \<Rightarrow> bool" where
  "all_stopped s =
     (\<not> consuming s \<and> list_all (\<lambda>w. w = Stopped) (workers s) \<and> \<not> obOn s \<and> \<not> rwOn s \<and> \<not> bcOn s)"

section \<open>Accounting\<close>

text \<open>What a worker still owes to a sink, selected by \<open>want\<close>.\<close>

definition owes1 :: "(wants \<Rightarrow> bool) \<Rightarrow> worker \<Rightarrow> TradeEvent multiset" where
  "owes1 want w = (case w of Publishing e v \<Rightarrow> (if want v then {#e#} else {#}) | _ \<Rightarrow> {#})"

definition owes :: "(wants \<Rightarrow> bool) \<Rightarrow> worker list \<Rightarrow> TradeEvent multiset" where
  "owes want ws = \<Sum>\<^sub># (mset (map (owes1 want) ws))"

definition given_up :: "(wants \<Rightarrow> bool) \<Rightarrow> (TradeEvent \<times> wants) list \<Rightarrow> TradeEvent multiset" where
  "given_up want ab = mset (map fst (filter (\<lambda>(e, w). want w) ab))"

definition enriched :: "TradeEvent list \<Rightarrow> TradeEvent multiset" where
  "enriched es = mset (map (enrich metadata) es)"

text \<open>The trade the Redis writer has received and not yet written; the other sinks hold none.\<close>

definition in_hand :: "(wants \<Rightarrow> bool) \<Rightarrow> 'r proc \<Rightarrow> TradeEvent list" where
  "in_hand want s =
     (if want \<lparr>ob = False, rw = True, bc = False\<rparr> then (case rwHold s of None \<Rightarrow> [] | Some e \<Rightarrow> [e]) else [])"

text \<open>Everything the pipeline holds or has handled for one sink.\<close>

definition account ::
  "(wants \<Rightarrow> bool) \<Rightarrow> (FanOut \<Rightarrow> TradeEvent chan) \<Rightarrow> ('r proc \<Rightarrow> TradeEvent list) \<Rightarrow> 'r proc \<Rightarrow> TradeEvent multiset" where
  "account want sink seen s =
     enriched (Buf (jobs (pool s))) + owes want (workers s) + mset (Buf (sink (fan s))) +
     mset (in_hand want s) + mset (seen s) + given_up want (aborted s)"

definition balanced :: "'r proc \<Rightarrow> bool" where
  "balanced s =
     (account ob orderBook obSeen s = enriched (submitted s) \<and>
      account rw redisWriter rwSeen s = enriched (submitted s) \<and>
      account bc broadcast bcSeen s = enriched (submitted s))"

text \<open>The trades of the marked records, in order.\<close>

definition decoded :: "kgo_record list \<Rightarrow> TradeEvent list" where
  "decoded rs = List.map_filter (\<lambda>r. unmarshal_trade (RValue r)) rs"

definition proc_inv :: "'r proc \<Rightarrow> bool" where
  "proc_inv s =
     (balanced s \<and> fan_ok (fan s) \<and> chan_ok (jobs (pool s)) \<and>
      decoded (pmarks s) = submitted s \<and>
      books s = fold Apply (obSeen s) NewOrderBookStore \<and>
      length (workers s) = numWorkers (pool s) \<and>
      (pctx s = None \<longrightarrow> consuming s \<and> obOn s \<and> rwOn s \<and> bcOn s \<and> aborted s = [] \<and>
         Stopped \<notin> set (workers s)))"


section \<open>Lemmas\<close>

subsection \<open>Inversion of the sinks' turns\<close>

lemma OrderBook_Run_iff:
  "Continue (c, bs) \<in> set (OrderBook_Run ctx ch st) \<longleftrightarrow> (\<exists>e. chan_recv ch = Some (e, c) \<and> bs = Apply e st)"
  "Return \<in> set (OrderBook_Run ctx ch st) \<longleftrightarrow> ctx \<noteq> None"
  by (cases ctx; auto simp: OrderBook_Run_def set_recv_case)+

lemma RedisWriter_Run_iff:
  "Continue (c, e) \<in> set (RedisWriter_Run ctx ch) \<longleftrightarrow> chan_recv ch = Some (e, c)"
  "Return \<in> set (RedisWriter_Run ctx ch) \<longleftrightarrow> ctx \<noteq> None"
  by (cases ctx; auto simp: RedisWriter_Run_def set_recv_case)+

lemma drainSink_iff:
  "Continue c \<in> set (drainSink ctx ch) \<longleftrightarrow> (\<exists>e. chan_recv ch = Some (e, c))"
  "Return \<in> set (drainSink ctx ch) \<longleftrightarrow> ctx \<noteq> None"
  by (cases ctx; auto simp: drainSink_def set_recv_case)+

lemmas turn_iffs = OrderBook_Run_iff RedisWriter_Run_iff drainSink_iff Submit_iff runWorker_iff Failed_iff

subsection \<open>Accounting lemmas\<close>

lemma in_hand_simps [simp]:
  "in_hand ob s = []" "in_hand bc s = []" "in_hand rw s = (case rwHold s of None \<Rightarrow> [] | Some e \<Rightarrow> [e])"
  by (simp_all add: in_hand_def)

lemma owes1_simps [simp]:
  "owes1 want Idle = {#}" "owes1 want Stopped = {#}"
  "owes1 want (Publishing e v) = (if want v then {#e#} else {#})"
  by (simp_all add: owes1_def)

lemma owes_update:
  assumes "i < length ws"
  shows "owes want (ws[i := x]) + owes1 want (ws ! i) = owes want ws + owes1 want x"
  using assms
proof (induction ws arbitrary: i)
  case (Cons w ws)
  then show ?case by (cases i) (simp_all add: owes_def ac_simps)
qed simp

lemma owes_gain: "i < length ws \<Longrightarrow> owes1 want (ws ! i) = {#} \<Longrightarrow> owes want (ws[i := x]) = owes want ws + owes1 want x"
  using owes_update [of i ws want x] by simp

lemma owes_loss: "i < length ws \<Longrightarrow> owes1 want x = {#} \<Longrightarrow> owes want ws = owes want (ws[i := x]) + owes1 want (ws ! i)"
  using owes_update [of i ws want x] by simp

lemma owes_same:
  "i < length ws \<Longrightarrow> owes1 want x = owes1 want (ws ! i) \<Longrightarrow> owes want (ws[i := x]) = owes want ws"
  using owes_update [of i ws want x] by simp

lemma enriched_simps [simp]:
  "enriched [] = {#}" "enriched (e # es) = add_mset (enrich metadata e) (enriched es)"
  "enriched (xs @ ys) = enriched xs + enriched ys"
  by (simp_all add: enriched_def)

lemma given_up_snoc [simp]:
  "given_up want (ab @ [(e, w)]) = given_up want ab + (if want w then {#e#} else {#})"
  "given_up want [] = {#}"
  by (simp_all add: given_up_def)

text \<open>The selectors of the three sinks.\<close>

definition sink_triple ::
  "(wants \<Rightarrow> bool) \<Rightarrow> (FanOut \<Rightarrow> TradeEvent chan) \<Rightarrow> ('r proc \<Rightarrow> TradeEvent list) \<Rightarrow> bool" where
  "sink_triple want sink seen =
     ((want = ob \<and> sink = orderBook \<and> seen = obSeen) \<or> (want = rw \<and> sink = redisWriter \<and> seen = rwSeen) \<or>
      (want = bc \<and> sink = broadcast \<and> seen = bcSeen))"

lemma account_take:
  assumes "i < length ws" "ws ! i = Idle" "Buf (jobs p) = e # Buf c" "want all_wants"
  shows "enriched (Buf c) + owes want (ws[i := Publishing (enrich metadata e) all_wants])
       = enriched (Buf (jobs p)) + owes want ws"
  using owes_gain [OF assms(1), of want "Publishing (enrich metadata e) all_wants"] assms(2-4) by simp

lemma account_deliver:
  assumes t: "Turn w' f \<in> set (publish_turn ctx e w f0)" and st: "sink_triple want sink (seen :: 'r proc \<Rightarrow> _)"
    and i: "i < length ws" "ws ! i = Publishing e w"
  shows "owes want (ws[i := Publishing e w']) + mset (Buf (sink f)) = owes want ws + mset (Buf (sink f0))"
proof (cases "want w' = want w")
  case True
  then have "owes want (ws[i := Publishing e w']) = owes want ws" using i by (intro owes_same) simp_all
  moreover have "Buf (sink f) = Buf (sink f0)"
    using t st True by (auto simp: Turn_iff sink_triple_def)
  ultimately show ?thesis by simp
next
  case False
  then have w: "want w" "\<not> want w'" "Buf (sink f) = Buf (sink f0) @ [e]"
    using t st by (auto simp: Turn_iff sink_triple_def)
  then have "owes want ws = owes want (ws[i := Publishing e w']) + {#e#}"
    using owes_loss [OF i(1), of want "Publishing e w'"] i(2) by simp
  with w show ?thesis by simp
qed

lemma account_drop:
  assumes "i < length ws" "ws ! i = Publishing e w"
  shows "owes want ws = owes want (ws[i := Idle]) + (if want w then {#e#} else {#})"
  using owes_loss [OF assms(1), of want Idle] assms(2) by simp

lemma account_step:
  assumes st: "sink_triple want sink (seen :: 'r proc \<Rightarrow> _)" and step: "proc_step client s l t"
    and bal: "account want sink seen s = enriched (submitted s)"
  shows "account want sink seen t = enriched (submitted t)"
  using step
proof (cases rule: proc_step.cases)
  case (take i e p)
  then obtain c where c: "Buf (jobs (pool s)) = e # Buf c" "p = (pool s)\<lparr>jobs := c\<rparr>"
    by (auto simp: runWorker_iff chan_recv_eq)
  have "want all_wants" using st by (auto simp: sink_triple_def all_wants_def)
  from account_take [of i "workers s" "pool s" e c want, OF take(3,4) c(1) this] c bal take(2) st show ?thesis
    by (auto simp: account_def sink_triple_def ac_simps)
next
  case (deliver i e w w' f)
  from account_deliver [OF deliver(6) st deliver(3,4)] deliver(2) st
  have "account want sink seen t = account want sink seen s"
    by (auto simp: account_def sink_triple_def)
  with bal deliver(2) show ?thesis by simp
next
  case (finish i e w)
  have "owes want ((workers s)[i := Idle]) = owes want (workers s)"
    using finish(3-5) st by (intro owes_same) (auto simp: sink_triple_def wants_any_def)
  with finish(2) bal st show ?thesis by (auto simp: account_def sink_triple_def)
next
  case (abort i e w err)
  from account_drop [OF abort(3,4), of want] abort(2) st
  have "account want sink seen t = account want sink seen s"
    by (auto simp: account_def sink_triple_def)
  with bal abort(2) show ?thesis by simp
next
  case (worker_stop i)
  have "owes want ((workers s)[i := Stopped]) = owes want (workers s)"
    using worker_stop(3-5) by (intro owes_same) simp_all
  with worker_stop(2) bal st show ?thesis by (auto simp: account_def sink_triple_def)
next
  case (submitted r rs e p)
  with bal st show ?thesis by (auto simp: account_def sink_triple_def Submit_iff ac_simps)
next
  case (refused r rs e p err)
  with bal st show ?thesis by (auto simp: account_def sink_triple_def Submit_iff)
next
  case (ob_apply e c bs)
  with bal st show ?thesis by (auto simp: account_def sink_triple_def chan_recv_eq ac_simps)
next
  case (rw_take c e)
  with bal st show ?thesis by (auto simp: account_def sink_triple_def RedisWriter_Run_iff chan_recv_eq ac_simps)
next
  case (rw_write e)
  with bal st show ?thesis by (auto simp: account_def sink_triple_def ac_simps)
next
  case (bc_drain e c)
  with bal st show ?thesis by (auto simp: account_def sink_triple_def chan_recv_eq ac_simps)
qed (use bal st in \<open>auto simp: account_def sink_triple_def\<close>)


subsection \<open>Every step keeps the invariant\<close>

lemma balanced_step: "proc_step client s l t \<Longrightarrow> balanced s \<Longrightarrow> balanced t"
  unfolding balanced_def by (auto intro: account_step simp: sink_triple_def)

lemma fan_ok_step: "proc_step client s l t \<Longrightarrow> fan_ok (fan s) \<Longrightarrow> fan_ok (fan t)"
  by (cases rule: proc_step.cases)
     (auto simp: fan_ok_def chan_ok_def chan_recv_eq RedisWriter_Run_iff dest: Turn_caps)

lemma jobs_ok_step: "proc_step client s l t \<Longrightarrow> chan_ok (jobs (pool s)) \<Longrightarrow> chan_ok (jobs (pool t))"
  by (cases rule: proc_step.cases) (auto simp: Submit_iff runWorker_iff intro: inv_intro)

lemma decoded_simps [simp]:
  "decoded [] = []"
  "decoded (rs @ [r]) = decoded rs @ (case unmarshal_trade (RValue r) of None \<Rightarrow> [] | Some e \<Rightarrow> [e])"
  by (auto simp: decoded_def List.map_filter_def split: option.split)

lemma decoded_step:
  "proc_step client s l t \<Longrightarrow> decoded (pmarks s) = submitted s \<Longrightarrow> decoded (pmarks t) = submitted t"
  by (cases rule: proc_step.cases) auto

lemma books_step:
  "proc_step client s l t \<Longrightarrow> books s = fold Apply (obSeen s) NewOrderBookStore \<Longrightarrow>
     books t = fold Apply (obSeen t) NewOrderBookStore"
  by (cases rule: proc_step.cases) (auto simp: OrderBook_Run_iff)

text \<open>Sizes and capacities never change.\<close>

lemma sizes_step:
  "proc_step client s l t \<Longrightarrow>
     length (workers t) = length (workers s) \<and> numWorkers (pool t) = numWorkers (pool s) \<and>
     Cap (jobs (pool t)) = Cap (jobs (pool s)) \<and> Cap (redisWriter (fan t)) = Cap (redisWriter (fan s)) \<and>
     Cap (orderBook (fan t)) = Cap (orderBook (fan s)) \<and> Cap (broadcast (fan t)) = Cap (broadcast (fan s))"
  by (cases rule: proc_step.cases) (auto simp: Submit_iff runWorker_iff chan_recv_eq Turn_iff RedisWriter_Run_iff)

text \<open>While the context is live no goroutine has returned and no delivery was given up.\<close>

definition live_ok :: "'r proc \<Rightarrow> bool" where
  "live_ok s = (pctx s = None \<longrightarrow> consuming s \<and> obOn s \<and> rwOn s \<and> bcOn s \<and> aborted s = [] \<and>
     Stopped \<notin> set (workers s))"

lemma Stopped_update: "Stopped \<in> set (ws[i := x]) \<Longrightarrow> x \<noteq> Stopped \<Longrightarrow> Stopped \<in> set ws"
  using set_update_subset_insert [of ws i x] by blast

lemma live_step: "proc_step client s l t \<Longrightarrow> live_ok s \<Longrightarrow> live_ok t"
  unfolding live_ok_def
  by (cases rule: proc_step.cases) (auto simp: turn_iffs dest: Stopped_update)

lemma proc_inv_alt:
  "proc_inv s \<longleftrightarrow> balanced s \<and> fan_ok (fan s) \<and> chan_ok (jobs (pool s)) \<and> decoded (pmarks s) = submitted s \<and>
     books s = fold Apply (obSeen s) NewOrderBookStore \<and> length (workers s) = numWorkers (pool s) \<and> live_ok s"
  by (simp add: proc_inv_def live_ok_def)

lemma proc_inv_step: "proc_step client s l t \<Longrightarrow> proc_inv s \<Longrightarrow> proc_inv t"
  unfolding proc_inv_alt
  using balanced_step fan_ok_step jobs_ok_step decoded_step books_step sizes_step live_step by metis

lemma owes_idle [simp]: "owes want (replicate n Idle) = {#}"
  by (induction n) (simp_all add: owes_def)

lemma proc_inv_init: "proc_inv (proc_init n m r)"
  by (auto simp: proc_inv_def proc_init_def balanced_def account_def fan_ok_def NewFanOut_def Let_def
      NewWorkerPool_fields chan_ok_def)

lemma proc_inv_reach: "proc_reach client s0 s \<Longrightarrow> proc_inv s0 \<Longrightarrow> proc_inv s"
  by (induction rule: proc_reach.induct) (auto intro: proc_inv_step)


subsection \<open>Bounds\<close>

lemma size_owes: "size (owes want ws) \<le> length ws"
proof (induction ws)
  case (Cons w ws)
  then show ?case by (cases w) (auto simp: owes_def)
qed (simp add: owes_def)

lemma sizes_reach:
  "proc_reach client s0 s \<Longrightarrow>
     length (workers s) = length (workers s0) \<and> Cap (jobs (pool s)) = Cap (jobs (pool s0)) \<and>
     Cap (redisWriter (fan s)) = Cap (redisWriter (fan s0)) \<and>
     Cap (orderBook (fan s)) = Cap (orderBook (fan s0)) \<and> Cap (broadcast (fan s)) = Cap (broadcast (fan s0))"
  by (induction rule: proc_reach.induct) (auto dest: sizes_step)

lemma in_flight_bound:
  assumes "proc_inv s" "pctx s = None"
  shows "length (submitted s) \<le>
     length (rwSeen s) + Cap (jobs (pool s)) + length (workers s) + Cap (redisWriter (fan s)) + 1"
proof -
  have "size (account rw redisWriter rwSeen s) = size (enriched (submitted s))"
    using assms by (simp add: proc_inv_def balanced_def)
  then show ?thesis
    using assms size_owes [of rw "workers s"]
    by (cases "rwHold s") (auto simp: account_def proc_inv_def chan_ok_def fan_ok_def enriched_def)
qed

subsection \<open>Work left\<close>

text \<open>An upper bound on the steps left before the pipeline needs its environment again.\<close>

definition weight :: "worker \<Rightarrow> nat" where
  "weight w = (case w of Idle \<Rightarrow> 1 | Publishing e v \<Rightarrow> 2 + 3 * wants_count v | Stopped \<Rightarrow> 0)"

definition work :: "'r proc \<Rightarrow> nat" where
  "work s = 13 * length (batch s) + 12 * length (Buf (jobs (pool s))) + sum_list (map weight (workers s)) +
     2 * (length (Buf (orderBook (fan s))) + length (Buf (redisWriter (fan s))) + length (Buf (broadcast (fan s)))) +
     length (in_hand rw s) + of_bool (consuming s) + of_bool (obOn s) + of_bool (rwOn s) + of_bool (bcOn s)"

definition from_outside :: "label \<Rightarrow> bool" where
  "from_outside l = (case l of Cancel \<Rightarrow> True | Polled _ \<Rightarrow> True | _ \<Rightarrow> False)"

lemma weight_simps [simp]:
  "weight Idle = 1" "weight Stopped = 0" "weight (Publishing e v) = 2 + 3 * wants_count v"
  "wants_count all_wants = 3"
  by (simp_all add: weight_def wants_count_def all_wants_def)

lemma weights_update:
  "i < length ws \<Longrightarrow>
     sum_list (map weight (ws[i := x])) + weight (ws ! i) = sum_list (map weight ws) + weight x"
proof (induction ws arbitrary: i)
  case (Cons w ws)
  then show ?case by (cases i) auto
qed simp

lemma Turn_room:
  "Turn w' f' \<in> set (publish_turn ctx e w f) \<Longrightarrow>
     length (Buf (orderBook f')) + length (Buf (redisWriter f')) + length (Buf (broadcast f')) =
     Suc (length (Buf (orderBook f)) + length (Buf (redisWriter f)) + length (Buf (broadcast f)))"
  unfolding Turn_iff by (elim disjE) simp_all

lemma work_step:
  assumes "proc_step client s l t" "\<not> from_outside l"
  shows "work t < work s"
  using assms(1)
proof (cases rule: proc_step.cases)
  case (take i e p)
  with weights_update [of i "workers s" "Publishing (enrich metadata e) all_wants"] show ?thesis
    by (auto simp: work_def runWorker_iff chan_recv_eq)
next
  case (deliver i e w w' f)
  with weights_update [of i "workers s" "Publishing e w'"] Turn_count [OF deliver(6)] Turn_room [OF deliver(6)]
  show ?thesis by (auto simp: work_def)
next
  case (finish i e w)
  with weights_update [of i "workers s" Idle] show ?thesis by (auto simp: work_def)
next
  case (abort i e w err)
  with weights_update [of i "workers s" Idle] show ?thesis by (auto simp: work_def)
next
  case (worker_stop i)
  with weights_update [of i "workers s" Stopped] show ?thesis by (auto simp: work_def)
qed (use assms(2) in \<open>auto simp: work_def from_outside_def turn_iffs chan_recv_eq\<close>)


subsection \<open>No step left\<close>

definition quiet :: "'r redis_client \<Rightarrow> 'r proc \<Rightarrow> bool" where
  "quiet client s = (\<forall>l t. proc_step client s l t \<longrightarrow> from_outside l)"

definition sized :: "'r proc \<Rightarrow> bool" where
  "sized s = (workers s \<noteq> [] \<and> 0 < Cap (jobs (pool s)) \<and> 0 < Cap (orderBook (fan s)) \<and>
     0 < Cap (redisWriter (fan s)) \<and> 0 < Cap (broadcast (fan s)))"

definition drained :: "'r proc \<Rightarrow> bool" where
  "drained s = (batch s = [] \<and> Buf (jobs (pool s)) = [] \<and> list_all (\<lambda>w. w = Idle) (workers s) \<and>
     Buf (orderBook (fan s)) = [] \<and> Buf (redisWriter (fan s)) = [] \<and> rwHold s = None \<and> Buf (broadcast (fan s)) = [])"

lemma sized_init: "sized (proc_init n m r)"
  by (auto simp: sized_def proc_init_def NewFanOut_def Let_def NewWorkerPool_fields defaultFanOutBuffer_def)

lemma sized_reach: "proc_reach client s0 s \<Longrightarrow> sized s0 \<Longrightarrow> sized s"
  by (drule sizes_reach) (simp add: sized_def flip: length_greater_0_conv)

lemma recv_ready: "Buf c \<noteq> [] \<Longrightarrow> \<exists>x c'. chan_recv c = Some (x, c')"
  by (cases "chan_recv c") (auto simp: chan_recv_eq)

lemma quiet_step: "quiet client s \<Longrightarrow> proc_step client s l t \<Longrightarrow> \<not> from_outside l \<Longrightarrow> False"
  by (auto simp: quiet_def)

lemma quiet_sinks:
  assumes q: "quiet client s" and on: "obOn s" "rwOn s" "bcOn s"
  shows "Buf (orderBook (fan s)) = []" "Buf (redisWriter (fan s)) = []" "Buf (broadcast (fan s)) = []" "rwHold s = None"
proof -
  show hold: "rwHold s = None"
    using quiet_step [OF q rw_write [OF on(2)]] by (cases "rwHold s") (auto simp: from_outside_def)
  show "Buf (orderBook (fan s)) = []"
  proof (rule ccontr)
    assume "Buf (orderBook (fan s)) \<noteq> []"
    then obtain e c where "chan_recv (orderBook (fan s)) = Some (e, c)" using recv_ready by blast
    then show False
      using quiet_step [OF q ob_apply [OF on(1), of e c "Apply e (books s)"]]
      by (simp add: OrderBook_Run_iff from_outside_def)
  qed
  show "Buf (redisWriter (fan s)) = []"
  proof (rule ccontr)
    assume "Buf (redisWriter (fan s)) \<noteq> []"
    then obtain e c where "chan_recv (redisWriter (fan s)) = Some (e, c)" using recv_ready by blast
    then show False
      using quiet_step [OF q rw_take [OF on(2) hold, of c e]] by (simp add: RedisWriter_Run_iff from_outside_def)
  qed
  show "Buf (broadcast (fan s)) = []"
  proof (rule ccontr)
    assume "Buf (broadcast (fan s)) \<noteq> []"
    then obtain e c where "chan_recv (broadcast (fan s)) = Some (e, c)" using recv_ready by blast
    then show False
      using quiet_step [OF q bc_drain [OF on(3), of e c]] by (simp add: drainSink_iff from_outside_def)
  qed
qed

lemma quiet_worker:
  assumes q: "quiet client s" and i: "i < length (workers s)"
    and room: "can_send (orderBook (fan s))" "can_send (redisWriter (fan s))" "can_send (broadcast (fan s))"
  shows "\<not> (\<exists>e w. workers s ! i = Publishing e w)"
proof
  assume "\<exists>e w. workers s ! i = Publishing e w"
  then obtain e w where w: "workers s ! i = Publishing e w" by blast
  show False
  proof (cases "wants_any w")
    case True
    have "\<exists>w' f'. Turn w' f' \<in> set (publish_turn (pctx s) e w (fan s))"
      using True room by (auto simp: wants_any_def Turn_iff)
    then show False using quiet_step [OF q deliver [OF i w True]] by (auto simp: from_outside_def)
  next
    case False
    then show False using quiet_step [OF q finish [OF i w False]] by (simp add: from_outside_def)
  qed
qed

lemma quiet_batch:
  assumes q: "quiet client s" and on: "consuming s" and ready: "\<And>e. Submit (pctx s) e (pool s) \<noteq> []"
  shows "batch s = []"
proof (cases "batch s")
  case (Cons r rs)
  show ?thesis
  proof (cases "unmarshal_trade (RValue r)")
    case None
    then show ?thesis using quiet_step [OF q skip [OF on Cons None]] by (simp add: from_outside_def)
  next
    case (Some e)
    obtain p err where p: "(p, err) \<in> set (Submit (pctx s) e (pool s))"
      using ready [of e] by (cases "Submit (pctx s) e (pool s)") auto
    show ?thesis
    proof (cases err)
      case None
      then show ?thesis
        using quiet_step [OF q submitted [OF on Cons Some]] p by (auto simp: from_outside_def)
    next
      case (Some _)
      then show ?thesis
        using quiet_step [OF q refused [OF on Cons \<open>unmarshal_trade (RValue r) = Some e\<close>]] p
        by (auto simp: from_outside_def)
    qed
  qed
qed simp

text \<open>A live pipeline has a step of its own to take until it is drained.\<close>

lemma quiet_live:
  assumes q: "quiet client s" and inv: "proc_inv s" and z: "sized s" and live: "pctx s = None"
  shows "drained s"
proof -
  have on: "consuming s" "obOn s" "rwOn s" "bcOn s" "Stopped \<notin> set (workers s)"
    using inv live by (simp_all add: proc_inv_def)
  note sinks = quiet_sinks [OF q on(2-4)]
  have idle: "workers s ! i = Idle" if "i < length (workers s)" for i
    using quiet_worker [OF q that] sinks z on(5) nth_mem [OF that]
    by (cases "workers s ! i") (auto simp: sized_def can_send_def)
  have jobs: "Buf (jobs (pool s)) = []"
  proof (rule ccontr)
    assume "Buf (jobs (pool s)) \<noteq> []"
    then obtain e c where "chan_recv (jobs (pool s)) = Some (e, c)" using recv_ready by blast
    moreover have "0 < length (workers s)" using z by (simp add: sized_def)
    ultimately show False
      using quiet_step [OF q take [of 0 s e "(pool s)\<lparr>jobs := c\<rparr>"]] idle [of 0]
      by (auto simp: runWorker_iff from_outside_def)
  qed
  then have "batch s = []"
    using z by (intro quiet_batch [OF q on(1)]) (simp add: Submit_def send_case_def can_send_def sized_def)
  with sinks jobs idle show ?thesis by (auto simp: drained_def list_all_length)
qed

text \<open>After cancellation some goroutine can always go on until all have returned.\<close>

lemma quiet_cancelled:
  assumes q: "quiet client s" and cancelled: "pctx s \<noteq> None"
  shows "all_stopped s"
proof -
  obtain err where err: "pctx s = Some err" using cancelled by blast
  have "\<not> obOn s" using quiet_step [OF q ob_stop] cancelled by (auto simp: OrderBook_Run_iff from_outside_def)
  moreover have "\<not> rwOn s"
    using quiet_step [OF q rw_stop] quiet_step [OF q rw_write] cancelled
    by (cases "rwHold s") (auto simp: RedisWriter_Run_iff from_outside_def)
  moreover have "\<not> bcOn s" using quiet_step [OF q bc_stop] cancelled by (auto simp: drainSink_iff from_outside_def)
  moreover have "\<not> consuming s"
  proof
    assume c: "consuming s"
    then have "batch s = []" using cancelled by (intro quiet_batch [OF q c]) (auto simp: Submit_def)
    then show False using quiet_step [OF q consumer_stop [OF c]] cancelled by (simp add: from_outside_def)
  qed
  moreover have "workers s ! i = Stopped" if i: "i < length (workers s)" for i
  proof (cases "workers s ! i")
    case Idle
    then show ?thesis
      using quiet_step [OF q worker_stop [OF i Idle]] cancelled by (simp add: runWorker_iff from_outside_def)
  next
    case (Publishing e w)
    then show ?thesis
      using quiet_step [OF q abort [OF i Publishing, of err]] quiet_step [OF q finish [OF i Publishing]] err
      by (cases "wants_any w") (simp_all add: Failed_iff from_outside_def)
  qed
  ultimately show ?thesis by (simp add: all_stopped_def list_all_length)
qed

lemma drained_handled:
  assumes "proc_inv s" "drained s" "aborted s = []"
  shows "mset (obSeen s) = enriched (submitted s) \<and> mset (rwSeen s) = enriched (submitted s) \<and>
         mset (bcSeen s) = enriched (submitted s)"
proof -
  have "owes want (workers s) = {#}" for want
    using assms(2) unfolding drained_def list_all_iff
    by (metis owes_idle replicate_length_same)
  then show ?thesis
    using assms by (simp add: proc_inv_def balanced_def account_def drained_def)
qed

end
