(* ===== verification/Pipeline.thy ===== *)
theory Pipeline
  imports Processor
begin

text \<open>
  What the concurrent processor guarantees and what it does not: the ledger of trades at each
  sink, backpressure, draining and shutdown for every schedule; order with a single worker; and
  two schedules, one that reorders trades of a symbol with two workers and one that ends a
  shutdown with a committed trade that no sink ever received.
\<close>

section \<open>One worker keeps the order\<close>

definition held :: "(wants \<Rightarrow> bool) \<Rightarrow> worker \<Rightarrow> TradeEvent list" where
  "held want w = (case w of Publishing e v \<Rightarrow> (if want v then [e] else []) | _ \<Rightarrow> [])"

text \<open>The trades of one sink in the order the pipeline holds them, oldest first.\<close>

definition queue_line ::
  "(wants \<Rightarrow> bool) \<Rightarrow> (FanOut \<Rightarrow> TradeEvent chan) \<Rightarrow> ('r proc \<Rightarrow> TradeEvent list) \<Rightarrow> 'r proc \<Rightarrow> TradeEvent list" where
  "queue_line want sink seen s =
     seen s @ in_hand want s @ Buf (sink (fan s)) @ held want (workers s ! 0) @ map (enrich metadata) (Buf (jobs (pool s)))"

lemma held_simps [simp]:
  "held want Idle = []" "held want Stopped = []"
  "held want (Publishing e v) = (if want v then [e] else [])"
  by (simp_all add: held_def)

lemma queue_line_step:
  assumes st: "sink_triple want sink (seen :: 'r proc \<Rightarrow> _)" and step: "proc_step client s l t"
    and one: "length (workers s) = 1" and ok: "aborted t = []"
    and eq: "queue_line want sink seen s = map (enrich metadata) (submitted s)"
  shows "queue_line want sink seen t = map (enrich metadata) (submitted t)"
  using step
proof (cases rule: proc_step.cases)
  case (take i e p)
  have "want all_wants" using st by (auto simp: sink_triple_def all_wants_def)
  with take one eq st show ?thesis
    by (auto simp: queue_line_def sink_triple_def runWorker_iff chan_recv_eq)
next
  case (deliver i e w w' f)
  have [simp]: "i = 0" using deliver(3) one by simp
  from deliver one eq st show ?thesis
    by (auto simp: queue_line_def sink_triple_def Turn_iff)
next
  case (finish i e w)
  then show ?thesis using one eq st by (auto simp: queue_line_def sink_triple_def wants_any_def)
next
  case (abort i e w err)
  then show ?thesis using ok by simp
next
  case (worker_stop i)
  then show ?thesis using one eq st by (auto simp: queue_line_def sink_triple_def)
next
  case (submitted r rs e p)
  then show ?thesis using eq st by (auto simp: queue_line_def sink_triple_def Submit_iff)
next
  case (refused r rs e p err)
  then show ?thesis using eq st by (auto simp: queue_line_def sink_triple_def Submit_iff)
qed (use eq st in \<open>auto simp: queue_line_def sink_triple_def chan_recv_eq RedisWriter_Run_iff\<close>)

lemma aborted_back: "proc_step client s l t \<Longrightarrow> aborted t = [] \<Longrightarrow> aborted s = []"
  by (cases rule: proc_step.cases) auto

lemma queue_line_reach:
  "proc_reach client (proc_init 1 m r) s \<Longrightarrow> sink_triple want sink seen \<Longrightarrow> aborted s = [] \<Longrightarrow>
     queue_line want sink seen s = map (enrich metadata) (submitted s)"
proof (induction rule: proc_reach.induct)
  case reach_start
  then show ?case
    by (auto simp: queue_line_def proc_init_def sink_triple_def NewFanOut_def Let_def NewWorkerPool_fields)
next
  case (reach_step s l t)
  have "length (workers s) = 1"
    using sizes_reach [OF reach_step(1)] by (simp add: proc_init_def NewWorkerPool_fields)
  with reach_step aborted_back show ?case by (blast intro: queue_line_step)
qed


section \<open>Two schedules\<close>

lemma reach_trans: "proc_reach client t u \<Longrightarrow> proc_reach client s t \<Longrightarrow> proc_reach client s u"
  by (induction rule: proc_reach.induct) (auto intro: reach_step)

lemma stop_workers:
  assumes "pctx s \<noteq> None" "workers s = replicate n Idle" "k \<le> n"
  shows "proc_reach client s (s\<lparr>workers := replicate k Stopped @ replicate (n - k) Idle\<rparr>)"
  using assms(3)
proof (induction k)
  case 0
  have "s\<lparr>workers := replicate n Idle\<rparr> = s" using assms(2) by simp
  then show ?case using reach_start [of client s] by simp
next
  case (Suc k)
  let ?s = "s\<lparr>workers := replicate k Stopped @ replicate (n - k) Idle\<rparr>"
  have k: "replicate (n - k) Idle = Idle # replicate (n - Suc k) Idle"
    using Suc.prems by (metis Suc_diff_Suc Suc_le_lessD replicate_Suc)
  have "proc_step client ?s (WorkerStop k) (?s\<lparr>workers := (workers ?s)[k := Stopped]\<rparr>)"
    using Suc.prems assms(1) k by (intro worker_stop) (simp_all add: nth_append runWorker_iff)
  moreover have "(workers ?s)[k := Stopped] = replicate (Suc k) Stopped @ replicate (n - Suc k) Idle"
    using k by (simp add: list_update_append replicate_app_Cons_same)
  ultimately show ?case using Suc by (auto intro: reach_step)
qed

lemma shutdown_run:
  assumes dec: "unmarshal_trade (RValue rec) = Some e"
  shows "\<exists>s. proc_reach client (proc_init n m r) s \<and> all_stopped s \<and> pmarks s = [rec] \<and>
     submitted s = [e] \<and> obSeen s = [] \<and> rwSeen s = [] \<and> bcSeen s = [] \<and> aborted s = [] \<and> redis s = r \<and>
     Buf (jobs (pool s)) = [e] \<and> Buf (orderBook (fan s)) = [] \<and> Buf (redisWriter (fan s)) = [] \<and> rwHold s = None \<and>
     Buf (broadcast (fan s)) = []"
proof -
  let ?N = "numWorkers (NewWorkerPool n)" and ?s0 = "proc_init n m r"
  let ?p = "(NewWorkerPool n)\<lparr>jobs := chan_send e (jobs (NewWorkerPool n))\<rparr>"
  let ?s1 = "?s0\<lparr>batch := [rec]\<rparr>"
  let ?s2 = "?s1\<lparr>batch := [], pmarks := pmarks ?s1 @ [rec], pool := ?p, submitted := submitted ?s1 @ [e]\<rparr>"
  let ?s3 = "?s2\<lparr>pctx := ctx_canceled\<rparr>"
  let ?s4 = "?s3\<lparr>consuming := False\<rparr>"
  let ?s5 = "?s4\<lparr>obOn := False\<rparr>"
  let ?s6 = "?s5\<lparr>rwOn := False\<rparr>"
  let ?s7 = "?s6\<lparr>bcOn := False\<rparr>"
  let ?s8 = "?s7\<lparr>workers := replicate ?N Stopped @ replicate (?N - ?N) Idle\<rparr>"
  have room: "can_send (jobs (NewWorkerPool n))" by (auto simp: can_send_def NewWorkerPool_fields)
  have "proc_step client ?s0 (Polled [rec]) ?s1" by (rule polled) (simp_all add: proc_init_def)
  moreover have "proc_step client ?s1 Submitted ?s2"
    by (rule submitted [OF _ _ dec]) (simp_all add: proc_init_def Submit_iff room)
  moreover have "proc_step client ?s2 Cancel ?s3" by (rule cancel) (simp add: proc_init_def)
  moreover have "proc_step client ?s3 ConsumerStop ?s4" by (rule consumer_stop) (simp_all add: proc_init_def)
  moreover have "proc_step client ?s4 ObStop ?s5" by (rule ob_stop) (simp_all add: proc_init_def OrderBook_Run_iff)
  moreover have "proc_step client ?s5 RwStop ?s6" by (rule rw_stop) (simp_all add: proc_init_def RedisWriter_Run_iff)
  moreover have "proc_step client ?s6 BcStop ?s7" by (rule bc_stop) (simp_all add: proc_init_def drainSink_iff)
  ultimately have "proc_reach client ?s0 ?s7" by (meson reach_start reach_step)
  moreover have "proc_reach client ?s7 ?s8" by (rule stop_workers) (simp_all add: proc_init_def)
  ultimately have "proc_reach client ?s0 ?s8" using reach_trans by blast
  moreover have "all_stopped ?s8" by (simp add: all_stopped_def list_all_iff)
  ultimately show ?thesis
    by (intro exI [of _ ?s8]) (simp add: proc_init_def NewFanOut_def Let_def NewWorkerPool_fields)
qed


text \<open>The worker's turn that hands its trade to the order-book sink, and the sink applying it.\<close>

lemma hand_over:
  assumes i: "i < length (workers s)" "workers s ! i = Publishing e all_wants"
    and room: "Buf (orderBook (fan s)) = []" "0 < Cap (orderBook (fan s))" and on: "obOn s"
  shows "proc_reach client s (s\<lparr>workers := (workers s)[i := Publishing e (all_wants\<lparr>ob := False\<rparr>)],
       books := Apply e (books s), obSeen := obSeen s @ [e]\<rparr>)"
proof -
  let ?c = "orderBook (fan s)"
  let ?f1 = "(fan s)\<lparr>orderBook := chan_send e ?c\<rparr>"
  let ?s1 = "s\<lparr>fan := ?f1, workers := (workers s)[i := Publishing e (all_wants\<lparr>ob := False\<rparr>)]\<rparr>"
  let ?s2 = "?s1\<lparr>fan := (fan ?s1)\<lparr>orderBook := ?c\<rparr>, books := Apply e (books ?s1), obSeen := obSeen ?s1 @ [e]\<rparr>"
  have "proc_step client s (Deliver i) ?s1"
    using room by (intro deliver [OF i]) (simp_all add: wants_any_def all_wants_def Turn_iff can_send_def)
  moreover have "proc_step client ?s1 ObApply ?s2"
    using room on by (intro ob_apply) (simp_all add: chan_recv_eq OrderBook_Run_iff)
  ultimately have "proc_reach client s ?s2" by (meson reach_start reach_step)
  then show ?thesis by simp
qed

lemma reorder_run:
  assumes dec: "unmarshal_trade (RValue r1) = Some e1" "unmarshal_trade (RValue r2) = Some e2"
    and n: "2 \<le> n"
  shows "\<exists>s. proc_reach client (proc_init n m r) s \<and> pctx s = None \<and> pmarks s = [r1, r2] \<and>
     submitted s = [e1, e2] \<and> obSeen s = [enrich metadata e2, enrich metadata e1]"
proof -
  let ?P = "NewWorkerPool n" and ?s0 = "proc_init n m r"
  let ?c0 = "jobs ?P"
  let ?p2 = "?P\<lparr>jobs := chan_send e1 ?c0\<rparr>" and ?p3 = "?P\<lparr>jobs := chan_send e2 (chan_send e1 ?c0)\<rparr>"
  let ?p4 = "?P\<lparr>jobs := chan_send e2 ?c0\<rparr>"
  let ?w = "replicate (nat n) Idle" and ?q1 = "Publishing (enrich metadata e1) all_wants"
    and ?q2 = "Publishing (enrich metadata e2) all_wants"
  let ?s1 = "?s0\<lparr>batch := [r1, r2]\<rparr>"
  let ?s2 = "?s1\<lparr>batch := [r2], pmarks := pmarks ?s1 @ [r1], pool := ?p2, submitted := submitted ?s1 @ [e1]\<rparr>"
  let ?s3 = "?s2\<lparr>batch := [], pmarks := pmarks ?s2 @ [r2], pool := ?p3, submitted := submitted ?s2 @ [e2]\<rparr>"
  let ?s4 = "?s3\<lparr>pool := ?p4, workers := (workers ?s3)[0 := ?q1]\<rparr>"
  let ?s5 = "?s4\<lparr>pool := ?P, workers := (workers ?s4)[1 := ?q2]\<rparr>"
  have cap: "Cap ?c0 = nat n" "Buf ?c0 = []" "numWorkers ?P = nat n"
    using n by (simp_all add: NewWorkerPool_fields)
  have P: "?P\<lparr>jobs := ?c0\<rparr> = ?P" by simp
  have len: "length (workers ?s3) = nat n" "workers ?s3 ! 0 = Idle" "workers ?s3 ! 1 = Idle"
    using n cap by (simp_all add: proc_init_def)
  have "proc_step client ?s0 (Polled [r1, r2]) ?s1" by (rule polled) (simp_all add: proc_init_def)
  moreover have "proc_step client ?s1 Submitted ?s2"
    using n by (intro submitted [OF _ _ dec(1)]) (simp_all add: proc_init_def Submit_iff can_send_def cap)
  moreover have "proc_step client ?s2 Submitted ?s3"
    using n by (intro submitted [OF _ _ dec(2)]) (simp_all add: proc_init_def Submit_iff can_send_def cap)
  moreover have "proc_step client ?s3 (Take 0) ?s4"
    using n len by (intro take) (auto simp: runWorker_iff chan_recv_eq cap intro!: exI [of _ "chan_send e2 ?c0"])
  moreover have "proc_step client ?s4 (Take 1) ?s5"
    using n len by (intro take) (auto simp: runWorker_iff chan_recv_eq cap intro!: exI [of _ ?c0])
  ultimately have r5: "proc_reach client ?s0 ?s5" by (meson reach_start reach_step)
  let ?s6 = "?s5\<lparr>workers := (workers ?s5)[1 := Publishing (enrich metadata e2) (all_wants\<lparr>ob := False\<rparr>)],
      books := Apply (enrich metadata e2) (books ?s5), obSeen := obSeen ?s5 @ [enrich metadata e2]\<rparr>"
  let ?s7 = "?s6\<lparr>workers := (workers ?s6)[0 := Publishing (enrich metadata e1) (all_wants\<lparr>ob := False\<rparr>)],
      books := Apply (enrich metadata e1) (books ?s6), obSeen := obSeen ?s6 @ [enrich metadata e1]\<rparr>"
  have sink: "Buf (orderBook (fan ?s0)) = []" "0 < Cap (orderBook (fan ?s0))" "obOn ?s0"
    using sized_init [of n m r] by (simp_all add: sized_def proc_init_def NewFanOut_def Let_def)
  have "proc_reach client ?s5 ?s6" using n len sink by (intro hand_over) simp_all
  moreover have "proc_reach client ?s6 ?s7" using n len sink by (intro hand_over) simp_all
  ultimately have "proc_reach client ?s0 ?s7" using r5 reach_trans by blast
  then show ?thesis by (intro exI [of _ ?s7]) (simp add: proc_init_def)
qed


section \<open>The consumer's turns are those of dispatch\<close>

text \<open>A state in which the consumer has a record at hand: what \<open>dispatch\<close> does with a handler that
  behaves as one outcome of \<open>Submit\<close> is what the step relation allows.\<close>

lemma dispatch_steps:
  assumes on: "consuming s" "batch s = r # rs"
    and out: "\<And>e. unmarshal_trade (RValue r) = Some e \<Longrightarrow> h e (pool s) \<in> set (Submit (pctx s) e (pool s))"
    and d: "dispatch h r (pool s, pmarks s) = (p, ms)"
  shows "\<exists>l sub. proc_step client s l (s\<lparr>batch := rs, pmarks := ms, pool := p, submitted := sub\<rparr>)"
proof (cases "unmarshal_trade (RValue r)")
  case None
  then have "ms = pmarks s @ [r]" "p = pool s" using d by (simp_all add: dispatch_def)
  then show ?thesis
    using skip [OF on None, of client] by (intro exI [of _ Skip] exI [of _ "submitted s"]) simp
next
  case (Some e)
  obtain p1 err where h: "h e (pool s) = (p1, err)" by (cases "h e (pool s)")
  then have s: "(p1, err) \<in> set (Submit (pctx s) e (pool s))" using out [OF Some] by simp
  show ?thesis
  proof (cases err)
    case None
    then show ?thesis
      using submitted [OF on Some, of p1 client] s h d Some
      by (intro exI [of _ Submitted] exI [of _ "submitted s @ [e]"]) (auto simp: dispatch_def)
  next
    case (Some err1)
    then have "p = p1" "ms = pmarks s" using h d \<open>unmarshal_trade (RValue r) = Some e\<close> by (simp_all add: dispatch_def)
    then show ?thesis
      using refused [OF on \<open>unmarshal_trade (RValue r) = Some e\<close>, of p1 err1 client] s Some
      by (intro exI [of _ Refused] exI [of _ "submitted s"]) simp
  qed
qed

section \<open>Properties\<close>

lemma start_reach: "proc_reach client (proc_init n m r) (proc_init n m r)"
  by (rule reach_start)

lemma quiet_init: "quiet client (proc_init n m r)"
proof -
  have "from_outside l" if "proc_step client (proc_init n m r) l t" for l t
    using that
    by (cases rule: proc_step.cases)
       (auto simp: proc_init_def from_outside_def turn_iffs NewWorkerPool_fields NewFanOut_def Let_def chan_recv_eq)
  then show ?thesis by (simp add: quiet_def)
qed

text \<open>Two records of the raw topic, for the instances below.\<close>

definition rec1 :: kgo_record where
  "rec1 = \<lparr>RTopic = TopicTradesRaw, RPartition = 0, ROffset = 7, RKey = ''BTCUSDT'',
     RValue = ''{\"symbol\":\"BTCUSDT\",\"trade_id\":1,\"side\":\"BUY\"}''\<rparr>"

definition rec2 :: kgo_record where
  "rec2 = \<lparr>RTopic = TopicTradesRaw, RPartition = 0, ROffset = 8, RKey = ''BTCUSDT'',
     RValue = ''{\"symbol\":\"BTCUSDT\",\"trade_id\":2,\"side\":\"BUY\"}''\<rparr>"

definition btc1 :: TradeEvent where
  "btc1 = zero_trade\<lparr>Symbol := ''BTCUSDT'', Side := SideBuy, TradeID := 1\<rparr>"

definition btc2 :: TradeEvent where
  "btc2 = btc1\<lparr>TradeID := 2\<rparr>"

definition mem0 :: mem_redis where
  "mem0 = \<lparr>kv = Map.empty, calls = []\<rparr>"

lemma rec1_decodes: "unmarshal_trade (RValue rec1) = Some btc1"
  by code_simp

lemma rec2_decodes: "unmarshal_trade (RValue rec2) = Some btc2"
  by code_simp

text \<open>Left to itself a live pipeline comes to rest, and no record of the batch gets lost on the way.\<close>

lemma own_step_batch:
  assumes "proc_step client s l t" "\<not> from_outside l" "pctx s = None"
  shows "pctx t = None \<and> pmarks t @ batch t = pmarks s @ batch s"
  using assms by (cases rule: proc_step.cases) (auto simp: from_outside_def Submit_iff)

lemma quiesces:
  assumes "pctx s = None"
  shows "\<exists>t. proc_reach client s t \<and> quiet client t \<and> pctx t = None \<and> pmarks t @ batch t = pmarks s @ batch s"
  using assms
proof (induction "work s" arbitrary: s rule: less_induct)
  case less
  show ?case
  proof (cases "quiet client s")
    case True
    then show ?thesis using less(2) reach_start by blast
  next
    case False
    then obtain l u where l: "proc_step client s l u" "\<not> from_outside l" by (auto simp: quiet_def)
    note u = own_step_batch [OF l less(2)]
    obtain t where t: "proc_reach client u t" "quiet client t" "pctx t = None" "pmarks t @ batch t = pmarks u @ batch u"
      using less(1) [OF work_step [OF l] conjunct1 [OF u]] by blast
    have "proc_reach client s t" using reach_trans [OF t(1) reach_step [OF reach_start l(1)]] .
    with t u show ?thesis by auto
  qed
qed

lemma polled_quiesces:
  obtains s where "proc_reach client (proc_init n m r) s" "quiet client s" "pctx s = None" "pmarks s @ batch s = rs"
proof -
  let ?s1 = "(proc_init n m r)\<lparr>batch := rs\<rparr>"
  have "proc_step client (proc_init n m r) (Polled rs) ?s1" by (rule polled) (simp_all add: proc_init_def)
  then have s1: "proc_reach client (proc_init n m r) ?s1" by (rule reach_step [OF reach_start])
  obtain s where s: "proc_reach client ?s1 s" "quiet client s" "pctx s = None" "pmarks s @ batch s = rs"
    using quiesces [of ?s1 client] by (auto simp: proc_init_def)
  show thesis by (rule that [OF reach_trans [OF s(1) s1] s(2-4)])
qed

lemmas init_facts = proc_inv_reach [OF _ proc_inv_init] sized_reach [OF _ sized_init]



text \<open>C23. Backpressure: while the context is live the pipeline never holds more unfinished
  trades for the Redis writer than the job buffer, one per worker, the sink's channel and the one
  the writer has received and is writing, so with pool size \<open>n\<close> and fan-out buffer \<open>m\<close> the
  completed writes are at most \<open>2 n + m + 1\<close> trades behind the consumer.\<close>

theorem backpressure_bound:
  assumes "proc_reach client (proc_init n m r) s" "pctx s = None" "0 < n" "0 < m"
  shows "int (length (submitted s)) \<le> int (length (rwSeen s)) + 2 * n + m + 1"
  using in_flight_bound [OF init_facts(1) [OF assms(1)] assms(2)] sizes_reach [OF assms(1)] assms(3,4)
  by (simp add: proc_init_def NewFanOut_def Let_def NewWorkerPool_fields)

theorem backpressure_bound_witness:
  "\<exists>s. proc_reach (mem_client {} (Errorf [])) (proc_init 2 3 mem0) s \<and> pctx s = None \<and>
     submitted s = [btc1, btc2] \<and> 2 \<le> int (length (rwSeen s)) + 2 * 2 + 3 + 1"
proof -
  obtain s where s: "proc_reach (mem_client {} (Errorf [])) (proc_init 2 3 mem0) s" "pctx s = None"
      "submitted s = [btc1, btc2]"
    using reorder_run [OF rec1_decodes rec2_decodes, of 2 "mem_client {} (Errorf [])" 3 mem0] by auto
  then show ?thesis using backpressure_bound [OF s(1,2)] by (intro exI [of _ s]) simp
qed

text \<open>C3. Draining: every step the goroutines take by themselves lowers a natural-number
  measure, so between two polls only finitely many follow, in any schedule; and when none is
  left and the context is live, the polled batch has been dispatched completely and each of
  the three sinks has handled every decoded trade of every marked record, enriched, exactly
  once. No sink, worker or full buffer can block the pipeline for ever.\<close>

theorem pipeline_drains:
  assumes "proc_reach client (proc_init n m r) s"
  shows "(\<forall>l t. proc_step client s l t \<and> \<not> from_outside l \<longrightarrow> work t < work s) \<and>
    (quiet client s \<and> pctx s = None \<longrightarrow>
       batch s = [] \<and> mset (obSeen s) = enriched (decoded (pmarks s)) \<and>
       mset (rwSeen s) = enriched (decoded (pmarks s)) \<and> mset (bcSeen s) = enriched (decoded (pmarks s)))"
proof (intro conjI impI)
  show "\<forall>l t. proc_step client s l t \<and> \<not> from_outside l \<longrightarrow> work t < work s" using work_step by blast
  have inv: "proc_inv s" "sized s" using init_facts [OF assms] by auto
  assume q: "quiet client s \<and> pctx s = None"
  then have d: "drained s" using quiet_live inv by blast
  then show "batch s = []" by (simp add: drained_def)
  have "aborted s = []" "decoded (pmarks s) = submitted s" using inv(1) q by (simp_all add: proc_inv_def)
  then show "mset (obSeen s) = enriched (decoded (pmarks s))" "mset (rwSeen s) = enriched (decoded (pmarks s))"
    "mset (bcSeen s) = enriched (decoded (pmarks s))"
    using drained_handled [OF inv(1) d] by simp_all
qed

theorem pipeline_drains_witness:
  "\<exists>s. proc_reach (mem_client {} (Errorf [])) (proc_init 4 0 mem0) s \<and> quiet (mem_client {} (Errorf [])) s \<and>
     batch s = [] \<and> mset (rwSeen s) = {#enrich metadata btc1, enrich metadata btc2#}"
proof -
  obtain s where s: "proc_reach (mem_client {} (Errorf [])) (proc_init 4 0 mem0) s" "quiet (mem_client {} (Errorf [])) s"
    "pctx s = None" "pmarks s @ batch s = [rec1, rec2]" by (rule polled_quiesces)
  with pipeline_drains [OF s(1)] rec1_decodes rec2_decodes show ?thesis
    by (intro exI [of _ s]) (simp add: decoded_def List.map_filter_def)
qed

text \<open>C24. Shutdown ends: once the context is done nothing comes from outside any more, every
  step lowers the measure, and when no step is left all goroutines have returned, so
  \<open>eg.Wait\<close> returns whatever the buffers hold.\<close>

theorem shutdown_terminates:
  assumes "pctx s \<noteq> None" "proc_step client s l t"
  shows "pctx t \<noteq> None \<and> work t < work s \<and> (quiet client t \<longrightarrow> all_stopped t)"
proof -
  have "\<not> from_outside l" "pctx t = pctx s"
    using assms(2,1) by (cases rule: proc_step.cases; simp add: from_outside_def)+
  then show ?thesis using work_step [OF assms(2)] assms(1) quiet_cancelled [of client t] by simp
qed

theorem shutdown_terminates_witness:
  "work ((proc_init 1 1 mem0)\<lparr>pctx := ctx_canceled, obOn := False\<rparr>)
     < work ((proc_init 1 1 mem0)\<lparr>pctx := ctx_canceled\<rparr>)"
proof -
  let ?s = "(proc_init 1 1 mem0)\<lparr>pctx := ctx_canceled\<rparr>"
  have "proc_step (mem_client {} (Errorf [])) ?s ObStop (?s\<lparr>obOn := False\<rparr>)"
    by (rule ob_stop) (simp_all add: proc_init_def OrderBook_Run_iff)
  then have "work (?s\<lparr>obOn := False\<rparr>) < work ?s" using shutdown_terminates [of ?s] by simp
  then show ?thesis by simp
qed

text \<open>With a single worker the order of trades is kept end to end: for each sink, what it
  has handled, followed by what waits in its channel, the worker's trade and the job buffer, is
  the sequence of trades handed to the pool, as long as no delivery was given up.\<close>

theorem one_worker_keeps_order:
  assumes "proc_reach client (proc_init 1 m r) s" "aborted s = []"
  shows "queue_line ob orderBook obSeen s = map (enrich metadata) (submitted s) \<and>
    queue_line rw redisWriter rwSeen s = map (enrich metadata) (submitted s) \<and>
    queue_line bc broadcast bcSeen s = map (enrich metadata) (submitted s)"
  using queue_line_reach [OF assms(1) _ assms(2)] by (simp add: sink_triple_def)

theorem one_worker_keeps_order_witness:
  "\<exists>s. proc_reach (mem_client {} (Errorf [])) (proc_init 1 0 mem0) s \<and> all_stopped s \<and>
     queue_line ob orderBook obSeen s = [enrich metadata btc1]"
proof -
  obtain s where s: "proc_reach (mem_client {} (Errorf [])) (proc_init 1 0 mem0) s" "aborted s = []" "all_stopped s"
      "submitted s = [btc1]"
    using shutdown_run [OF rec1_decodes, of "mem_client {} (Errorf [])" 1 0 mem0] by blast
  then show ?thesis using one_worker_keeps_order [OF s(1,2)] by (intro exI [of _ s]) simp
qed

text \<open>C26. With two or more workers the order of trades is not kept: for any two records there is a schedule, with a
  live context, after which both are marked in their order and the order-book sink has
  received the second trade before the first.\<close>

theorem workers_can_reorder:
  assumes "unmarshal_trade (RValue r1) = Some e1" "unmarshal_trade (RValue r2) = Some e2" "2 \<le> n"
  shows "\<exists>s. proc_reach client (proc_init n m r) s \<and> pctx s = None \<and> pmarks s = [r1, r2] \<and>
     submitted s = [e1, e2] \<and> obSeen s = [enrich metadata e2, enrich metadata e1]"
  using reorder_run [OF assms] .

theorem workers_can_reorder_witness:
  "\<exists>s. proc_reach (mem_client {} (Errorf [])) (proc_init 100 256 mem0) s \<and> pmarks s = [rec1, rec2] \<and>
     obSeen s = [enrich metadata btc2, enrich metadata btc1]"
  using workers_can_reorder [OF rec1_decodes rec2_decodes, of 100 "mem_client {} (Errorf [])" 256 mem0] by auto

text \<open>C27. A clean shutdown can lose a trade although its record is marked for commit: for every
  pool size, buffer size and decodable record there is a schedule at whose end all goroutines
  have returned, the record is marked, no sink has received its trade and no sink's channel
  holds it, nor was it given up by a worker: it is still in the job buffer, alone.\<close>

theorem shutdown_can_lose_marked:
  assumes "unmarshal_trade (RValue rec) = Some e"
  shows "\<exists>s. proc_reach client (proc_init n m r) s \<and> all_stopped s \<and> pmarks s = [rec] \<and>
     obSeen s = [] \<and> rwSeen s = [] \<and> bcSeen s = [] \<and> aborted s = [] \<and> redis s = r \<and>
     Buf (jobs (pool s)) = [e] \<and> Buf (orderBook (fan s)) = [] \<and> Buf (redisWriter (fan s)) = [] \<and> rwHold s = None \<and>
     Buf (broadcast (fan s)) = []"
  using shutdown_run [OF assms, of client n m r] by blast

theorem shutdown_can_lose_marked_witness:
  "\<exists>s. proc_reach (mem_client {} (Errorf [])) (proc_init 100 256 mem0) s \<and> all_stopped s \<and>
     pmarks s = [rec1] \<and> rwSeen s = [] \<and> redis s = mem0 \<and> Buf (jobs (pool s)) = [btc1]"
  using shutdown_can_lose_marked [OF rec1_decodes, of "mem_client {} (Errorf [])" 100 256 mem0] by blast

end
