(* ===== verification/Retry.thy ===== *)
theory Retry
  imports Prelude
begin

text \<open>
  Jittered exponential backoff and the reconnect loop (\<open>shared/retry/backoff.go\<close>). Durations are
  signed 64-bit words, so the doubling loop and the \<open>+ 1\<close> of the jitter are modelled with
  wrap-around; \<open>rand.Int64N\<close> panics on a non-positive bound, which is the result \<open>None\<close>. The
  random source is a parameter. The lemmas give the closed form of the ceiling and the range in
  which no arithmetic wraps, bound every delay, and describe the reconnect loop on any sequence
  of sessions. The interface other loops rely on is the locale \<open>delay_policy\<close>.
\<close>

section \<open>Model\<close>

record Backoff =
  Base :: duration
  Max :: duration
  ResetAfter :: duration
  attempt :: nat

definition DefaultBase :: duration where "DefaultBase = 1 * Second"
definition DefaultMax :: duration where "DefaultMax = 30 * Second"
definition DefaultResetAfter :: duration where "DefaultResetAfter = 2 * Minute"

definition NewBackoff :: Backoff where
  "NewBackoff = \<lparr>Base = DefaultBase, Max = DefaultMax, ResetAfter = DefaultResetAfter, attempt = 0\<rparr>"

text \<open>The loop of \<open>ceiling\<close>, with the iterations left.\<close>

fun ceiling_loop :: "nat \<Rightarrow> duration \<Rightarrow> duration \<Rightarrow> duration" where
  "ceiling_loop 0 d mx = d"
| "ceiling_loop (Suc n) d mx = (if d <s mx then ceiling_loop n (d * 2) mx else d)"

definition backoff_ceiling :: "Backoff \<Rightarrow> duration" where
  "backoff_ceiling b =
     (let d = ceiling_loop (attempt b) (Base b) (Max b) in if d <s Max b then d else Max b)"

text \<open>The random source gives some value for every positive bound.\<close>

type_synonym rng = "int64 \<Rightarrow> int64"

definition Int64N :: "rng \<Rightarrow> int64 \<Rightarrow> int64 option" where
  "Int64N rnd n = (if n \<le>s 0 then None else Some (rnd n))"

definition jitter :: "rng \<Rightarrow> duration \<Rightarrow> duration option" where
  "jitter rnd d = Int64N rnd (d + 1)"

definition Next :: "rng \<Rightarrow> Backoff \<Rightarrow> Backoff \<times> duration option" where
  "Next rnd b = (b\<lparr>attempt := Suc (attempt b)\<rparr>, jitter rnd (backoff_ceiling b))"

definition Observe :: "duration \<Rightarrow> Backoff \<Rightarrow> Backoff" where
  "Observe uptime b = (if ResetAfter b \<le>s uptime then b\<lparr>attempt := 0\<rparr> else b)"

definition Attempt :: "Backoff \<Rightarrow> nat" where
  "Attempt b = attempt b"

definition Reset :: "Backoff \<Rightarrow> Backoff" where
  "Reset b = b\<lparr>attempt := 0\<rparr>"

text \<open>One round of \<open>WithBackoff\<close> as the environment plays it: how long the work ran and what it
  returned, whether the context was done after it, the random source, and whether the context
  was done before the timer.\<close>

record session =
  s_uptime :: duration
  s_err :: "goerror option"
  s_done :: bool
  s_rng :: rng
  s_interrupted :: bool

record retry_log =
  l_err :: "goerror option"
  l_attempt :: nat
  l_delay :: duration

datatype retry_result = StillRunning | ReturnedNil | Panicked

text \<open>The warnings logged and how the loop ends on a finite prefix of sessions.\<close>

fun backoff_loop :: "session list \<Rightarrow> Backoff \<Rightarrow> retry_log list \<times> retry_result" where
  "backoff_loop [] b = ([], StillRunning)"
| "backoff_loop (s # ss) b =
     (if s_done s then ([], ReturnedNil)
      else
        (case Next (s_rng s) (Observe (s_uptime s) b) of
           (b', None) \<Rightarrow> ([], Panicked)
         | (b', Some delay) \<Rightarrow>
             (let e = \<lparr>l_err = s_err s, l_attempt = attempt b', l_delay = delay\<rparr>
              in if s_interrupted s then ([e], ReturnedNil)
                 else (let (log, res) = backoff_loop ss b' in (e # log, res)))))"

definition WithBackoff :: "session list \<Rightarrow> retry_log list \<times> retry_result" where
  "WithBackoff ss = backoff_loop ss NewBackoff"

section \<open>Specification\<close>

text \<open>The delays on which no arithmetic of this module wraps.\<close>

definition backoff_ok :: "Backoff \<Rightarrow> bool" where
  "backoff_ok b = (0 < sint (Base b) \<and> 0 < sint (Max b) \<and> sint (Max b) \<le> 2 ^ 62)"

definition rng_ok :: "rng \<Rightarrow> bool" where
  "rng_ok rnd = (\<forall>n. 0 < sint n \<longrightarrow> 0 \<le> sint (rnd n) \<and> sint (rnd n) < sint n)"

text \<open>Consecutive failures before each session: an uptime of at least \<open>ResetAfter\<close> starts the
  count afresh.\<close>

fun streaks :: "duration \<Rightarrow> nat \<Rightarrow> session list \<Rightarrow> nat list" where
  "streaks ra n [] = []"
| "streaks ra n (s # ss) = (let k = (if ra \<le>s s_uptime s then 0 else n) in k # streaks ra (Suc k) ss)"

text \<open>What a loop may rely on: in any order of calls every delay lies between zero and a cap.\<close>

datatype backoff_op = OpNext rng | OpReset | OpObserve duration

locale delay_policy =
  fixes next_delay :: "rng \<Rightarrow> 'b \<Rightarrow> 'b \<times> duration option"
    and reset :: "'b \<Rightarrow> 'b"
    and observe :: "duration \<Rightarrow> 'b \<Rightarrow> 'b"
    and invar :: "'b \<Rightarrow> bool"
    and cap :: "'b \<Rightarrow> int"
  assumes next_ok: "invar b \<Longrightarrow> rng_ok rnd \<Longrightarrow> next_delay rnd b = (b', d) \<Longrightarrow>
      invar b' \<and> cap b' = cap b \<and> (\<exists>w. d = Some w \<and> 0 \<le> sint w \<and> sint w \<le> cap b)"
    and reset_ok: "invar b \<Longrightarrow> invar (reset b) \<and> cap (reset b) = cap b"
    and observe_ok: "invar b \<Longrightarrow> invar (observe up b) \<and> cap (observe up b) = cap b"
begin

fun apply_op :: "backoff_op \<Rightarrow> 'b \<times> duration option list \<Rightarrow> 'b \<times> duration option list" where
  "apply_op (OpNext rnd) (b, ds) = (let (b', d) = next_delay rnd b in (b', ds @ [d]))"
| "apply_op OpReset (b, ds) = (reset b, ds)"
| "apply_op (OpObserve up) (b, ds) = (observe up b, ds)"

lemma ops_bounded:
  assumes "invar b" "\<forall>rnd. OpNext rnd \<in> set os \<longrightarrow> rng_ok rnd"
    and "\<forall>d \<in> set ds. \<exists>w. d = Some w \<and> 0 \<le> sint w \<and> sint w \<le> cap b"
  shows "let (b', ds') = fold apply_op os (b, ds)
         in invar b' \<and> cap b' = cap b \<and> (\<forall>d \<in> set ds'. \<exists>w. d = Some w \<and> 0 \<le> sint w \<and> sint w \<le> cap b)"
  using assms
proof (induction os arbitrary: b ds)
  case (Cons x os)
  obtain b1 ds1 where x: "apply_op x (b, ds) = (b1, ds1)" by fastforce
  have "invar b1 \<and> cap b1 = cap b \<and> (\<forall>d \<in> set ds1. \<exists>w. d = Some w \<and> 0 \<le> sint w \<and> sint w \<le> cap b)"
  proof (cases x)
    case (OpNext rnd)
    then show ?thesis
      using next_ok [OF Cons.prems(1), of rnd] Cons.prems x by (auto split: prod.splits)
  next
    case OpReset
    then show ?thesis using reset_ok Cons.prems x by auto
  next
    case (OpObserve up)
    then show ?thesis using observe_ok Cons.prems x by auto
  qed
  with Cons.IH [of b1 ds1] Cons.prems(2) x show ?case by auto
qed simp

end

section \<open>Lemmas\<close>

lemma slt_sint: "(a :: int64) <s b \<longleftrightarrow> sint a < sint b" "(a :: int64) \<le>s b \<longleftrightarrow> sint a \<le> sint b"
  by (simp_all add: word_sless_alt word_sle_eq)

lemma sint_double: "0 \<le> sint (d :: int64) \<Longrightarrow> sint d < 2 ^ 62 \<Longrightarrow> sint (d * 2) = 2 * sint d"
  using sint64_mult [of d 2] by simp

lemma sint_plus1: "0 \<le> sint (d :: int64) \<Longrightarrow> sint d \<le> 2 ^ 62 \<Longrightarrow> sint (d + 1) = sint d + 1"
  using sint64_add [of d 1] by simp

lemma ceiling_loop_val:
  assumes "0 < sint d" "sint mx \<le> 2 ^ 62"
  shows "(sint (ceiling_loop n d mx) < sint mx \<longrightarrow> sint (ceiling_loop n d mx) = sint d * 2 ^ n) \<and>
         (sint (ceiling_loop n d mx) < sint mx \<longleftrightarrow> sint d * 2 ^ n < sint mx)"
  using assms
proof (induction n arbitrary: d)
  case (Suc n)
  show ?case
  proof (cases "sint d < sint mx")
    case True
    then have "sint (d * 2) = 2 * sint d" using Suc.prems by (intro sint_double) auto
    moreover have "sint d * 2 ^ Suc n = 2 * sint d * 2 ^ n" by simp
    moreover have "ceiling_loop (Suc n) d mx = ceiling_loop n (d * 2) mx" using True by (simp add: slt_sint)
    moreover have "0 < sint (d * 2)" using calculation(1) Suc.prems(1) by simp
    ultimately show ?thesis using Suc.IH [of "d * 2", OF _ Suc.prems(2)] by metis
  next
    case False
    have "(1 :: int) \<le> 2 ^ Suc n" by (rule one_le_power) simp
    then have "sint d * 1 \<le> sint d * 2 ^ Suc n" using Suc.prems by (intro mult_left_mono) auto
    with False show ?thesis by (auto simp: slt_sint)
  qed
qed simp

lemma sint_ceiling:
  assumes "0 < sint (Base b)" "sint (Max b) \<le> 2 ^ 62"
  shows "sint (backoff_ceiling b) = min (sint (Base b) * 2 ^ attempt b) (sint (Max b))"
proof (cases "sint (Base b) * 2 ^ attempt b < sint (Max b)")
  case True
  with ceiling_loop_val [OF assms, of "attempt b"] show ?thesis
    by (simp add: backoff_ceiling_def Let_def slt_sint)
next
  case False
  with ceiling_loop_val [OF assms, of "attempt b"] show ?thesis
    by (simp add: backoff_ceiling_def Let_def slt_sint)
qed

lemma ceiling_range:
  assumes "backoff_ok b"
  shows "0 < sint (backoff_ceiling b) \<and> sint (backoff_ceiling b) \<le> sint (Max b) \<and> sint (Max b) \<le> 2 ^ 62"
  using assms sint_ceiling [of b] by (auto simp: backoff_ok_def min_def)

lemma Next_ok:
  assumes "backoff_ok b" "rng_ok rnd"
  shows "\<exists>w. Next rnd b = (b\<lparr>attempt := Suc (attempt b)\<rparr>, Some w) \<and> 0 \<le> sint w \<and> sint w \<le> sint (backoff_ceiling b)"
proof -
  have c: "sint (backoff_ceiling b + 1) = sint (backoff_ceiling b) + 1"
    using ceiling_range [OF assms(1)] by (intro sint_plus1) auto
  moreover have "0 < sint (backoff_ceiling b + 1)" using c ceiling_range [OF assms(1)] by simp
  moreover have "0 \<le> sint (rnd (backoff_ceiling b + 1))" "sint (rnd (backoff_ceiling b + 1)) < sint (backoff_ceiling b + 1)"
    using assms(2) calculation(2) by (simp_all add: rng_ok_def)
  ultimately show ?thesis by (simp add: Next_def jitter_def Int64N_def slt_sint)
qed

lemma backoff_ok_ops [inv_intro]:
  "backoff_ok b \<Longrightarrow> backoff_ok (fst (Next rnd b))" "backoff_ok b \<Longrightarrow> backoff_ok (Observe up b)"
  "backoff_ok b \<Longrightarrow> backoff_ok (Reset b)" "backoff_ok NewBackoff"
  by (simp_all add: backoff_ok_def Next_def Observe_def Reset_def NewBackoff_def DefaultBase_def DefaultMax_def)

interpretation backoff: delay_policy Next Reset Observe backoff_ok "\<lambda>b. sint (Max b)"
proof unfold_locales
  fix b b' :: Backoff and rnd d
  assume b: "backoff_ok b" "rng_ok rnd" "Next rnd b = (b', d)"
  with Next_ok [OF b(1,2)] ceiling_range [OF b(1)]
  show "backoff_ok b' \<and> sint (Max b') = sint (Max b) \<and> (\<exists>w. d = Some w \<and> 0 \<le> sint w \<and> sint w \<le> sint (Max b))"
    by (auto simp: backoff_ok_def)
qed (auto simp: backoff_ok_def Reset_def Observe_def)

text \<open>The loop on any sessions: one warning per session that ended while the context was live,
  each with the attempt number of its streak and a delay up to that streak's ceiling.\<close>

lemma sint_defaults: "sint DefaultBase = 1000000000" "sint DefaultMax = 30000000000"
  by (simp_all add: DefaultBase_def DefaultMax_def)

fun logged :: "session list \<Rightarrow> session list" where
  "logged [] = []"
| "logged (s # ss) = (if s_done s then [] else if s_interrupted s then [s] else s # logged ss)"

definition delay_ok :: "Backoff \<Rightarrow> retry_log \<Rightarrow> bool" where
  "delay_ok b e = (0 < l_attempt e \<and> 0 \<le> sint (l_delay e) \<and>
     sint (l_delay e) \<le> min (sint (Base b) * 2 ^ (l_attempt e - 1)) (sint (Max b)))"

lemma Observe_fields [simp]:
  "Base (Observe up b) = Base b" "Max (Observe up b) = Max b" "ResetAfter (Observe up b) = ResetAfter b"
  "attempt (Observe up b) = (if ResetAfter b \<le>s up then 0 else attempt b)"
  by (simp_all add: Observe_def)

lemma backoff_loop_spec:
  assumes "backoff_ok b" "\<forall>s \<in> set ss. rng_ok (s_rng s)" "backoff_loop ss b = (log, res)"
  shows "map l_err log = map s_err (logged ss) \<and>
    map l_attempt log = map Suc (streaks (ResetAfter b) (attempt b) (logged ss)) \<and>
    list_all (delay_ok b) log \<and>
    res = (if \<exists>s \<in> set ss. s_done s \<or> s_interrupted s then ReturnedNil else StillRunning)"
  using assms
proof (induction ss arbitrary: b log res)
  case (Cons s ss)
  let ?b = "Observe (s_uptime s) b"
  have ok: "backoff_ok ?b" using Cons.prems(1) by (rule inv_intro)
  show ?case
  proof (cases "s_done s")
    case False
    obtain w where w: "Next (s_rng s) ?b = (?b\<lparr>attempt := Suc (attempt ?b)\<rparr>, Some w)"
        "0 \<le> sint w" "sint w \<le> sint (backoff_ceiling ?b)"
      using Next_ok [OF ok, of "s_rng s"] Cons.prems(2) by auto
    let ?b' = "?b\<lparr>attempt := Suc (attempt ?b)\<rparr>"
    have d: "delay_ok b \<lparr>l_err = s_err s, l_attempt = attempt ?b', l_delay = w\<rparr>"
      using w(2,3) sint_ceiling [of ?b] ok by (simp add: delay_ok_def backoff_ok_def)
    show ?thesis
    proof (cases "s_interrupted s")
      case True
      with False w(1) d Cons.prems(3) show ?thesis by (auto simp: Let_def)
    next
      case int: False
      obtain lg where l: "backoff_loop ss ?b' = (lg, res)" "log = \<lparr>l_err = s_err s, l_attempt = attempt ?b', l_delay = w\<rparr> # lg"
        using False int w(1) Cons.prems(3) by (auto simp: Let_def split: prod.splits)
      have ok': "backoff_ok ?b'" using ok by (simp add: backoff_ok_def)
      have same: "delay_ok ?b' = delay_ok b" by (simp add: delay_ok_def fun_eq_iff)
      from Cons.IH [OF ok' _ l(1)] Cons.prems(2) d same False int l(2) show ?thesis
        by (auto simp: Let_def)
    qed
  qed (use Cons.prems(3) in auto)
qed simp

section \<open>Properties\<close>

text \<open>C19. The backoff ceiling: whenever the base is positive and the cap at most \<open>2 ^ 62\<close>
  nanoseconds, the doubling loop never wraps and the ceiling of attempt \<open>n\<close> is the smaller of
  the base times \<open>2 ^ n\<close> and the cap, so it never decreases with more failures. With a
  larger cap it can wrap to zero: then the delay of a failing connection collapses.\<close>

theorem ceiling_closed_form:
  "(0 < sint (Base b) \<and> sint (Max b) \<le> 2 ^ 62 \<longrightarrow>
      sint (backoff_ceiling b) = min (sint (Base b) * 2 ^ attempt b) (sint (Max b)) \<and>
      sint (backoff_ceiling b) \<le> sint (backoff_ceiling (b\<lparr>attempt := Suc (attempt b)\<rparr>))) \<and>
   backoff_ceiling \<lparr>Base = 2 ^ 62, Max = 2 ^ 63 - 1, ResetAfter = 0, attempt = 2\<rparr> = 0"
proof -
  have "sint (backoff_ceiling b) \<le> sint (backoff_ceiling (b\<lparr>attempt := Suc (attempt b)\<rparr>))"
    if "0 < sint (Base b)" "sint (Max b) \<le> 2 ^ 62"
  proof -
    have "sint (Base b) * 2 ^ attempt b \<le> sint (Base b) * 2 ^ Suc (attempt b)"
      using that by (intro mult_left_mono) auto
    then have "min (sint (Base b) * 2 ^ attempt b) (sint (Max b)) \<le> min (sint (Base b) * 2 ^ Suc (attempt b)) (sint (Max b))"
      by (rule min.mono) simp
    then show ?thesis
      using sint_ceiling [OF that] sint_ceiling [of "b\<lparr>attempt := Suc (attempt b)\<rparr>"] that by simp
  qed
  moreover have "backoff_ceiling \<lparr>Base = 2 ^ 62, Max = 2 ^ 63 - 1, ResetAfter = 0, attempt = 2\<rparr> = 0"
    by code_simp
  ultimately show ?thesis by (simp add: sint_ceiling)
qed

theorem ceiling_closed_form_witness:
  "map (\<lambda>n. sint (backoff_ceiling (NewBackoff\<lparr>attempt := n\<rparr>)) div 1000000000) [0, 1, 2, 3, 4, 5, 6] = [1, 2, 4, 8, 16, 30, 30]"
proof -
  have c: "sint (backoff_ceiling (NewBackoff\<lparr>attempt := n\<rparr>)) = min (1000000000 * 2 ^ n) 30000000000" for n
    using ceiling_closed_form [of "NewBackoff\<lparr>attempt := n\<rparr>"] by (simp add: NewBackoff_def sint_defaults)
  show ?thesis by (simp add: c)
qed

text \<open>With the default parameters any sequence of \<open>Next\<close>, \<open>Reset\<close> and \<open>Observe\<close> calls, in any
  order, yields delays between zero and thirty seconds and never panics, whatever the random
  source draws within its contract.\<close>

theorem backoff_delays_bounded:
  assumes "\<forall>rnd. OpNext rnd \<in> set os \<longrightarrow> rng_ok rnd"
  shows "let (b, ds) = fold backoff.apply_op os (NewBackoff, [])
         in \<forall>d \<in> set ds. \<exists>w. d = Some w \<and> 0 \<le> sint w \<and> sint w \<le> 30000000000"
  using backoff.ops_bounded [of NewBackoff os "[]"] assms backoff_ok_ops(4)
  by (auto simp: NewBackoff_def sint_defaults Let_def split: prod.splits)

theorem backoff_delays_bounded_witness:
  "let (b, ds) = fold backoff.apply_op [OpNext (\<lambda>n. n - 1), OpNext (\<lambda>n. n - 1), OpObserve (3 * Minute), OpNext (\<lambda>n. n - 1)] (NewBackoff, [])
   in \<forall>d \<in> set ds. \<exists>w. d = Some w \<and> 0 \<le> sint w \<and> sint w \<le> 30000000000"
proof -
  have "sint (n - 1) = sint n - 1" if "0 < sint n" for n :: int64
    using that sint64_add [of n "- 1"] sint64_range [of n] by simp
  then have "rng_ok (\<lambda>n. n - 1)" by (auto simp: rng_ok_def)
  then show ?thesis by (intro backoff_delays_bounded) auto
qed

text \<open>C20. The reconnect loop never gives up and never returns an error: it returns nil exactly
  when the context is done after a session or during a wait, and otherwise runs the work
  again, also after a nil return. Each session that ended while the context was live is logged
  with its error and its attempt number, one more than the consecutive failures since the last
  session that stayed up for \<open>ResetAfter\<close>, and its delay is at most one second doubled once per
  such failure and never more than thirty seconds.\<close>

theorem WithBackoff_reconnects:
  assumes "\<forall>s \<in> set ss. rng_ok (s_rng s)" "WithBackoff ss = (log, res)"
  shows "res = (if \<exists>s \<in> set ss. s_done s \<or> s_interrupted s then ReturnedNil else StillRunning) \<and>
    map l_err log = map s_err (logged ss) \<and>
    map l_attempt log = map Suc (streaks DefaultResetAfter 0 (logged ss)) \<and>
    (\<forall>e \<in> set log. 0 \<le> sint (l_delay e) \<and>
       sint (l_delay e) \<le> min (1000000000 * 2 ^ (l_attempt e - 1)) 30000000000)"
  using backoff_loop_spec [OF backoff_ok_ops(4) assms(1) assms(2) [unfolded WithBackoff_def]]
  by (auto simp: NewBackoff_def sint_defaults list_all_iff delay_ok_def)

theorem WithBackoff_reconnects_witness:
  "let ss = [\<lparr>s_uptime = 5, s_err = None, s_done = False, s_rng = \<lambda>n. 0, s_interrupted = False\<rparr>,
             \<lparr>s_uptime = 5, s_err = Some (Errorf ''eof''), s_done = False, s_rng = \<lambda>n. 0, s_interrupted = False\<rparr>,
             \<lparr>s_uptime = 5, s_err = None, s_done = True, s_rng = \<lambda>n. 0, s_interrupted = False\<rparr>]
   in snd (WithBackoff ss) = ReturnedNil \<and> map l_attempt (fst (WithBackoff ss)) = [1, 2]"
proof -
  let ?ss = "[\<lparr>s_uptime = 5, s_err = None, s_done = False, s_rng = \<lambda>n. 0, s_interrupted = False\<rparr>,
             \<lparr>s_uptime = 5, s_err = Some (Errorf ''eof''), s_done = False, s_rng = \<lambda>n. 0, s_interrupted = False\<rparr>,
             \<lparr>s_uptime = 5, s_err = None, s_done = True, s_rng = \<lambda>n. 0, s_interrupted = False\<rparr>]"
  have "\<forall>s \<in> set ?ss. rng_ok (s_rng s)" by (simp add: rng_ok_def)
  from WithBackoff_reconnects [OF this surjective_pairing] show ?thesis
    by (simp add: DefaultResetAfter_def slt_sint)
qed

end
