(* ===== verification/KafkaLag.thy ===== *)
theory KafkaLag
  imports Retry GoTime Float64 "HOL-Library.Multiset"
begin

text \<open>
  Consumer-group lag: reading it from the coordinator (\<open>shared/kafka/lag.go\<close>) and the
  background cache that serves the last good reading (\<open>shared/kafka/lag_cache.go\<close>). The
  admin client's answer is a parameter; its per-topic map is the list of its entries in the
  order one \<open>range\<close> loop visits them, which Go leaves open. Rounds of the refresher are what
  the environment plays. The lemmas show that the reading does not depend on the visiting
  order, what the cache holds after any history of refreshes, and exactly when \<open>Check\<close> fails.
\<close>

section \<open>Reading the lag\<close>

record PartitionLag =
  Partition :: "32 word"
  PLag :: int64
  PError :: string

record ConsumerLag =
  Group :: string
  Topic :: string
  State :: string
  Members :: int
  Total :: int64
  Partitions :: "PartitionLag slice"

definition zero_lag :: ConsumerLag where
  "zero_lag = \<lparr>Group = [], Topic = [], State = [], Members = 0, Total = 0, Partitions = None\<rparr>"

definition Stalled :: "ConsumerLag \<Rightarrow> bool" where
  "Stalled l = (Members l = 0 \<and> 0 <s Total l)"

text \<open>What the admin client returns for a group: state, number of members, an error, and per
  topic the partitions with their lag and error.\<close>

record member_lag =
  MLag :: int64
  MErr :: "goerror option"

record described_group =
  DState :: string
  DMembers :: nat
  DError :: "goerror option"
  DLag :: "string \<Rightarrow> (32 word \<times> member_lag) list"

type_synonym admin = "string \<Rightarrow> goerror + (string \<rightharpoonup> described_group)"

record LagReader =
  admin :: "admin option"
  lr_group :: string
  lr_topic :: string
  lr_close :: bool

definition NewLagReader ::
  "(string list \<Rightarrow> goerror + admin) \<Rightarrow> string list \<Rightarrow> string \<Rightarrow> string \<Rightarrow> goerror + LagReader" where
  "NewLagReader dial brokers grp topic =
     (if brokers = [] then Inl (Errorf ''kafka lag: no broker configured'')
      else if grp = [] \<or> topic = [] then Inl (Errorf ''kafka lag: group and topic are required'')
      else (case dial brokers of
              Inl e \<Rightarrow> Inl (Wrapf ''kafka lag: new admin client: '' e)
            | Inr a \<Rightarrow> Inr \<lparr>admin = Some a, lr_group = grp, lr_topic = topic, lr_close = True\<rparr>))"

definition lag_entry :: "32 word \<times> member_lag \<Rightarrow> PartitionLag" where
  "lag_entry pm =
     \<lparr>Partition = fst pm, PLag = MLag (snd pm),
      PError = (case MErr (snd pm) of None \<Rightarrow> [] | Some e \<Rightarrow> error_text e)\<rparr>"

text \<open>The loop over the partitions of the topic.\<close>

fun lag_loop :: "(32 word \<times> member_lag) list \<Rightarrow> ConsumerLag \<Rightarrow> ConsumerLag" where
  "lag_loop [] l = l"
| "lag_loop (pm # pms) l =
     lag_loop pms (l\<lparr>Total := (if MErr (snd pm) = None then Total l + MLag (snd pm) else Total l),
                     Partitions := Some (elems (Partitions l) @ [lag_entry pm])\<rparr>)"

definition sort_partitions :: "PartitionLag slice \<Rightarrow> PartitionLag slice" where
  "sort_partitions ps = map_option (sort_key (\<lambda>p. sint (Partition p))) ps"

definition ReadLag :: "unicode \<Rightarrow> LagReader option \<Rightarrow> goerror + ConsumerLag" where
  "ReadLag U lr =
     (case lr of None \<Rightarrow> Inl (Errorf ''kafka lag: reader not configured'')
      | Some l \<Rightarrow>
        (case admin l of None \<Rightarrow> Inl (Errorf ''kafka lag: reader not configured'')
         | Some ask \<Rightarrow>
           (case ask (lr_group l) of
              Inl e \<Rightarrow> Inl (Wrapf ''kafka lag: '' e)
            | Inr lags \<Rightarrow>
              (case lags (lr_group l) of
                 None \<Rightarrow> Inl (Errorf (''kafka lag: group '' @ quote_q U (lr_group l) @ '' not found''))
               | Some d \<Rightarrow>
                 (case DError d of
                    Some e \<Rightarrow> Inl (Wrapf (''kafka lag: describe group '' @ quote_q U (lr_group l) @ '': '') e)
                  | None \<Rightarrow>
                    (let lag = lag_loop (DLag d (lr_topic l))
                           \<lparr>Group = lr_group l, Topic = lr_topic l, State = DState d,
                            Members = int (DMembers d), Total = 0, Partitions = None\<rparr>
                     in Inr (lag\<lparr>Partitions := sort_partitions (Partitions lag)\<rparr>)))))))"

section \<open>The cache\<close>

definition DefaultRefreshInterval :: duration where "DefaultRefreshInterval = 10 * Second"
definition DefaultStaleMultiple :: duration where "DefaultStaleMultiple = 3"

record LagSnapshot =
  Lag :: ConsumerLag
  AsOf :: gotime
  Err :: "goerror option"
  Failures :: int

definition zero_snapshot :: LagSnapshot where
  "zero_snapshot = \<lparr>Lag = zero_lag, AsOf = zero_time, Err = None, Failures = 0\<rparr>"

record LagCache =
  interval :: duration
  staleAfter :: duration
  snapshot :: "LagSnapshot option"

definition NewLagCache :: "duration \<Rightarrow> LagCache" where
  "NewLagCache iv =
     (let i = (if iv \<le>s 0 then DefaultRefreshInterval else iv)
      in \<lparr>interval = i, staleAfter = i * DefaultStaleMultiple, snapshot = None\<rparr>)"

text \<open>The random source of \<open>defaultJitter\<close> is \<open>rand.Float64()\<close>.\<close>

definition jitterFraction :: float64 where
  "jitterFraction = pack False (round_ratio 1 5)"

definition defaultJitter :: "float64 \<Rightarrow> duration \<Rightarrow> duration" where
  "defaultJitter r d =
     (let spread = f_mul (f_of_int (sint d)) jitterFraction
      in d - word_of_int (f_to_int spread) + word_of_int (f_to_int (f_mul (f_mul r (f_of_int 2)) spread)))"

definition Snapshot :: "LagCache option \<Rightarrow> LagSnapshot" where
  "Snapshot c =
     (case c of None \<Rightarrow> zero_snapshot
      | Some k \<Rightarrow> (case snapshot k of None \<Rightarrow> zero_snapshot | Some s \<Rightarrow> s))"

text \<open>One refresh, given the source's answer and the clock.\<close>

definition refresh :: "goerror + ConsumerLag \<Rightarrow> gotime \<Rightarrow> LagCache \<Rightarrow> LagCache \<times> goerror option" where
  "refresh res now c =
     (let previous = Snapshot (Some c)
      in case res of
           Inl e \<Rightarrow> (c\<lparr>snapshot := Some \<lparr>Lag = Lag previous, AsOf = AsOf previous, Err = Some e,
                                            Failures = Failures previous + 1\<rparr>\<rparr>, Some e)
         | Inr lag \<Rightarrow> (c\<lparr>snapshot := Some \<lparr>Lag = lag, AsOf = now, Err = None, Failures = 0\<rparr>\<rparr>, None))"

definition Age :: "gotime \<Rightarrow> LagCache option \<Rightarrow> duration \<times> bool" where
  "Age now c =
     (case c of None \<Rightarrow> (0, False)
      | Some k \<Rightarrow>
        (let s = Snapshot c
         in if IsZero (AsOf s) then (0, False) else (time_Sub now (AsOf s), True)))"

definition LagCache_Check :: "unicode \<Rightarrow> gotime \<Rightarrow> LagCache option \<Rightarrow> goerror option" where
  "LagCache_Check U now c =
     (case c of None \<Rightarrow> Some (Errorf ''lag cache not configured'')
      | Some k \<Rightarrow>
        (let s = Snapshot c; age = time_Sub now (AsOf s)
         in if IsZero (AsOf s) then
              (case Err s of Some e \<Rightarrow> Some (Wrapf ''no lag reading yet: '' e)
               | None \<Rightarrow> Some (Errorf ''no lag reading yet''))
            else if staleAfter k <s age then
              (case Err s of
                 Some e \<Rightarrow> Some (Wrapf (''lag reading stale ('' @ rounded_text age @ '' old, '' @
                              FormatInt (Failures s) @ '' consecutive failures): '') e)
               | None \<Rightarrow> Some (Errorf (''lag reading stale ('' @ rounded_text age @ '' old)'')))
            else if Stalled (Lag s) then
              Some (Errorf (''consumer group '' @ quote_q U (Group (Lag s)) @ '' has lag '' @
                FormatInt (sint (Total (Lag s))) @ '' but no members''))
            else None))"

text \<open>The detail map for the ops report; \<open>int64(d.Seconds())\<close> goes through \<open>float64\<close>.\<close>

datatype detail = DStr string | DInt int | DBool bool | DTime gotime | DParts "PartitionLag list"

definition age_seconds :: "duration \<Rightarrow> int" where
  "age_seconds d =
     (let sec = sgn (sint d) * (\<bar>sint d\<bar> div 1000000000); nsec = sint d - sec * 1000000000
      in f_to_int (f_add (f_of_int sec) (f_div (f_of_int nsec) (f_of_int 1000000000))))"

definition Details :: "gotime \<Rightarrow> LagCache option \<Rightarrow> (string \<rightharpoonup> detail) option" where
  "Details now c =
     (case c of None \<Rightarrow> None
      | Some k \<Rightarrow>
        (let s = Snapshot c; l = Lag s;
             d0 = [''group'' \<mapsto> DStr (Group l), ''topic'' \<mapsto> DStr (Topic l), ''state'' \<mapsto> DStr (State l),
                   ''members'' \<mapsto> DInt (Members l), ''total'' \<mapsto> DInt (sint (Total l)),
                   ''stalled'' \<mapsto> DBool (Stalled l), ''failures'' \<mapsto> DInt (Failures s)];
             d1 = (if elems (Partitions l) \<noteq> [] then d0(''partitions'' \<mapsto> DParts (elems (Partitions l))) else d0);
             d2 = (if IsZero (AsOf s) then d1
                   else d1(''as_of'' \<mapsto> DTime (AsOf s), ''age_seconds'' \<mapsto> DInt (age_seconds (time_Sub now (AsOf s)))));
             d3 = (case Err s of None \<Rightarrow> d2 | Some e \<Rightarrow> d2(''last_error'' \<mapsto> DStr (error_text e)))
         in Some d3))"

text \<open>The refresher's loop over rounds of the environment: the source's answer and the clock,
  whether the context was done after a failed refresh, the jittered interval, the random
  source of the backoff, and whether the context was done before the timer fired.\<close>

record round =
  r_res :: "goerror + ConsumerLag"
  r_now :: gotime
  r_done :: bool
  r_jitter :: "duration \<Rightarrow> duration"
  r_rng :: rng
  r_interrupted :: bool

fun lag_run :: "round list \<Rightarrow> Backoff \<Rightarrow> LagCache \<Rightarrow> LagCache \<times> duration option list \<times> bool" where
  "lag_run [] b c = (c, [], False)"
| "lag_run (r # rs) b c =
     (let (c1, err) = refresh (r_res r) (r_now r) c
      in if err \<noteq> None \<and> r_done r then (c1, [], True)
         else
           (let (b1, delay) = (if err \<noteq> None then Next (r_rng r) b
                               else (Reset b, Some (r_jitter r (interval c))))
            in if delay = None then (c1, [None], False)
               else if r_interrupted r then (c1, [delay], True)
               else (let (c2, ds, fin) = lag_run rs b1 c1 in (c2, delay # ds, fin))))"

definition LagCache_Run :: "round list \<Rightarrow> LagCache \<Rightarrow> LagCache \<times> duration option list \<times> bool" where
  "LagCache_Run rs c = lag_run rs NewBackoff c"


section \<open>Specification\<close>

definition good :: "32 word \<times> member_lag \<Rightarrow> bool" where
  "good pm = (MErr (snd pm) = None)"

definition good_lags :: "(32 word \<times> member_lag) list \<Rightarrow> int64 multiset" where
  "good_lags pms = image_mset (\<lambda>pm. MLag (snd pm)) (filter_mset good (mset pms))"

text \<open>What a history of refreshes, oldest first, leaves in the cache.\<close>

type_synonym history = "((goerror + ConsumerLag) \<times> gotime) list"

definition last_good :: "history \<Rightarrow> (ConsumerLag \<times> gotime) option" where
  "last_good hs =
     (case filter (\<lambda>h. \<not> isl (fst h)) (rev hs) of [] \<Rightarrow> None | (r, t) # _ \<Rightarrow> Some (projr r, t))"

definition history_snapshot :: "history \<Rightarrow> LagSnapshot" where
  "history_snapshot hs =
     \<lparr>Lag = (case last_good hs of None \<Rightarrow> zero_lag | Some (l, t) \<Rightarrow> l),
      AsOf = (case last_good hs of None \<Rightarrow> zero_time | Some (l, t) \<Rightarrow> t),
      Err = (case rev hs of (Inl e, t) # _ \<Rightarrow> Some e | _ \<Rightarrow> None),
      Failures = int (length (takeWhile (\<lambda>h. isl (fst h)) (rev hs)))\<rparr>"

definition run_refresh :: "history \<Rightarrow> LagCache \<Rightarrow> LagCache" where
  "run_refresh hs c = fold (\<lambda>(res, now) c. fst (refresh res now c)) hs c"

text \<open>The rounds the refresher plays: up to the first that ends it; those that reach the timer.\<close>

definition stops :: "round \<Rightarrow> bool" where
  "stops r = (r_interrupted r \<or> (isl (r_res r) \<and> r_done r))"

fun executed :: "round list \<Rightarrow> round list" where
  "executed [] = []"
| "executed (r # rs) = r # (if stops r then [] else executed rs)"

definition waited :: "round list \<Rightarrow> round list" where
  "waited rs = filter (\<lambda>r. \<not> (isl (r_res r) \<and> r_done r)) (executed rs)"

section \<open>Lemmas\<close>

lemma good_lags_simps [simp]:
  "good_lags [] = {#}"
  "good_lags (pm # pms) = (if good pm then add_mset (MLag (snd pm)) (good_lags pms) else good_lags pms)"
  by (simp_all add: good_lags_def)

lemma lag_loop_eq:
  "lag_loop pms l = l\<lparr>Total := Total l + sum_mset (good_lags pms),
     Partitions := (if pms = [] then Partitions l else Some (elems (Partitions l) @ map lag_entry pms))\<rparr>"
  by (induction pms arbitrary: l) (auto simp: good_def ac_simps)

lemma sint_inject: "sint a = sint b \<longleftrightarrow> a = (b :: 32 word)"
  by (auto intro: signed_word_eqI)

lemma inj_on_entries:
  "distinct (map fst pms) \<Longrightarrow> inj_on (\<lambda>p. sint (Partition p)) (set (map lag_entry pms))"
  by (fastforce simp: inj_on_def lag_entry_def distinct_map sint_inject)

lemma sorted_entries:
  assumes "distinct (map fst pms)"
  shows "sorted_wrt (\<lambda>p q. sint (Partition p) < sint (Partition q))
           (sort_key (\<lambda>p. sint (Partition p)) (map lag_entry pms))" (is "sorted_wrt _ ?s")
proof -
  have "distinct (map (\<lambda>p. sint (Partition p)) (map lag_entry pms))"
    using assms by (fastforce simp: distinct_map inj_on_def lag_entry_def sint_inject)
  then have "distinct (map (\<lambda>p. sint (Partition p)) ?s)"
    by (metis (no_types) distinct_map distinct_sort set_sort)
  then have "sorted_wrt (<) (map (\<lambda>p. sint (Partition p)) ?s)"
    by (simp add: strict_sorted_iff)
  then show ?thesis by (simp add: sorted_wrt_map)
qed

lemma sort_entries_perm:
  assumes "distinct (map fst pms)" "mset pms' = mset pms"
  shows "sort_key (\<lambda>p. sint (Partition p)) (map lag_entry pms')
       = sort_key (\<lambda>p. sint (Partition p)) (map lag_entry pms)"
proof (rule sort_key_inj_key_eq)
  show "mset (map lag_entry pms') = mset (sort_key (\<lambda>p. sint (Partition p)) (map lag_entry pms))"
    using assms(2) by simp
  show "inj_on (\<lambda>p. sint (Partition p)) (set (map lag_entry pms'))"
    using inj_on_entries [OF assms(1)] mset_eq_setD [OF assms(2)] by simp
qed simp

lemma sum_sint_nonneg: "\<forall>w \<in># M. 0 \<le> sint w \<Longrightarrow> 0 \<le> (\<Sum>w\<in>#M. sint (w :: int64))"
  by (induction M) simp_all

lemma sint_sum_exact:
  assumes "\<forall>w \<in># M. 0 \<le> sint w" "(\<Sum>w\<in>#M. sint w) < 2 ^ 63"
  shows "sint (sum_mset M :: int64) = (\<Sum>w\<in>#M. sint w)"
  using assms
proof (induction M)
  case (add x M)
  have "0 \<le> (\<Sum>w\<in>#M. sint w)" using add.prems(1) by (intro sum_sint_nonneg) simp
  then show ?case using add by (simp add: sint64_add)
qed simp

text \<open>The cache.\<close>

lemma run_refresh_snoc:
  "run_refresh (hs @ [(res, now)]) c = fst (refresh res now (run_refresh hs c))"
  by (simp add: run_refresh_def)

lemma history_snoc:
  "history_snapshot (hs @ [(Inl e, now)]) = (history_snapshot hs)\<lparr>Err := Some e, Failures := Failures (history_snapshot hs) + 1\<rparr>"
  "history_snapshot (hs @ [(Inr l, now)]) = \<lparr>Lag = l, AsOf = now, Err = None, Failures = 0\<rparr>"
  by (simp_all add: history_snapshot_def last_good_def)

lemma snapshot_history:
  "snapshot c = None \<Longrightarrow>
     Snapshot (Some (run_refresh hs c)) = history_snapshot hs \<and>
     interval (run_refresh hs c) = interval c \<and> staleAfter (run_refresh hs c) = staleAfter c"
proof (induction hs rule: rev_induct)
  case Nil
  then show ?case by (simp add: run_refresh_def Snapshot_def history_snapshot_def last_good_def zero_snapshot_def)
next
  case (snoc h hs)
  obtain res now where h: "h = (res, now)" by (cases h)
  show ?case
    using snoc by (cases res) (auto simp: h run_refresh_snoc history_snoc refresh_def Let_def Snapshot_def)
qed

lemma Check_None:
  "LagCache_Check U now (Some c) = None \<longleftrightarrow>
     \<not> IsZero (AsOf (Snapshot (Some c))) \<and> sint (time_Sub now (AsOf (Snapshot (Some c)))) \<le> sint (staleAfter c) \<and>
     \<not> Stalled (Lag (Snapshot (Some c)))"
  by (auto simp: LagCache_Check_def Let_def slt_sint split: option.splits)

lemma staleAfter_New:
  "0 < sint iv \<Longrightarrow> sint iv \<le> 2 ^ 61 \<Longrightarrow> sint (staleAfter (NewLagCache iv)) = 3 * sint iv"
  using sint64_mult [of iv 3]
  by (simp add: NewLagCache_def Let_def slt_sint DefaultStaleMultiple_def)


lemma waited_Cons:
  "waited (r # rs) = (if isl (r_res r) \<and> r_done r then [] else r # (if stops r then [] else waited rs))"
  by (auto simp: waited_def stops_def)

definition delay_of_round :: "LagCache \<Rightarrow> int \<Rightarrow> round \<Rightarrow> duration option \<Rightarrow> bool" where
  "delay_of_round c mx r d =
     (case r_res r of
        Inl _ \<Rightarrow> (\<exists>w. d = Some w \<and> 0 \<le> sint w \<and> sint w \<le> mx)
      | Inr _ \<Rightarrow> d = Some (r_jitter r (interval c)))"

lemma refresh_err: "snd (refresh res now c) = (case res of Inl e \<Rightarrow> Some e | Inr _ \<Rightarrow> None)"
  by (cases res) (simp_all add: refresh_def Let_def)

lemma refresh_interval [simp]: "interval (fst (refresh res now c)) = interval c"
  by (cases res) (simp_all add: refresh_def Let_def)

lemma lag_run_spec:
  assumes "backoff_ok b" "\<forall>r \<in> set rs. rng_ok (r_rng r)" "lag_run rs b c = (c', ds, fin)"
  shows "c' = run_refresh (map (\<lambda>r. (r_res r, r_now r)) (executed rs)) c \<and>
    list_all2 (delay_of_round c (sint (Max b))) (waited rs) ds \<and> fin = (\<exists>r \<in> set rs. stops r)"
  using assms
proof (induction rs arbitrary: b c ds)
  case Nil
  then show ?case by (simp add: run_refresh_def waited_def)
next
  case (Cons r rs)
  define c1 where "c1 = fst (refresh (r_res r) (r_now r) c)"
  define err where "err = snd (refresh (r_res r) (r_now r) c)"
  have rf: "refresh (r_res r) (r_now r) c = (c1, err)" by (simp add: c1_def err_def)
  have err: "err \<noteq> None \<longleftrightarrow> isl (r_res r)" by (cases "r_res r") (simp_all add: err_def refresh_err)
  show ?case
  proof (cases "err \<noteq> None \<and> r_done r")
    case True
    with Cons.prems(3) rf err show ?thesis
      by (auto simp: waited_Cons stops_def run_refresh_def)
  next
    case False
    define nb where "nb = (if err \<noteq> None then Next (r_rng r) b else (Reset b, Some (r_jitter r (interval c))))"
    obtain b1 d where nb: "nb = (b1, d)" by (cases nb)
    have b1: "backoff_ok b1" "sint (Max b1) = sint (Max b)" "delay_of_round c (sint (Max b)) r d" "d \<noteq> None"
      using nb backoff.next_ok [OF Cons.prems(1), of "r_rng r" b1 d] backoff.reset_ok [OF Cons.prems(1)] Cons.prems(2) err
      by (cases "r_res r"; auto simp: nb_def delay_of_round_def)+
    show ?thesis
    proof (cases "r_interrupted r")
      case True
      with Cons.prems(3) rf err False b1 nb show ?thesis
        by (auto simp: waited_Cons stops_def run_refresh_def nb_def Let_def)
    next
      case int: False
      obtain ds1 where l: "lag_run rs b1 c1 = (c', ds1, fin)" "ds = d # ds1"
        using Cons.prems(3) rf False b1(4) nb int by (auto simp: nb_def Let_def split: prod.splits)
      have same: "delay_of_round c1 = delay_of_round c" by (simp add: fun_eq_iff delay_of_round_def c1_def split: sum.split)
      from Cons.IH [OF b1(1) _ l(1)] Cons.prems(2) b1 l(2) False int err rf same show ?thesis
        by (auto simp: waited_Cons stops_def run_refresh_def)
    qed
  qed
qed

lemma cache_check_iff:
  assumes "0 < sint iv" "sint iv \<le> 2 ^ 61"
  shows "LagCache_Check U now (Some (run_refresh hs (NewLagCache iv))) = None \<longleftrightarrow>
    (\<exists>l t. last_good hs = Some (l, t) \<and> t \<noteq> zero_time \<and> now - t \<le> 3 * sint iv \<and> \<not> Stalled l)"
proof -
  let ?c = "run_refresh hs (NewLagCache iv)"
  have s: "Snapshot (Some ?c) = history_snapshot hs" "sint (staleAfter ?c) = 3 * sint iv"
    using snapshot_history [of "NewLagCache iv" hs] staleAfter_New [OF assms]
    by (simp_all add: NewLagCache_def Let_def)
  have fresh: "sint (time_Sub now t) \<le> 3 * sint iv \<longleftrightarrow> now - t \<le> 3 * sint iv" for t
    using assms unfolding sint_time_Sub max_int64_def min_int64_def by (auto simp: max_def min_def)
  show ?thesis
    unfolding Check_None s fresh
    by (cases "last_good hs") (auto simp: history_snapshot_def IsZero_def)
qed

section \<open>Properties\<close>

text \<open>C28. A lag reading: whatever order the partitions are visited in, \<open>ReadLag\<close> returns the
  same result; it has one entry per partition in strictly increasing partition order, and its
  total is the sum over the partitions whose lag could be computed, exactly so when these are
  not negative and their sum fits 64 bits. A partition with an error is listed and left out.\<close>

theorem ReadLag_reading:
  assumes "ask grp = Inr lags" "lags grp = Some d" "DError d = None" "distinct (map fst (DLag d topic))"
    and "pms = DLag d topic"
  shows "\<exists>lag. ReadLag U (Some \<lparr>admin = Some ask, lr_group = grp, lr_topic = topic, lr_close = cl\<rparr>) = Inr lag \<and>
    Total lag = sum_mset (good_lags pms) \<and>
    ((\<forall>w \<in># good_lags pms. 0 \<le> sint w) \<and> (\<Sum>w\<in>#good_lags pms. sint w) < 2 ^ 63 \<longrightarrow>
        sint (Total lag) = (\<Sum>w\<in>#good_lags pms. sint w)) \<and>
    sorted_wrt (\<lambda>p q. sint (Partition p) < sint (Partition q)) (elems (Partitions lag)) \<and>
    mset (elems (Partitions lag)) = image_mset lag_entry (mset pms) \<and>
    (\<forall>pms'. mset pms' = mset pms \<longrightarrow>
       ReadLag U (Some \<lparr>admin = Some (\<lambda>g. Inr [grp \<mapsto> d\<lparr>DLag := (DLag d)(topic := pms')\<rparr>]),
                        lr_group = grp, lr_topic = topic, lr_close = cl\<rparr>) = Inr lag)"
proof -
  let ?lag = "\<lambda>ps. \<lparr>Group = grp, Topic = topic, State = DState d, Members = int (DMembers d),
      Total = sum_mset (good_lags ps),
      Partitions = (if ps = [] then None else Some (sort_key (\<lambda>p. sint (Partition p)) (map lag_entry ps)))\<rparr>"
  have r: "ReadLag U (Some \<lparr>admin = Some ask, lr_group = grp, lr_topic = topic, lr_close = cl\<rparr>) = Inr (?lag pms)"
    using assms by (simp add: ReadLag_def Let_def lag_loop_eq sort_partitions_def)
  have perm: "?lag ps = ?lag pms" if "mset ps = mset pms" for ps
    using sort_entries_perm [of pms ps] that assms(4,5) by (auto simp: good_lags_def)
  have other: "ReadLag U (Some \<lparr>admin = Some (\<lambda>g. Inr [grp \<mapsto> d\<lparr>DLag := (DLag d)(topic := ps)\<rparr>]),
                        lr_group = grp, lr_topic = topic, lr_close = cl\<rparr>) = Inr (?lag ps)" for ps
    using assms(3) by (simp add: ReadLag_def Let_def lag_loop_eq sort_partitions_def)
  have d: "distinct (map fst pms)" using assms(4,5) by simp
  show ?thesis
  proof (intro exI [of _ "?lag pms"] conjI allI impI)
    show "sorted_wrt (\<lambda>p q. sint (Partition p) < sint (Partition q)) (elems (Partitions (?lag pms)))"
      using sorted_entries [OF d] by simp
    show "sint (Total (?lag pms)) = (\<Sum>w\<in>#good_lags pms. sint w)"
      if "(\<forall>w \<in># good_lags pms. 0 \<le> sint w) \<and> (\<Sum>w\<in>#good_lags pms. sint w) < 2 ^ 63"
      using sint_sum_exact that by simp
    show "ReadLag U (Some \<lparr>admin = Some (\<lambda>g. Inr [grp \<mapsto> d\<lparr>DLag := (DLag d)(topic := ps)\<rparr>]),
              lr_group = grp, lr_topic = topic, lr_close = cl\<rparr>) = Inr (?lag pms)" if "mset ps = mset pms" for ps
      using other [of ps] perm [OF that] by (rule subst [where P = "\<lambda>x. _ = Inr x", rotated])
  qed (use r in simp_all)
qed

theorem ReadLag_reading_witness:
  "let d = \<lparr>DState = ''Stable'', DMembers = 1, DError = None,
        DLag = \<lambda>t. [(2, \<lparr>MLag = 5, MErr = None\<rparr>), (0, \<lparr>MLag = -1, MErr = Some (Errorf ''no leader'')\<rparr>), (1, \<lparr>MLag = 7, MErr = None\<rparr>)]\<rparr>
   in \<exists>lag. ReadLag ascii_tables (Some \<lparr>admin = Some (\<lambda>g. Inr [''processor-service'' \<mapsto> d]), lr_group = ''processor-service'', lr_topic = ''trades.raw'', lr_close = True\<rparr>)
          = Inr lag \<and> sint (Total lag) = 12 \<and> length (elems (Partitions lag)) = 3"
proof -
  let ?pms = "[(2, \<lparr>MLag = 5, MErr = None\<rparr>), (0, \<lparr>MLag = -1, MErr = Some (Errorf ''no leader'')\<rparr>), (1, \<lparr>MLag = 7, MErr = None\<rparr>)] :: (32 word \<times> member_lag) list"
  let ?d = "\<lparr>DState = ''Stable'', DMembers = 1, DError = None, DLag = \<lambda>t. ?pms\<rparr>"
  have g: "good_lags ?pms = {#5, 7#}" by (simp add: good_def)
  have "\<exists>lag. ReadLag ascii_tables (Some \<lparr>admin = Some (\<lambda>g. Inr [''processor-service'' \<mapsto> ?d]), lr_group = ''processor-service'', lr_topic = ''trades.raw'', lr_close = True\<rparr>) = Inr lag \<and>
      Total lag = sum_mset (good_lags ?pms) \<and> mset (elems (Partitions lag)) = image_mset lag_entry (mset ?pms)"
    using ReadLag_reading [of "\<lambda>g. Inr [''processor-service'' \<mapsto> ?d]" "''processor-service''"
        "[''processor-service'' \<mapsto> ?d]" ?d "''trades.raw''" ?pms ascii_tables True] by auto
  then obtain lag where l: "ReadLag ascii_tables (Some \<lparr>admin = Some (\<lambda>g. Inr [''processor-service'' \<mapsto> ?d]), lr_group = ''processor-service'', lr_topic = ''trades.raw'', lr_close = True\<rparr>) = Inr lag"
      "Total lag = sum_mset (good_lags ?pms)" "mset (elems (Partitions lag)) = image_mset lag_entry (mset ?pms)"
    by blast
  have "length (elems (Partitions lag)) = 3" using arg_cong [OF l(3), of size] by simp
  then show ?thesis using l(1,2) g by (simp add: Let_def)
qed

text \<open>C29. Serve-stale: after any history of refreshes the snapshot is the last successful
  reading with its time, the error of the last refresh if that failed, and the number of
  failures since the last success; readings are never dropped by failures.\<close>

theorem cache_serves_last_good:
  "Snapshot (Some (run_refresh hs (NewLagCache iv))) = history_snapshot hs"
  using snapshot_history [of "NewLagCache iv" hs] by (simp add: NewLagCache_def Let_def)

text \<open>C22. The cache's health check passes exactly when there is a last good reading that is not
  older than three refresh intervals and does not show lag without members; failed refreshes
  in between do not matter, so one broker error never fails the report by itself.\<close>

theorem cache_check_passes:
  assumes "0 < sint iv" "sint iv \<le> 2 ^ 61"
  shows "LagCache_Check U now (Some (run_refresh hs (NewLagCache iv))) = None \<longleftrightarrow>
    (\<exists>l t. last_good hs = Some (l, t) \<and> t \<noteq> zero_time \<and> now - t \<le> 3 * sint iv \<and> \<not> Stalled l)"
  using cache_check_iff [OF assms] .

theorem cache_check_passes_witness:
  "LagCache_Check ascii_tables 25000000000 (Some (run_refresh
      [(Inr (zero_lag\<lparr>Members := 1\<rparr>), 1), (Inl (Errorf ''down''), 11000000000)] (NewLagCache (10 * Second)))) = None \<and>
   LagCache_Check ascii_tables 45000000000 (Some (run_refresh
      [(Inr (zero_lag\<lparr>Members := 1\<rparr>), 1), (Inl (Errorf ''down''), 11000000000)] (NewLagCache (10 * Second)))) \<noteq> None"
  using cache_check_passes [of "10 * Second" ascii_tables 25000000000 "[(Inr (zero_lag\<lparr>Members := 1\<rparr>), 1), (Inl (Errorf ''down''), 11000000000)]"]
    cache_check_passes [of "10 * Second" ascii_tables 45000000000 "[(Inr (zero_lag\<lparr>Members := 1\<rparr>), 1), (Inl (Errorf ''down''), 11000000000)]"]
  by (simp add: last_good_def zero_time_def Stalled_def)

text \<open>C30. The refresher: it keeps the cache at the history of its refreshes, returns only when
  the context is done, waits the jittered interval after a success and a backoff delay of at
  most thirty seconds after a failure, and never panics.\<close>

theorem LagCache_Run_behaves:
  assumes "\<forall>r \<in> set rs. rng_ok (r_rng r)" "LagCache_Run rs (NewLagCache iv) = (c', ds, fin)"
  shows "Snapshot (Some c') = history_snapshot (map (\<lambda>r. (r_res r, r_now r)) (executed rs)) \<and>
    list_all2 (delay_of_round (NewLagCache iv) 30000000000) (waited rs) ds \<and>
    fin = (\<exists>r \<in> set rs. stops r)"
  using lag_run_spec [OF backoff_ok_ops(4) assms(1) assms(2) [unfolded LagCache_Run_def]]
    snapshot_history [of "NewLagCache iv"]
  by (simp add: NewBackoff_def sint_defaults NewLagCache_def Let_def)

theorem LagCache_Run_behaves_witness:
  "let r = \<lparr>r_res = Inr zero_lag, r_now = 5, r_done = False, r_jitter = \<lambda>d. d, r_rng = \<lambda>n. 0, r_interrupted = True\<rparr>
   in AsOf (Snapshot (Some (fst (LagCache_Run [r] (NewLagCache 0))))) = 5 \<and>
      snd (snd (LagCache_Run [r] (NewLagCache 0)))"
proof -
  let ?r = "\<lparr>r_res = Inr zero_lag, r_now = 5, r_done = False, r_jitter = \<lambda>d. d, r_rng = \<lambda>n. 0, r_interrupted = True\<rparr>"
  obtain c ds fin where run: "LagCache_Run [?r] (NewLagCache 0) = (c, ds, fin)" by (cases "LagCache_Run [?r] (NewLagCache 0)")
  have "\<forall>r \<in> set [?r]. rng_ok (r_rng r)" by (simp add: rng_ok_def)
  from LagCache_Run_behaves [OF this run] run show ?thesis
    by (simp add: history_snapshot_def last_good_def stops_def Let_def)
qed

end
