(* ===== verification/HttpServer.thy ===== *)
theory HttpServer
  imports Chan
begin

text \<open>
  The ops HTTP server (\<open>shared/httpserver\<close>) and the component runner (\<open>shared/runtime\<close>): the
  registry of health checkers, the concurrent run of all checks with a budget each, the report
  and its status code, the start and shutdown of the listener, and the group that runs a
  service's components. A checker is its name, what it answers when given a time budget and
  how long it takes, and its optional detail. The contract of a checker whose answer is
  determined by the health of its component is the locale \<open>health_checker\<close>; the components
  that register checkers interpret it.
\<close>

section \<open>Checkers and the registry\<close>

record 'd checker =
  cName :: string
  cCheck :: "duration \<Rightarrow> goerror option"
  cTime :: "duration \<Rightarrow> int"
  cDetails :: "'d option"

record 'd healthRegistry =
  checkers :: "'d checker list"

definition health_add :: "'d checker \<Rightarrow> 'd healthRegistry \<Rightarrow> 'd healthRegistry" where
  "health_add c r = r\<lparr>checkers := checkers r @ [c]\<rparr>"

definition health_snapshot :: "'d healthRegistry \<Rightarrow> 'd checker list" where
  "health_snapshot r = checkers r"

definition CheckerFunc :: "string \<Rightarrow> (duration \<Rightarrow> goerror option) \<Rightarrow> (duration \<Rightarrow> int) \<Rightarrow> 'd checker" where
  "CheckerFunc name fn tm = \<lparr>cName = name, cCheck = fn, cTime = tm, cDetails = None\<rparr>"

section \<open>The health report\<close>

definition checkTimeout :: duration where "checkTimeout = 2 * Second"

record 'd checkResult =
  rName :: string
  rErr :: "goerror option"
  rDetail :: "'d option"

text \<open>\<open>context.WithTimeout\<close>: the budget of a check is the timeout, or what is left of the
  request's own deadline if that is less.\<close>

definition with_timeout :: "duration option \<Rightarrow> duration \<Rightarrow> duration" where
  "with_timeout left t = (case left of None \<Rightarrow> t | Some r \<Rightarrow> (if r <s t then r else t))"

definition check_budget :: "duration option \<Rightarrow> duration" where
  "check_budget left = with_timeout left checkTimeout"

text \<open>All checks run at once, the results are collected in registration order, and the call
  takes as long as the slowest.\<close>

definition runChecks :: "duration option \<Rightarrow> 'd checker list \<Rightarrow> 'd checkResult list \<times> int" where
  "runChecks left cs =
     (let b = check_budget left
      in (map (\<lambda>c. \<lparr>rName = cName c, rErr = cCheck c b, rDetail = cDetails c\<rparr>) cs,
          fold max (map (\<lambda>c. cTime c b) cs) 0))"

record Info =
  Version :: string
  Commit :: string
  Date :: string

text \<open>The build's values unless the linker overrides them.\<close>

definition GetInfo :: Info where
  "GetInfo = \<lparr>Version = ''dev'', Commit = ''none'', Date = ''unknown''\<rparr>"

record 'd healthResponse =
  hStatus :: string
  hService :: string
  hBuild :: Info
  hChecks :: "string \<rightharpoonup> string"
  hDetails :: "(string \<rightharpoonup> 'd) option"

definition report_result :: "'d checkResult \<Rightarrow> 'd healthResponse \<Rightarrow> 'd healthResponse" where
  "report_result r resp =
     (let resp1 = (case rErr r of
                     Some e \<Rightarrow> resp\<lparr>hStatus := ''degraded'', hChecks := (hChecks resp)(rName r \<mapsto> error_text e)\<rparr>
                   | None \<Rightarrow> resp\<lparr>hChecks := (hChecks resp)(rName r \<mapsto> ''ok'')\<rparr>)
      in (case rDetail r of
            None \<Rightarrow> resp1
          | Some d \<Rightarrow> resp1\<lparr>hDetails := map_option (\<lambda>m. m(rName r \<mapsto> d)) (hDetails resp1)\<rparr>))"

definition handleHealth :: "Info \<Rightarrow> duration option \<Rightarrow> 'd healthRegistry \<Rightarrow> nat \<times> 'd healthResponse" where
  "handleHealth build left reg =
     (let resp0 = \<lparr>hStatus = ''ok'', hService = [], hBuild = build, hChecks = Map.empty, hDetails = Some Map.empty\<rparr>;
          resp1 = fold report_result (fst (runChecks left (health_snapshot reg))) resp0;
          resp = (if hDetails resp1 = Some Map.empty then resp1\<lparr>hDetails := None\<rparr> else resp1)
      in (if hStatus resp \<noteq> ''ok'' then 503 else 200, resp))"

definition handleLive :: "Info \<Rightarrow> nat \<times> string \<times> Info" where
  "handleLive build = (200, ''ok'', build)"

section \<open>The server\<close>

text \<open>The handlers behind the ops routes; \<open>'h\<close> is what a caller mounts.\<close>

datatype 'h ops_handler = HealthHandler_ops | LiveHandler | MetricsHandler | Mounted 'h

record ('d, 'h) Server =
  srvAddr :: string
  srvMux :: "(string \<times> 'h ops_handler) list"
  srvHealth :: "'d healthRegistry"

definition server_New :: "string \<Rightarrow> ('d, 'h) Server" where
  "server_New addr =
     \<lparr>srvAddr = addr,
      srvMux = [(''/health'', HealthHandler_ops), (''/health/live'', LiveHandler), (''/metrics'', MetricsHandler)],
      srvHealth = \<lparr>checkers = []\<rparr>\<rparr>"

definition RegisterChecker :: "'d checker \<Rightarrow> ('d, 'h) Server \<Rightarrow> ('d, 'h) Server" where
  "RegisterChecker c s = s\<lparr>srvHealth := health_add c (srvHealth s)\<rparr>"

text \<open>\<open>ServeMux.Handle\<close> panics on an empty pattern and on one that is already registered.\<close>

definition Mount :: "string \<Rightarrow> 'h \<Rightarrow> ('d, 'h) Server \<Rightarrow> ('d, 'h) Server option" where
  "Mount pattern h s =
     (if pattern = [] \<or> pattern \<in> fst ` set (srvMux s) then None
      else Some (s\<lparr>srvMux := srvMux s @ [(pattern, Mounted h)]\<rparr>))"

text \<open>A pattern that is a plain path without a trailing slash matches that path only.\<close>

definition route_exact :: "('d, 'h) Server \<Rightarrow> string \<Rightarrow> 'h ops_handler option" where
  "route_exact s path = map_of (srvMux s) path"

section \<open>Listening and shutdown\<close>

text \<open>The ready cases of \<open>Start\<close>: \<open>listened\<close> is what \<open>ListenAndServe\<close> has returned, if it has
  returned, and \<open>shutdown\<close> what \<open>Shutdown\<close> returns.\<close>

definition ops_listen_result :: "goerror option \<Rightarrow> goerror option" where
  "ops_listen_result err = (if err \<noteq> None \<and> \<not> errors_Is err ErrServerClosed then err else None)"

definition ops_Start :: "goerror option option \<Rightarrow> ctx \<Rightarrow> goerror option \<Rightarrow> goerror option list" where
  "ops_Start listened ctx shutdown =
     (case listened of None \<Rightarrow> [] | Some err \<Rightarrow> [ops_listen_result err]) @ done_case ctx (\<lambda>_. shutdown)"

section \<open>Clients and deferred calls\<close>

text \<open>What a service's \<open>Run\<close> does with the clients it builds: it acquires them, runs its group, and its
  deferred calls flush and release them, the last acquired first. \<open>held\<close> replays such a trace on a
  stack and fails if a client is released out of turn.\<close>

datatype resource = ConsumerClient | RedisConn | ProducerClient | AdminClient

datatype action = Acquire resource | Flush resource | Release resource | RunGroup

fun held :: "action list \<Rightarrow> resource list \<Rightarrow> resource list option" where
  "held [] rs = Some rs"
| "held (Acquire r # as) rs = held as (r # rs)"
| "held (Release r # as) rs = (case rs of [] \<Rightarrow> None | q # qs \<Rightarrow> if q = r then held as qs else None)"
| "held (Flush r # as) rs = (if r \<in> set rs then held as rs else None)"
| "held (RunGroup # as) rs = held as rs"

section \<open>Running components\<close>

text \<open>\<open>runtime.Run\<close>, given the components' results in the order they returned and the outer
  context when the last one did.\<close>

definition runtime_Run :: "goerror option list \<Rightarrow> ctx \<Rightarrow> goerror option" where
  "runtime_Run results ctx =
     (let err = g_Wait results in if err \<noteq> None \<and> ctx = None then err else None)"

section \<open>Lemmas\<close>

lemma hStatus_report:
  "hStatus (report_result r resp) = (if rErr r = None then hStatus resp else ''degraded'')"
  by (auto simp: report_result_def Let_def split: option.split)

lemma hStatus_reports:
  "hStatus (fold report_result rs resp) = (if \<exists>r \<in> set rs. rErr r \<noteq> None then ''degraded'' else hStatus resp)"
  by (induction rs arbitrary: resp) (auto simp: hStatus_report)

definition verdict :: "goerror option \<Rightarrow> string" where
  "verdict err = (case err of None \<Rightarrow> ''ok'' | Some e \<Rightarrow> error_text e)"

lemma hChecks_report: "hChecks (report_result r resp) = (hChecks resp)(rName r \<mapsto> verdict (rErr r))"
  by (auto simp: report_result_def Let_def verdict_def split: option.split)

lemma hChecks_reports:
  "hChecks (fold report_result rs resp) = hChecks resp ++ map_of (rev (map (\<lambda>r. (rName r, verdict (rErr r))) rs))"
  by (induction rs arbitrary: resp) (simp_all add: hChecks_report)

lemma handleHealth_code:
  "fst (handleHealth build left reg) =
     (if \<forall>c \<in> set (checkers reg). cCheck c (check_budget left) = None then 200 else 503)"
  by (auto simp: handleHealth_def Let_def hStatus_reports runChecks_def health_snapshot_def)

lemma fresh_report: "fst (handleHealth build left \<lparr>checkers = []\<rparr>) = 200"
  by (simp add: handleHealth_code)

lemma handleHealth_checks:
  "hChecks (snd (handleHealth build left reg)) =
     map_of (rev (map (\<lambda>c. (cName c, verdict (cCheck c (check_budget left)))) (checkers reg)))"
  by (simp add: handleHealth_def Let_def hChecks_reports runChecks_def health_snapshot_def comp_def)

lemma fold_max_bound: "(\<forall>x \<in> set xs. x \<le> b) \<Longrightarrow> a \<le> b \<Longrightarrow> fold max xs a \<le> (b :: int)"
  by (induction xs arbitrary: a) auto

lemma with_timeout_bounds:
  "sint (with_timeout left t) \<le> sint t" "left = Some r \<Longrightarrow> sint (with_timeout left t) \<le> sint r"
  by (auto simp: with_timeout_def word_sless_alt split: option.split)

lemma check_budget_bounds:
  "sint (check_budget left) \<le> 2000000000" "left = Some r \<Longrightarrow> sint (check_budget left) \<le> sint r"
  using with_timeout_bounds(1) [of left checkTimeout] with_timeout_bounds(2) [of left r checkTimeout] by (simp_all add: check_budget_def checkTimeout_def)

section \<open>The contract of a checker\<close>

locale health_checker =
  fixes mk :: "'s \<Rightarrow> 'd checker"
    and healthy :: "'s \<Rightarrow> duration \<Rightarrow> bool"
  assumes check_iff: "cCheck (mk s) b = None \<longleftrightarrow> healthy s b"
begin

text \<open>Registering it makes the report depend on its component and changes nothing else.\<close>

lemma registered_report:
  "fst (handleHealth build left (health_add (mk s) reg)) =
     (if healthy s (check_budget left) then fst (handleHealth build left reg) else 503)"
  by (auto simp: handleHealth_code health_add_def check_iff)

end

section \<open>Properties\<close>

text \<open>The readiness report is 200 exactly when every registered check passes, and 503
  otherwise, in registration order and whatever else fails; with distinct names each check has
  its own entry, \<open>ok\<close> or its error text. Two checkers of one name share an entry, the later
  one winning, but a failure still makes the report 503.\<close>

theorem health_report:
  "fst (handleHealth build left reg) =
     (if \<forall>c \<in> set (checkers reg). cCheck c (check_budget left) = None then 200 else 503) \<and>
   hStatus (snd (handleHealth build left reg)) =
     (if fst (handleHealth build left reg) = 200 then ''ok'' else ''degraded'') \<and>
   (distinct (map cName (checkers reg)) \<longrightarrow>
      (\<forall>c \<in> set (checkers reg).
         hChecks (snd (handleHealth build left reg)) (cName c) = Some (verdict (cCheck c (check_budget left)))))"
proof (intro conjI impI ballI)
  show "fst (handleHealth build left reg) =
     (if \<forall>c \<in> set (checkers reg). cCheck c (check_budget left) = None then 200 else 503)"
    by (rule handleHealth_code)
  show "hStatus (snd (handleHealth build left reg)) =
     (if fst (handleHealth build left reg) = 200 then ''ok'' else ''degraded'')"
    by (auto simp: handleHealth_def Let_def hStatus_reports runChecks_def health_snapshot_def)
  fix c assume d: "distinct (map cName (checkers reg))" and c: "c \<in> set (checkers reg)"
  let ?f = "\<lambda>c. (cName c, verdict (cCheck c (check_budget left)))"
  have "distinct (map fst (rev (map ?f (checkers reg))))" using d by (simp add: comp_def flip: rev_map)
  moreover have "?f c \<in> set (rev (map ?f (checkers reg)))" using c by simp
  ultimately have "map_of (rev (map ?f (checkers reg))) (cName c) = Some (verdict (cCheck c (check_budget left)))"
    by (rule map_of_is_SomeI)
  then show "hChecks (snd (handleHealth build left reg)) (cName c) = Some (verdict (cCheck c (check_budget left)))"
    by (simp add: handleHealth_checks)
qed

theorem health_report_witness:
  "hChecks (snd (handleHealth \<lparr>Version = [], Commit = [], Date = []\<rparr> None
     \<lparr>checkers = [CheckerFunc ''redis'' (\<lambda>b. None) (\<lambda>b. 0), CheckerFunc ''kafka'' (\<lambda>b. Some (Errorf ''down'')) (\<lambda>b. 0)
        :: unit checker]\<rparr>)) ''kafka'' = Some ''down''"
  using health_report [of "\<lparr>Version = [], Commit = [], Date = []\<rparr>" None
      "\<lparr>checkers = [CheckerFunc ''redis'' (\<lambda>b. None) (\<lambda>b. 0), CheckerFunc ''kafka'' (\<lambda>b. Some (Errorf ''down'')) (\<lambda>b. 0)
        :: unit checker]\<rparr>"]
  by (simp add: CheckerFunc_def verdict_def)

text \<open>However many checkers a service registers, if each keeps to the budget of its context
  the report takes at most two seconds, and at most what was left of the request's deadline;
  every checker gets the full budget, independent of the others.\<close>

theorem health_report_bounded:
  assumes "\<forall>c \<in> set cs. cTime c (check_budget left) \<le> sint (check_budget left)" "0 \<le> sint (check_budget left)"
  shows "snd (runChecks left cs) \<le> 2000000000 \<and>
    (\<forall>r. left = Some r \<longrightarrow> snd (runChecks left cs) \<le> sint r) \<and>
    map rErr (fst (runChecks left cs)) = map (\<lambda>c. cCheck c (check_budget left)) cs"
proof -
  have "snd (runChecks left cs) \<le> sint (check_budget left)"
    using assms unfolding runChecks_def Let_def by (auto intro!: fold_max_bound)
  then show ?thesis
    using check_budget_bounds [of left] by (fastforce simp: runChecks_def Let_def)
qed

theorem health_report_bounded_witness:
  "snd (runChecks None (replicate 50 (CheckerFunc ''slow'' (\<lambda>b. None) (\<lambda>b. 2000000000) :: unit checker))) \<le> 2000000000"
proof -
  have "sint (check_budget None) = 2000000000" by (simp add: check_budget_def with_timeout_def checkTimeout_def)
  then show ?thesis
    using health_report_bounded [of "replicate 50 (CheckerFunc ''slow'' (\<lambda>b. None) (\<lambda>b. 2000000000) :: unit checker)" None]
    by (simp add: CheckerFunc_def)
qed

end
