(* ===== verification/Api.thy ===== *)
theory Api
  imports RedisWriter KafkaLag HttpServer
begin

text \<open>
  api-service: the Redis reader and its handlers (\<open>rest/redis.go\<close>, \<open>trade.go\<close>, \<open>orderbook.go\<close>),
  the public health report (\<open>rest/health.go\<close>), response writing (\<open>respond.go\<close>), the routes and
  the public server (\<open>internal/server.go\<close>) and the service's wiring (\<open>internal/service.go\<close>).
  The Redis client is a parameter: what \<open>Get(key).Bytes()\<close> and \<open>Ping\<close> return. The router
  library is a parameter too: how a pattern matches a path. A handler's result is the status
  code and the body bytes.
\<close>

section \<open>Responses\<close>

type_synonym response = "nat \<times> string"

text \<open>\<open>json.NewEncoder(w).Encode(v)\<close> writes the encoding and a newline, or nothing if \<open>v\<close> cannot be
  encoded; the status has been written by then.\<close>

definition writeJSON :: "nat \<Rightarrow> json option \<Rightarrow> response" where
  "writeJSON status v = (status, (case v of None \<Rightarrow> [] | Some j \<Rightarrow> json_print j @ [CHR 0x0A]))"

definition enc_error :: "string \<Rightarrow> json option" where
  "enc_error message = enc_obj [(''error'', enc_string message)]"

definition writeError :: "nat \<Rightarrow> string \<Rightarrow> response" where
  "writeError status message = writeJSON status (enc_error message)"

section \<open>The Redis reader\<close>

record RedisReader =
  rGet :: "string \<Rightarrow> goerror + string"
  rdPing :: "duration \<Rightarrow> goerror option"

definition NewRedisReader :: "(string \<Rightarrow> RedisReader) \<Rightarrow> string \<Rightarrow> goerror + RedisReader" where
  "NewRedisReader new_client addr =
     (if addr = [] then Inl (Errorf ''redis: addr is required'') else Inr (new_client addr))"

definition RedisReader_Check :: "RedisReader \<Rightarrow> duration \<Rightarrow> goerror option" where
  "RedisReader_Check r budget = map_option (Wrapf ''redis ping: '') (rdPing r budget)"

definition normalizeSymbol :: "unicode \<Rightarrow> string \<Rightarrow> string" where
  "normalizeSymbol U sb = ToUpper U (TrimSpace U sb)"

record tradeResponse =
  trSymbol :: string
  trTrades :: "TradeEvent slice"
  trSource :: string

definition enc_tradeResponse :: "tradeResponse \<Rightarrow> json option" where
  "enc_tradeResponse t = enc_obj
     [(''symbol'', enc_string (trSymbol t)), (''trades'', enc_slice enc_trade (trTrades t)),
      (''source'', enc_string (trSource t))]"

definition LatestTrade :: "unicode \<Rightarrow> RedisReader \<Rightarrow> string \<Rightarrow> response" where
  "LatestTrade U r param =
     (let sb = normalizeSymbol U param
      in if sb = [] then writeError 400 ''symbol is required''
         else (case rGet r (KeyLatestTrade sb) of
                 Inl e \<Rightarrow> (if errors_Is (Some e) RedisNil then writeError 404 ''trade not found''
                           else writeError 503 ''redis unavailable'')
               | Inr raw \<Rightarrow>
                   (case unmarshal_trade raw of
                      None \<Rightarrow> writeError 500 ''cached trade is invalid''
                    | Some trade \<Rightarrow>
                        writeJSON 200 (enc_tradeResponse
                          \<lparr>trSymbol = sb, trTrades = Some [trade], trSource = ''redis''\<rparr>))))"

record orderBookResponse =
  obSymbol :: string
  obBids :: "PriceLevel slice"
  obAsks :: "PriceLevel slice"
  obBestBid :: "PriceLevel option"
  obBestAsk :: "PriceLevel option"
  obLastUpdate :: gotime
  obSource :: string

definition enc_orderBookResponse :: "orderBookResponse \<Rightarrow> json option" where
  "enc_orderBookResponse b = enc_obj
     ([(''symbol'', enc_string (obSymbol b)), (''bids'', enc_slice enc_level (obBids b)),
       (''asks'', enc_slice enc_level (obAsks b))] @
      (case obBestBid b of None \<Rightarrow> [] | Some l \<Rightarrow> [(''best_bid'', enc_level l)]) @
      (case obBestAsk b of None \<Rightarrow> [] | Some l \<Rightarrow> [(''best_ask'', enc_level l)]) @
      [(''last_update'', enc_time (obLastUpdate b)), (''source'', enc_string (obSource b))])"

definition limitLevels :: "PriceLevel slice \<Rightarrow> nat \<Rightarrow> PriceLevel slice" where
  "limitLevels levels limit =
     (if length (elems levels) \<le> limit then levels else Some (take limit (elems levels)))"

definition book_response :: "OrderBook \<Rightarrow> orderBookResponse" where
  "book_response book =
     (let resp = \<lparr>obSymbol = BookSymbol book, obBids = limitLevels (Bids book) 20,
                  obAsks = limitLevels (Asks book) 20, obBestBid = None, obBestAsk = None,
                  obLastUpdate = LastUpdate book, obSource = ''redis''\<rparr>;
          resp1 = (case BestBid book of (bid, ok) \<Rightarrow> if ok then resp\<lparr>obBestBid := Some bid\<rparr> else resp)
      in (case BestAsk book of (ask, ok) \<Rightarrow> if ok then resp1\<lparr>obBestAsk := Some ask\<rparr> else resp1))"

definition OrderBook_handler :: "unicode \<Rightarrow> RedisReader \<Rightarrow> string \<Rightarrow> response" where
  "OrderBook_handler U r param =
     (let sb = normalizeSymbol U param
      in if sb = [] then writeError 400 ''symbol is required''
         else (case rGet r (KeyOrderBook sb) of
                 Inl e \<Rightarrow> (if errors_Is (Some e) RedisNil then writeError 404 ''order book not found''
                           else writeError 503 ''redis unavailable'')
               | Inr raw \<Rightarrow>
                   (case unmarshal_book raw of
                      None \<Rightarrow> writeError 500 ''cached order book is invalid''
                    | Some book \<Rightarrow> writeJSON 200 (enc_orderBookResponse (book_response book)))))"

section \<open>The public health report\<close>

text \<open>A lag reporter: what its \<open>Check\<close> and \<open>Snapshot\<close> return. The null object stands for a service
  without a broker.\<close>

record LagReporter =
  lagCheck :: "duration \<Rightarrow> goerror option"
  lagSnapshot :: LagSnapshot

definition notConfiguredLag :: LagReporter where
  "notConfiguredLag = \<lparr>lagCheck = (\<lambda>_. Some (Sentinel ErrLagNotConfigured)), lagSnapshot = zero_snapshot\<rparr>"

definition cache_reporter :: "unicode \<Rightarrow> gotime \<Rightarrow> LagCache option \<Rightarrow> LagReporter" where
  "cache_reporter U now c = \<lparr>lagCheck = (\<lambda>_. LagCache_Check U now c), lagSnapshot = Snapshot c\<rparr>"

record HealthHandler =
  hhRedis :: "duration \<Rightarrow> goerror option"
  hhLag :: LagReporter

definition NewHealthHandler :: "(duration \<Rightarrow> goerror option) \<Rightarrow> LagReporter option \<Rightarrow> HealthHandler" where
  "NewHealthHandler redis lag =
     \<lparr>hhRedis = redis, hhLag = (case lag of None \<Rightarrow> notConfiguredLag | Some l \<Rightarrow> l)\<rparr>"

record publicHealth =
  phStatus :: string
  phService :: string
  phBuild :: Info
  phChecks :: "string \<rightharpoonup> string"

definition redisCheckTimeout :: duration where "redisCheckTimeout = 2 * Second"
definition lagCheckTimeout :: duration where "lagCheckTimeout = 500 * Millisecond"

definition lagStatus :: "HealthHandler \<Rightarrow> duration \<Rightarrow> publicHealth \<Rightarrow> publicHealth \<times> bool" where
  "lagStatus h budget resp =
     (let err = lagCheck (hhLag h) budget
      in if errors_Is err ErrLagNotConfigured
           then (resp\<lparr>phChecks := (phChecks resp)(''kafka_consumer_lag'' \<mapsto> ''not_configured'')\<rparr>, False)
         else (case err of
                 Some e \<Rightarrow> (resp\<lparr>phChecks := (phChecks resp)(''kafka_consumer_lag'' \<mapsto> error_text e)\<rparr>, True)
               | None \<Rightarrow> (resp\<lparr>phChecks := (phChecks resp)(''kafka_consumer_lag'' \<mapsto>
                            FormatInt (sint (Total (Lag (lagSnapshot (hhLag h))))))\<rparr>, False)))"

text \<open>Each dependency has its own budget, cut by what is left of the request's deadline.\<close>

definition Health :: "Info \<Rightarrow> duration option \<Rightarrow> HealthHandler \<Rightarrow> nat \<times> publicHealth" where
  "Health build left h =
     (let resp0 = \<lparr>phStatus = ''ok'', phService = ''api-service'', phBuild = build, phChecks = Map.empty\<rparr>;
          (resp1, degraded) = lagStatus h (with_timeout left lagCheckTimeout) resp0;
          resp2 = (if degraded then resp1\<lparr>phStatus := ''degraded''\<rparr> else resp1)
      in (case hhRedis h (with_timeout left redisCheckTimeout) of
            Some e \<Rightarrow> (503, resp2\<lparr>phStatus := ''degraded'', phChecks := (phChecks resp2)(''redis'' \<mapsto> error_text e)\<rparr>)
          | None \<Rightarrow> (200, resp2\<lparr>phChecks := (phChecks resp2)(''redis'' \<mapsto> ''ok'')\<rparr>)))"

section \<open>Routes and the public server\<close>

datatype route = HealthRoute | TradesRoute | OrderBookRoute

definition NewRouter :: "(string \<times> route) list" where
  "NewRouter = [(''/api/v1/health'', HealthRoute), (''/api/v1/trades/{symbol}'', TradesRoute),
                (''/api/v1/orderbook/{symbol}'', OrderBookRoute)]"

text \<open>The ready cases of \<open>Run\<close>, as for the ops server.\<close>

definition public_listen_result :: "goerror option \<Rightarrow> goerror option" where
  "public_listen_result err = (if err \<noteq> None \<and> errors_Is err ErrServerClosed then err else None)"

definition PublicServer_Run :: "goerror option option \<Rightarrow> ctx \<Rightarrow> goerror option \<Rightarrow> goerror option list" where
  "PublicServer_Run listened ctx shutdown =
     (case listened of None \<Rightarrow> [] | Some err \<Rightarrow> [public_listen_result err]) @ done_case ctx (\<lambda>_. shutdown)"

section \<open>The group\<close>

text \<open>The functions of \<open>Run\<close>'s errgroup: the public server and, when there is a lag cache, its
  refresher: both returns of \<open>LagCache.Run\<close> are nil and behind a done context. \<open>errgroup.WithContext\<close> derives a
  context that is done when the parent is or when a function has returned an error.\<close>

record api_group =
  agParent :: ctx
  agCtx :: ctx
  agPublic :: "goerror option option"
  agLag :: "goerror option option"
  agResults :: "goerror option list"

definition api_start :: "bool \<Rightarrow> api_group" where
  "api_start lag =
     \<lparr>agParent = None, agCtx = None, agPublic = None, agLag = (if lag then None else Some None), agResults = []\<rparr>"

definition eg_return :: "goerror option \<Rightarrow> api_group \<Rightarrow> api_group" where
  "eg_return err g =
     g\<lparr>agResults := agResults g @ [err], agCtx := (if err \<noteq> None \<and> agCtx g = None then ctx_canceled else agCtx g)\<rparr>"

definition api_returned :: "api_group \<Rightarrow> bool" where
  "api_returned g = (agPublic g \<noteq> None \<and> agLag g \<noteq> None)"

datatype api_label = PublicEnds "goerror option option" | LagEnds | ParentDone

inductive api_step :: "api_group \<Rightarrow> api_label \<Rightarrow> api_group \<Rightarrow> bool" where
  public_returns: "agPublic g = None \<Longrightarrow> err \<in> set (PublicServer_Run listened (agCtx g) shutdown) \<Longrightarrow>
    api_step g (PublicEnds listened) ((eg_return err g)\<lparr>agPublic := Some err\<rparr>)"
| lag_returns: "agLag g = None \<Longrightarrow> agCtx g \<noteq> None \<Longrightarrow>
    api_step g LagEnds ((eg_return None g)\<lparr>agLag := Some None\<rparr>)"
| parent_done: "agParent g = None \<Longrightarrow>
    api_step g ParentDone (g\<lparr>agParent := ctx_canceled, agCtx := (if agCtx g = None then ctx_canceled else agCtx g)\<rparr>)"

inductive api_reach :: "api_group \<Rightarrow> api_label list \<Rightarrow> api_group \<Rightarrow> bool" for g0 where
  api_begin: "api_reach g0 [] g0"
| api_next: "api_reach g0 ls g \<Longrightarrow> api_step g l g' \<Longrightarrow> api_reach g0 (ls @ [l]) g'"

section \<open>Wiring\<close>

text \<open>\<open>startLagCache\<close>: the cache and whether its refresher and checker are started; a reader that
  cannot be built is logged and leaves the report without a lag source.\<close>

definition startLagCache ::
  "(string list \<Rightarrow> goerror + admin) \<Rightarrow> string list \<Rightarrow> duration \<Rightarrow> (LagReader \<times> LagCache) option" where
  "startLagCache dial brokers iv =
     (case NewLagReader dial brokers ConsumerGroupProcessor TopicTradesRaw of
        Inl e \<Rightarrow> None
      | Inr reader \<Rightarrow> Some (reader, NewLagCache iv))"

text \<open>The checkers api-service registers on the ops server; a ping takes the time \<open>tm\<close> says, a
  look at the cache takes none.\<close>

definition redis_checker :: "(duration \<Rightarrow> int) \<Rightarrow> RedisReader \<Rightarrow> 'd checker" where
  "redis_checker tm r = CheckerFunc ''redis'' (RedisReader_Check r) tm"

definition lag_checker :: "unicode \<Rightarrow> gotime \<Rightarrow> LagCache option \<Rightarrow> (string \<rightharpoonup> detail) checker" where
  "lag_checker U now c =
     \<lparr>cName = ''kafka_consumer_lag'', cCheck = (\<lambda>_. LagCache_Check U now c), cTime = (\<lambda>_. 0),
      cDetails = Details now c\<rparr>"

text \<open>Closing the lag reader releases its client, if it has one.\<close>

definition LagReader_Close :: "LagReader option \<Rightarrow> action list" where
  "LagReader_Close l = (case l of None \<Rightarrow> [] | Some r \<Rightarrow> if lr_close r then [Release AdminClient] else [])"

text \<open>\<open>Service.Run\<close>: the reader must be configured and its checker is registered; the lag cache, when it
  can be built, registers its own; then the results of the group's functions, in the order they
  return, decide. The functions get the reader and the lag cache the public server is built on.
  The refresher's goroutine closes the lag reader, the deferred call the Redis reader.\<close>

definition api_Run ::
  "(string \<Rightarrow> RedisReader) \<Rightarrow> (string list \<Rightarrow> goerror + admin) \<Rightarrow> string \<Rightarrow> string list \<Rightarrow> duration \<Rightarrow>
   (RedisReader \<Rightarrow> 'd checker) \<Rightarrow> (LagCache \<Rightarrow> 'd checker) \<Rightarrow>
   (RedisReader \<Rightarrow> (LagReader \<times> LagCache) option \<Rightarrow> goerror option list) \<Rightarrow>
   ('d, 'h) Server \<Rightarrow> ('d, 'h) Server \<times> goerror option \<times> action list" where
  "api_Run new_client dial addr brokers iv rchk lchk group_results ops =
     (case NewRedisReader new_client addr of
        Inl e \<Rightarrow> (ops, Some (Wrapf ''redis reader: '' e), [])
      | Inr reader \<Rightarrow>
          (let ops1 = RegisterChecker (rchk reader) ops;
               lag = startLagCache dial brokers iv;
               ops2 = (case lag of None \<Rightarrow> ops1 | Some (_, cache) \<Rightarrow> RegisterChecker (lchk cache) ops1)
           in (ops2, g_Wait (group_results reader lag),
               [Acquire RedisConn] @
               (case lag of None \<Rightarrow> [RunGroup]
                | Some (lr, _) \<Rightarrow> [Acquire AdminClient, RunGroup] @ LagReader_Close (Some lr)) @
               [Release RedisConn])))"

section \<open>Lemmas\<close>

interpretation redis_health: health_checker "redis_checker tm" "\<lambda>r b. rdPing r b = None" for tm
  by unfold_locales (simp add: redis_checker_def CheckerFunc_def RedisReader_Check_def)

interpretation lag_health: health_checker "lag_checker U now"
  "\<lambda>c b. \<exists>k. c = Some k \<and> LagCache_Check U now c = None" for U now
proof unfold_locales
  fix c b
  show "cCheck (lag_checker U now c) b = None \<longleftrightarrow> (\<exists>k. c = Some k \<and> LagCache_Check U now c = None)"
    by (cases c) (simp_all add: lag_checker_def LagCache_Check_def)
qed

lemma limitLevels_take: "elems (limitLevels ls n) = take n (elems ls)"
  by (simp add: limitLevels_def)

lemma book_response_fields:
  "obBids (book_response b) = limitLevels (Bids b) 20" "obAsks (book_response b) = limitLevels (Asks b) 20"
  "obBestBid (book_response b) = (case elems (Bids b) of [] \<Rightarrow> None | l # _ \<Rightarrow> Some l)"
  "obBestAsk (book_response b) = (case elems (Asks b) of [] \<Rightarrow> None | l # _ \<Rightarrow> Some l)"
  "obSymbol (book_response b) = BookSymbol b" "obLastUpdate (book_response b) = LastUpdate b"
  by (auto simp: book_response_def Let_def BestBid_def BestAsk_def split: list.split prod.split)

lemma first_of_take: "0 < n \<Longrightarrow> (case xs of [] \<Rightarrow> None | x # _ \<Rightarrow> Some x) = (case take n xs of [] \<Rightarrow> None | x # _ \<Rightarrow> Some x)"
  by (cases xs; cases n) auto

lemma fst_writeJSON [simp]: "fst (writeJSON st v) = st" "fst (writeError st m) = st"
  by (simp_all add: writeJSON_def writeError_def)

text \<open>While the process goes on and no listener was closed, the group stays as it is.\<close>

lemma api_group_ok:
  assumes "api_reach (api_start lag) ls g" "agParent g = None"
    and "\<forall>err. PublicEnds (Some (Some err)) \<in> set ls \<longrightarrow> \<not> errors_Is (Some err) ErrServerClosed"
  shows "agCtx g = None \<and> agPublic g \<in> {None, Some None} \<and> agLag g = (if lag then None else Some None) \<and>
    (\<forall>r \<in> set (agResults g). r = None)"
  using assms
proof (induction rule: api_reach.induct)
  case api_begin
  then show ?case by (simp add: api_start_def)
next
  case (api_next ls g l g')
  have "agParent g = None" using api_next(2,4) by (cases rule: api_step.cases) (auto simp: eg_return_def)
  then have ok: "agCtx g = None" "agPublic g \<in> {None, Some None}" "agLag g = (if lag then None else Some None)"
    "\<forall>r \<in> set (agResults g). r = None"
    using api_next(3,5) by auto
  from api_next(2) show ?case
  proof (cases rule: api_step.cases)
    case (public_returns err listened shutdown)
    have "err = None"
      using public_returns(4) ok(1) api_next(5) public_returns(1)
      by (cases listened) (auto simp: PublicServer_Run_def public_listen_result_def)
    then show ?thesis using public_returns ok by (simp add: eg_return_def)
  qed (use ok api_next(4) in auto)
qed

section \<open>Properties\<close>

text \<open>C33. The order book served: at most twenty levels a side, a prefix of the cached book's
  levels in their order; the best bid and ask are present exactly when the side is not empty
  and are the first levels served, so they always agree with the lists beside them.\<close>

theorem book_response_top:
  "elems (obBids (book_response b)) = take 20 (elems (Bids b)) \<and>
   elems (obAsks (book_response b)) = take 20 (elems (Asks b)) \<and>
   obBestBid (book_response b) = (case elems (obBids (book_response b)) of [] \<Rightarrow> None | l # _ \<Rightarrow> Some l) \<and>
   obBestAsk (book_response b) = (case elems (obAsks (book_response b)) of [] \<Rightarrow> None | l # _ \<Rightarrow> Some l)"
  using first_of_take [of 20 "elems (Bids b)"] first_of_take [of 20 "elems (Asks b)"]
  by (simp add: book_response_fields limitLevels_take)

text \<open>C34. The public health report answers 503 exactly when the Redis check fails; whatever the
  consumer lag, it alone never takes the instance out of rotation. The status is \<open>ok\<close> exactly
  when Redis answers and the lag is either fine or not configured. Both checks are always
  reported, and their budgets together are at most two and a half seconds.\<close>

theorem public_health_status:
  "fst (Health build left h) = (if hhRedis h (with_timeout left redisCheckTimeout) = None then 200 else 503) \<and>
   (phStatus (snd (Health build left h)) = ''ok'' \<longleftrightarrow>
      hhRedis h (with_timeout left redisCheckTimeout) = None \<and>
      (lagCheck (hhLag h) (with_timeout left lagCheckTimeout) = None \<or>
       errors_Is (lagCheck (hhLag h) (with_timeout left lagCheckTimeout)) ErrLagNotConfigured)) \<and>
   (phStatus (snd (Health build left h)) \<noteq> ''ok'' \<longrightarrow> phStatus (snd (Health build left h)) = ''degraded'') \<and>
   dom (phChecks (snd (Health build left h))) = {''redis'', ''kafka_consumer_lag''} \<and>
   phStatus (snd (Health build left (NewHealthHandler (\<lambda>_. None) None))) = ''ok'' \<and>
   sint (with_timeout left redisCheckTimeout) + sint (with_timeout left lagCheckTimeout) \<le> 2500000000"
proof -
  have "sint redisCheckTimeout = 2000000000" "sint lagCheckTimeout = 500000000"
    by (simp_all add: redisCheckTimeout_def lagCheckTimeout_def)
  then have "sint (with_timeout left redisCheckTimeout) + sint (with_timeout left lagCheckTimeout) \<le> 2500000000"
    using with_timeout_bounds(1) [of left redisCheckTimeout] with_timeout_bounds(1) [of left lagCheckTimeout] by linarith
  then show ?thesis
    by (auto simp: Health_def lagStatus_def Let_def NewHealthHandler_def notConfiguredLag_def split: option.split)
qed

theorem public_health_status_witness:
  "phStatus (snd (Health GetInfo None (NewHealthHandler (\<lambda>_. Some (Errorf ''down'')) None))) = ''degraded''"
  using public_health_status [of GetInfo None "NewHealthHandler (\<lambda>_. Some (Errorf ''down'')) None"]
  by (simp add: NewHealthHandler_def)

text \<open>On the ops server the lag cache decides the report as it should: registered beside any
  other checkers it leaves their verdict when its last good reading is at most three intervals
  old and not stalled, and makes the report 503 otherwise.\<close>

theorem ops_report_follows_lag:
  assumes "0 < sint iv" "sint iv \<le> 2 ^ 61"
  shows "fst (handleHealth build left (health_add (lag_checker U now (Some (run_refresh hs (NewLagCache iv)))) reg)) =
    (if \<exists>l t. last_good hs = Some (l, t) \<and> t \<noteq> zero_time \<and> now - t \<le> 3 * sint iv \<and> \<not> Stalled l
     then fst (handleHealth build left reg) else 503)"
  using lag_health.registered_report [of build left U now "Some (run_refresh hs (NewLagCache iv))" reg]
    cache_check_iff [OF assms, of U now hs] by simp

theorem ops_report_follows_lag_witness:
  "fst (handleHealth \<lparr>Version = [], Commit = [], Date = []\<rparr> None
     (health_add (lag_checker ascii_tables 99000000000 (Some (run_refresh [(Inr zero_lag, 1)] (NewLagCache (10 * Second)))))
        \<lparr>checkers = []\<rparr>)) = 503"
  using ops_report_follows_lag [of "10 * Second" "\<lparr>Version = [], Commit = [], Date = []\<rparr>" None ascii_tables 99000000000
      "[(Inr zero_lag, 1)]" "\<lparr>checkers = []\<rparr>"]
  by (simp add: last_good_def)

text \<open>C36. A listen failure of the public API is swallowed: as long as the process is not told to stop
  and whatever error other than its own closing the listener ends with, the public server's
  function returns nil, so in no schedule is the group's context cancelled; the lag refresher, if
  there is one, is still running without a public listener and \<open>Run\<close> has not returned, and if
  there is none \<open>Run\<close>, given a Redis address, returns without an error. Such a failure can happen at the start. The ops
  server returns the same failure, and the process ends with it.\<close>

theorem public_listen_failure_swallowed:
  assumes "api_reach (api_start lag) ls g" "agParent g = None"
    and "\<forall>err. PublicEnds (Some (Some err)) \<in> set ls \<longrightarrow> \<not> errors_Is (Some err) ErrServerClosed"
  shows "agCtx g = None \<and> agPublic g \<in> {None, Some None} \<and> agLag g = (if lag then None else Some None) \<and>
    (addr \<noteq> [] \<and> api_returned g \<longrightarrow>
       \<not> lag \<and> fst (snd (api_Run new_client dial addr brokers iv rchk lchk (\<lambda>_ _. agResults g) ops)) = None) \<and>
    (\<forall>err. \<not> errors_Is (Some err) ErrServerClosed \<longrightarrow>
       (\<exists>g'. api_reach (api_start lag) [PublicEnds (Some (Some err))] g' \<and> agPublic g' = Some None \<and> agParent g' = None) \<and>
       ops_Start (Some (Some err)) None sd = [Some err] \<and> runtime_Run (ops_Start (Some (Some err)) None sd) None = Some err)"
proof -
  note ok = api_group_ok [OF assms]
  have "fst (snd (api_Run new_client dial addr brokers iv rchk lchk (\<lambda>_ _. agResults g) ops)) = None" if "addr \<noteq> []"
    using that ok g_Wait_None [of "agResults g"] by (simp add: api_Run_def NewRedisReader_def Let_def)
  moreover have "\<exists>g'. api_reach (api_start lag) [PublicEnds (Some (Some err))] g' \<and> agPublic g' = Some None \<and> agParent g' = None"
    if "\<not> errors_Is (Some err) ErrServerClosed" for err
    using that api_next [OF api_begin public_returns, of "api_start lag" None "Some (Some err)" None]
    by (auto simp: api_start_def PublicServer_Run_def public_listen_result_def eg_return_def)
  moreover have "ops_Start (Some (Some err)) None sd = [Some err]" if "\<not> errors_Is (Some err) ErrServerClosed" for err
    using that by (simp add: ops_Start_def ops_listen_result_def)
  ultimately show ?thesis using ok by (auto simp: api_returned_def runtime_Run_def split: if_splits)
qed

theorem public_listen_failure_swallowed_witness:
  "\<exists>g. api_reach (api_start True) [PublicEnds (Some (Some (Errorf ''listen tcp :80: bind: permission denied'')))] g \<and>
     agPublic g = Some None \<and> agCtx g = None \<and> agLag g = None"
proof -
  let ?err = "Errorf ''listen tcp :80: bind: permission denied''"
  have p: "agParent (api_start True) = None" "\<not> errors_Is (Some ?err) ErrServerClosed"
    "\<forall>err. PublicEnds (Some (Some err)) \<in> set [] \<longrightarrow> \<not> errors_Is (Some err) ErrServerClosed"
    "\<forall>err. PublicEnds (Some (Some err)) \<in> set [PublicEnds (Some (Some ?err))] \<longrightarrow> \<not> errors_Is (Some err) ErrServerClosed"
    by (simp_all add: api_start_def)
  note start = public_listen_failure_swallowed [OF api_begin p(1,3), THEN conjunct2, THEN conjunct2, THEN conjunct2, THEN conjunct2,
      rule_format, OF p(2), THEN conjunct1]
  then obtain g where g: "api_reach (api_start True) [PublicEnds (Some (Some ?err))] g" "agPublic g = Some None" "agParent g = None"
    by blast
  note after = public_listen_failure_swallowed [OF g(1,3) p(4)]
  have "agCtx g = None" "agLag g = None"
    using conjunct1 [OF after] conjunct1 [OF conjunct2 [OF conjunct2 [OF after]]] by simp_all
  with g show ?thesis by blast
qed

end
