(* ===== verification/Ingestion.thy ===== *)
theory Ingestion
  imports Wire Retry HttpServer "HOL-Library.AList"
begin

text \<open>
  ingestion-service (\<open>services/ingestion-service/internal\<close>): decoding and validating one exchange
  message (\<open>normalizer.go\<close>), the Kafka producer's bookkeeping (\<open>publisher.go\<close>), per-symbol
  connection state (\<open>health.go\<close>), one WebSocket session (\<open>worker.go\<close>), the reconnect loop around
  it (\<open>reconnect.go\<close>) and the service (\<open>service.go\<close>). The WebSocket connection is the sequence
  of its read results, the Kafka client what its calls return. The error value of
  \<open>json.Unmarshal\<close> on a rejected text is a parameter, since only its text is used, in a log line.
\<close>

section \<open>Normalising a message\<close>

record binanceTradeMessage =
  mEventType :: string
  mEventTime :: int64
  mSymbol :: string
  mTradeID :: int64
  mPrice :: string
  mQuantity :: string
  mTradeTime :: int64
  mBuyerIsMaker :: bool
  mIgnore :: bool

definition zero_message :: binanceTradeMessage where
  "zero_message = \<lparr>mEventType = [], mEventTime = 0, mSymbol = [], mTradeID = 0, mPrice = [], mQuantity = [],
     mTradeTime = 0, mBuyerIsMaker = False, mIgnore = False\<rparr>"

definition message_fields :: "string list" where
  "message_fields = [''e'', ''E'', ''s'', ''t'', ''p'', ''q'', ''T'', ''m'', ''M'']"

definition store_message :: "string \<Rightarrow> json \<Rightarrow> binanceTradeMessage \<Rightarrow> binanceTradeMessage option" where
  "store_message n v msg =
     (if n = ''e'' then map_option (\<lambda>s. msg\<lparr>mEventType := s\<rparr>) (dec_string (mEventType msg) v)
      else if n = ''E'' then map_option (\<lambda>i. msg\<lparr>mEventTime := i\<rparr>) (dec_int64 (mEventTime msg) v)
      else if n = ''s'' then map_option (\<lambda>s. msg\<lparr>mSymbol := s\<rparr>) (dec_string (mSymbol msg) v)
      else if n = ''t'' then map_option (\<lambda>i. msg\<lparr>mTradeID := i\<rparr>) (dec_int64 (mTradeID msg) v)
      else if n = ''p'' then map_option (\<lambda>s. msg\<lparr>mPrice := s\<rparr>) (dec_string (mPrice msg) v)
      else if n = ''q'' then map_option (\<lambda>s. msg\<lparr>mQuantity := s\<rparr>) (dec_string (mQuantity msg) v)
      else if n = ''T'' then map_option (\<lambda>i. msg\<lparr>mTradeTime := i\<rparr>) (dec_int64 (mTradeTime msg) v)
      else if n = ''m'' then map_option (\<lambda>b. msg\<lparr>mBuyerIsMaker := b\<rparr>) (dec_bool (mBuyerIsMaker msg) v)
      else map_option (\<lambda>b. msg\<lparr>mIgnore := b\<rparr>) (dec_bool (mIgnore msg) v))"

definition unmarshal_message :: "string \<Rightarrow> binanceTradeMessage option" where
  "unmarshal_message raw =
     (case json_parse raw of None \<Rightarrow> None
      | Some v \<Rightarrow> dec_struct message_fields store_message zero_message v)"

text \<open>\<open>price <= 0\<close> on floats: false when the price is NaN.\<close>

definition bad_amount :: "float64 option \<Rightarrow> bool" where
  "bad_amount r = (case r of None \<Rightarrow> True | Some x \<Rightarrow> f_le x f_zero)"

definition normalizeTrade ::
  "unicode \<Rightarrow> (string \<Rightarrow> goerror) \<Rightarrow> string \<Rightarrow> gotime \<Rightarrow> goerror + TradeEvent" where
  "normalizeTrade U jerr raw ingestTime =
     (case unmarshal_message raw of
        None \<Rightarrow> Inl (Wrapf ''unmarshal trade message: '' (jerr raw))
      | Some msg \<Rightarrow>
          if mEventType msg \<noteq> ''trade'' then Inl (Errorf (''unexpected event type '' @ quote_q U (mEventType msg)))
          else if mSymbol msg = [] then Inl (Errorf ''missing symbol'')
          else if bad_amount (ParseFloat (mPrice msg)) then Inl (Errorf (''invalid price '' @ quote_q U (mPrice msg)))
          else if bad_amount (ParseFloat (mQuantity msg)) then Inl (Errorf (''invalid quantity '' @ quote_q U (mQuantity msg)))
          else if mTradeTime msg \<le>s 0 then Inl (Errorf (''invalid trade time '' @ FormatInt (sint (mTradeTime msg))))
          else Inr (zero_trade\<lparr>Symbol := mSymbol msg, Price := the (ParseFloat (mPrice msg)),
                               Quantity := the (ParseFloat (mQuantity msg)),
                               Side := (if mBuyerIsMaker msg then SideSell else SideBuy),
                               TradeID := mTradeID msg, EventTime := UnixMilli (mTradeTime msg),
                               IngestTime := ingestTime\<rparr>))"

section \<open>The publisher\<close>

record Publisher =
  consecutiveFailures :: int64
  lastFailure :: "goerror option"
  lastFailureAt :: gotime

definition NewPublisher :: "(string list \<Rightarrow> goerror option) \<Rightarrow> string list \<Rightarrow> goerror + Publisher" where
  "NewPublisher dial brokers =
     (if brokers = [] then Inl (Errorf ''kafka: no broker configured'')
      else (case dial brokers of
              Some e \<Rightarrow> Inl (Wrapf ''kafka: new producer: '' e)
            | None \<Rightarrow> Inr \<lparr>consecutiveFailures = 0, lastFailure = None, lastFailureAt = zero_time\<rparr>))"

text \<open>A produced record: topic, key, value and timestamp; \<open>Publish\<close> appends it to the client's
  buffer.\<close>

record prod_record =
  PTopic :: string
  PKey :: string
  PValue :: string
  PTimestamp :: gotime

definition Publisher_Publish :: "TradeEvent \<Rightarrow> prod_record list \<Rightarrow> prod_record list \<times> goerror option" where
  "Publisher_Publish event buf =
     (case json_Marshal_trade event of
        Inl e \<Rightarrow> (buf, Some (Wrapf ''marshal trade event: '' e))
      | Inr payload \<Rightarrow> (buf @ [\<lparr>PTopic = TopicTradesRaw, PKey = Symbol event, PValue = payload,
                                 PTimestamp = EventTime event\<rparr>], None))"

definition onDelivery :: "goerror option \<Rightarrow> gotime \<Rightarrow> Publisher \<Rightarrow> Publisher" where
  "onDelivery err now p =
     (case err of
        None \<Rightarrow> p\<lparr>consecutiveFailures := 0\<rparr>
      | Some e \<Rightarrow> p\<lparr>consecutiveFailures := consecutiveFailures p + 1, lastFailure := Some e, lastFailureAt := now\<rparr>)"

definition deliveryStatus :: "gotime \<Rightarrow> Publisher \<Rightarrow> goerror option" where
  "deliveryStatus now p =
     (if consecutiveFailures p = 0 then None
      else
        (let text = ''last '' @ FormatInt (sint (consecutiveFailures p)) @ '' deliveries failed, most recent '' @
                    rounded_text (time_Sub now (lastFailureAt p)) @ '' ago: ''
         in (case lastFailure p of
               Some e \<Rightarrow> Some (Wrapf text e)
             | None \<Rightarrow> Some (Errorf (text @ ''%!w(<nil>)'')))))"

definition Publisher_Check :: "(duration \<Rightarrow> goerror option) \<Rightarrow> gotime \<Rightarrow> Publisher \<Rightarrow> duration \<Rightarrow> goerror option" where
  "Publisher_Check ping now p budget =
     (case ping budget of Some e \<Rightarrow> Some (Wrapf ''kafka ping: '' e) | None \<Rightarrow> deliveryStatus now p)"

section \<open>Connection state\<close>

text \<open>The map of symbols, as its entries; the order in which \<open>range\<close> visits them is theirs.\<close>

record wsHealth =
  connected :: "(string \<times> bool) list"

definition setConnected :: "string \<Rightarrow> bool \<Rightarrow> wsHealth \<Rightarrow> wsHealth" where
  "setConnected sb ok h = h\<lparr>connected := AList.update sb ok (connected h)\<rparr>"

definition newWSHealth :: "string list \<Rightarrow> wsHealth" where
  "newWSHealth symbols = fold (\<lambda>sb. setConnected sb False) symbols \<lparr>connected = []\<rparr>"

definition show_strings :: "string list \<Rightarrow> string" where
  "show_strings ss = ''['' @ sep_by '' '' ss @ '']''"

definition wsHealth_Check :: "wsHealth \<Rightarrow> goerror option" where
  "wsHealth_Check h =
     (let down = map fst (filter (\<lambda>(sb, ok). \<not> ok) (connected h))
      in if down = [] then None else Some (Errorf (''disconnected '' @ show_strings (sort down))))"

section \<open>Symbols\<close>

fun normalize_loop :: "unicode \<Rightarrow> string list \<Rightarrow> string list \<Rightarrow> string list" where
  "normalize_loop U [] out = out"
| "normalize_loop U (s # ss) out =
     (let sb = ToLower U (TrimSpace U s)
      in if sb = [] then normalize_loop U ss out
         else if sb \<in> set out then normalize_loop U ss out
         else normalize_loop U ss (out @ [sb]))"

definition normalizeSymbols :: "unicode \<Rightarrow> string list \<Rightarrow> string list" where
  "normalizeSymbols U ss = normalize_loop U ss []"

section \<open>One session\<close>

text \<open>A read of the connection: an error, with the context as it was then, or a message with the
  time it arrived.\<close>

datatype ws_read = ReadErr goerror ctx | ReadMsg string gotime

type_synonym 'p tradePublisher = "TradeEvent \<Rightarrow> 'p \<Rightarrow> 'p \<times> goerror option"

datatype session_end = InSession | Ended "goerror option"

text \<open>A log entry of the loop: a dropped message, a failed publish, or a trade sent on.\<close>

datatype ws_log = DroppedMsg string goerror | PublishFailed TradeEvent goerror | Received TradeEvent

fun read_loop ::
  "unicode \<Rightarrow> (string \<Rightarrow> goerror) \<Rightarrow> string \<Rightarrow> 'p tradePublisher \<Rightarrow> ws_read list \<Rightarrow> 'p \<Rightarrow>
   'p \<times> ws_log list \<times> session_end" where
  "read_loop U jerr sb pub [] st = (st, [], InSession)"
| "read_loop U jerr sb pub (ReadErr e ctx # rs) st =
     (st, [], Ended (if ctx \<noteq> None then None else Some (Wrapf (''read '' @ sb @ '': '') e)))"
| "read_loop U jerr sb pub (ReadMsg raw now # rs) st =
     (case normalizeTrade U jerr raw now of
        Inl err \<Rightarrow>
          (let (st2, log, res) = read_loop U jerr sb pub rs st in (st2, DroppedMsg raw err # log, res))
      | Inr event \<Rightarrow>
          (case pub event st of
             (st1, Some err) \<Rightarrow>
               (let (st2, log, res) = read_loop U jerr sb pub rs st1 in (st2, PublishFailed event err # log, res))
           | (st1, None) \<Rightarrow>
               (let (st2, log, res) = read_loop U jerr sb pub rs st1 in (st2, Received event # log, res))))"

definition binanceWSBaseURL :: string where
  "binanceWSBaseURL = ''wss://stream.binance.com:9443/ws''"

text \<open>\<open>dial\<close> is what the WebSocket library answers for a URL: an error, or a connection (whose reads
  are given separately).\<close>

definition dialBinanceTrade :: "(string \<Rightarrow> goerror option) \<Rightarrow> string \<Rightarrow> goerror option" where
  "dialBinanceTrade dial sb = dial (binanceWSBaseURL @ ''/'' @ sb @ ''@trade'')"

text \<open>\<open>runSymbol\<close>: dial, mark connected, read; the deferred function marks the symbol disconnected
  when the session has ended.\<close>

definition runSymbol ::
  "unicode \<Rightarrow> (string \<Rightarrow> goerror) \<Rightarrow> string \<Rightarrow> 'p tradePublisher \<Rightarrow> (string \<Rightarrow> goerror option) \<Rightarrow> ws_read list \<Rightarrow>
   wsHealth \<Rightarrow> 'p \<Rightarrow> wsHealth \<times> 'p \<times> ws_log list \<times> session_end" where
  "runSymbol U jerr sb pub dial reads h st =
     (case dialBinanceTrade dial sb of
        Some e \<Rightarrow> (h, st, [], Ended (Some (Wrapf (''dial '' @ sb @ '': '') e)))
      | None \<Rightarrow>
          (let h1 = setConnected sb True h;
               (st1, log, res) = read_loop U jerr sb pub reads st
           in ((if res = InSession then h1 else setConnected sb False h1), st1, log, res)))"

section \<open>Reconnecting and the service\<close>

text \<open>What the environment plays in one round of the reconnect loop.\<close>

record ws_round =
  w_dial :: "string \<Rightarrow> goerror option"
  w_reads :: "ws_read list"
  w_uptime :: duration
  w_done :: bool
  w_rng :: rng
  w_interrupted :: bool

definition session_err :: "session_end \<Rightarrow> goerror option" where
  "session_err r = (case r of Ended e \<Rightarrow> e | InSession \<Rightarrow> None)"

text \<open>The sessions \<open>runSymbol\<close> gives the loop, one per round, each starting from the state the
  previous one left.\<close>

fun ws_sessions ::
  "unicode \<Rightarrow> (string \<Rightarrow> goerror) \<Rightarrow> string \<Rightarrow> 'p tradePublisher \<Rightarrow> ws_round list \<Rightarrow> wsHealth \<Rightarrow> 'p \<Rightarrow> session list" where
  "ws_sessions U jerr sb pub [] h st = []"
| "ws_sessions U jerr sb pub (r # rs) h st =
     (let (h1, st1, log, res) = runSymbol U jerr sb pub (w_dial r) (w_reads r) h st
      in \<lparr>s_uptime = w_uptime r, s_err = session_err res, s_done = w_done r, s_rng = w_rng r,
          s_interrupted = w_interrupted r\<rparr> # ws_sessions U jerr sb pub rs h1 st1)"

definition runSymbolWithReconnect ::
  "unicode \<Rightarrow> (string \<Rightarrow> goerror) \<Rightarrow> string \<Rightarrow> 'p tradePublisher \<Rightarrow> ws_round list \<Rightarrow> wsHealth \<Rightarrow> 'p \<Rightarrow>
   retry_log list \<times> retry_result" where
  "runSymbolWithReconnect U jerr sb pub rs h st = WithBackoff (ws_sessions U jerr sb pub rs h st)"

definition ws_checker :: "wsHealth \<Rightarrow> 'd checker" where
  "ws_checker h = CheckerFunc ''websocket'' (\<lambda>_. wsHealth_Check h) (\<lambda>_. 0)"

definition producer_checker ::
  "(duration \<Rightarrow> goerror option) \<Rightarrow> (duration \<Rightarrow> int) \<Rightarrow> gotime \<Rightarrow> Publisher \<Rightarrow> 'd checker" where
  "producer_checker ping tm now p = CheckerFunc ''kafka_producer'' (Publisher_Check ping now p) tm"

definition ingestion_New :: "unicode \<Rightarrow> string list \<Rightarrow> 'd healthRegistry \<Rightarrow> string list \<times> wsHealth \<times> 'd healthRegistry" where
  "ingestion_New U configured ops =
     (let symbols = normalizeSymbols U configured; wsh = newWSHealth symbols
      in (symbols, wsh, health_add (ws_checker wsh) ops))"

text \<open>\<open>Service.Run\<close>, given the workers' results in the order they return; the producer's checker is
  registered once the producer exists, and the deferred \<open>Close\<close> flushes and closes it.\<close>

definition ingestion_Run ::
  "string list \<Rightarrow> goerror + Publisher \<Rightarrow> (Publisher \<Rightarrow> 'd checker) \<Rightarrow> (Publisher \<Rightarrow> goerror option list) \<Rightarrow>
   'd healthRegistry \<Rightarrow> 'd healthRegistry \<times> goerror option \<times> action list" where
  "ingestion_Run symbols mk_pub checker worker_results ops =
     (if symbols = [] then (ops, Some (Errorf ''ingestion: no symbols configured''), [])
      else (case mk_pub of
              Inl e \<Rightarrow> (ops, Some (Wrapf ''kafka publisher: '' e), [])
            | Inr pub \<Rightarrow> (health_add (checker pub) ops, g_Wait (worker_results pub),
                [Acquire ProducerClient, RunGroup, Flush ProducerClient, Release ProducerClient])))"

text \<open>\<open>Close\<close> flushes with its own timeout and closes the client whether or not that worked; the
  warning is the flush error.\<close>

definition flushTimeout :: duration where "flushTimeout = 5 * Second"

definition Publisher_Close :: "('c \<Rightarrow> duration \<Rightarrow> 'c \<times> goerror option) \<Rightarrow> ('c \<Rightarrow> 'c) \<Rightarrow> 'c \<Rightarrow> 'c \<times> goerror option" where
  "Publisher_Close flush close c = (let (c1, err) = flush c flushTimeout in (close c1, err))"

section \<open>Specification\<close>

definition messages :: "ws_read list \<Rightarrow> (string \<times> gotime) list" where
  "messages rs = List.map_filter (\<lambda>r. case r of ReadMsg raw t \<Rightarrow> Some (raw, t) | _ \<Rightarrow> None)
     (takeWhile (\<lambda>r. case r of ReadMsg _ _ \<Rightarrow> True | _ \<Rightarrow> False) rs)"

definition accepted :: "unicode \<Rightarrow> (string \<Rightarrow> goerror) \<Rightarrow> (string \<times> gotime) list \<Rightarrow> TradeEvent list" where
  "accepted U jerr ms = List.map_filter (\<lambda>(raw, t). case normalizeTrade U jerr raw t of Inr e \<Rightarrow> Some e | Inl _ \<Rightarrow> None) ms"

definition session_result :: "string \<Rightarrow> ws_read list \<Rightarrow> session_end" where
  "session_result sb rs =
     (case dropWhile (\<lambda>r. case r of ReadMsg _ _ \<Rightarrow> True | _ \<Rightarrow> False) rs of
        ReadErr e ctx # _ \<Rightarrow> Ended (if ctx \<noteq> None then None else Some (Wrapf (''read '' @ sb @ '': '') e))
      | _ \<Rightarrow> InSession)"

text \<open>Delivery outcomes, oldest first.\<close>

type_synonym outcomes = "(goerror option \<times> gotime) list"

definition deliveries :: "outcomes \<Rightarrow> Publisher \<Rightarrow> Publisher" where
  "deliveries os p = fold (\<lambda>(err, now). onDelivery err now) os p"

definition failing_streak :: "outcomes \<Rightarrow> nat" where
  "failing_streak os = length (takeWhile (\<lambda>x. fst x \<noteq> None) (rev os))"

definition fresh_publisher :: Publisher where
  "fresh_publisher = \<lparr>consecutiveFailures = 0, lastFailure = None, lastFailureAt = zero_time\<rparr>"

section \<open>Lemmas\<close>

subsection \<open>Normalising\<close>

lemma normalizeTrade_Inr:
  assumes "normalizeTrade U jerr raw t = Inr e"
  obtains msg x y where "unmarshal_message raw = Some msg" "mEventType msg = ''trade''" "mSymbol msg \<noteq> []"
    "ParseFloat (mPrice msg) = Some x" "\<not> f_le x f_zero" "ParseFloat (mQuantity msg) = Some y" "\<not> f_le y f_zero"
    "0 < sint (mTradeTime msg)"
    "e = zero_trade\<lparr>Symbol := mSymbol msg, Price := x, Quantity := y,
       Side := (if mBuyerIsMaker msg then SideSell else SideBuy), TradeID := mTradeID msg,
       EventTime := UnixMilli (mTradeTime msg), IngestTime := t\<rparr>"
  using assms
  by (auto simp: normalizeTrade_def bad_amount_def slt_sint split: option.splits if_splits)

lemma not_le_zero: "\<not> f_le x f_zero \<Longrightarrow> is_nan x \<or> f_lt f_zero x"
  by (auto simp: f_le_def f_lt_def is_nan_def f_zero_def)

lemma format_time_Some:
  "(format_time t = None) = (\<not> (case civil_from_days (t div 1000000000 div 86400) of (y, m, d) \<Rightarrow> 0 \<le> y \<and> y \<le> 9999))"
  by (auto simp: format_time_def Let_def split: prod.split)

lemma ParseFloat_samples: "ParseFloat ''NaN'' = Some f_nan" "ParseFloat ''1'' = Some f_one"
proof -
  have "lower_ascii ''NaN'' = ''nan''" "lower_ascii ''1'' = ''1''" "read_float ''1'' = Some (1, 1)" by code_simp+
  moreover have "round_ratio 1 1 = 1023 * 2 ^ 52"
    by (simp add: round_ratio_def ulp_exp_def flog2_def nbits.simps pow_le_def signif_def rne_div_def inf_mag_def Let_def)
  ultimately show "ParseFloat ''NaN'' = Some f_nan" "ParseFloat ''1'' = Some f_one"
    by (simp_all add: ParseFloat_def parse_special_def special_unsigned_def inf_mag_def f_one_def)
qed

lemma ParseFloat_special:
  assumes "lower_ascii t \<in> {''nan'', ''inf'', ''infinity''}"
  shows "\<exists>x. ParseFloat t = Some x \<and> \<not> is_finite x \<and> \<not> f_le x f_zero"
proof -
  obtain c cs where t: "t = c # cs" using assms by (cases t) (auto simp: lower_ascii_def)
  have "ascii_low CHR ''+'' = CHR ''+''" "ascii_low CHR ''-'' = CHR ''-''" by code_simp+
  then have "c \<noteq> CHR ''+''" "c \<noteq> CHR ''-''" using assms t by (auto simp: lower_ascii_def)
  then have "parse_special t = Some (if lower_ascii t = ''nan'' then f_nan else f_inf)"
    using assms t by (auto simp: parse_special_def special_unsigned_def f_inf_def)
  moreover have "\<not> is_finite f_nan" "\<not> f_le f_nan f_zero" "\<not> is_finite f_inf" "\<not> f_le f_inf f_zero"
    by (simp_all add: f_le_def is_nan_def is_finite_def f_nan_def f_inf_def f_zero_def inf_mag_def fkey_def)
  ultimately show ?thesis by (simp add: ParseFloat_def)
qed

subsection \<open>Deliveries\<close>

lemma deliveries_snoc: "deliveries (os @ [(err, now)]) p = onDelivery err now (deliveries os p)"
  by (simp add: deliveries_def)

lemma failing_streak_snoc [simp]:
  "failing_streak (os @ [(err, now)]) = (if err = None then 0 else Suc (failing_streak os))"
  "failing_streak [] = 0"
  by (simp_all add: failing_streak_def)

lemma deliveries_state:
  "consecutiveFailures (deliveries os fresh_publisher) = of_nat (failing_streak os) \<and>
   (0 < failing_streak os \<longrightarrow>
      lastFailure (deliveries os fresh_publisher) = fst (last os) \<and>
      lastFailureAt (deliveries os fresh_publisher) = snd (last os) \<and> fst (last os) \<noteq> None)"
proof (induction os rule: rev_induct)
  case Nil
  then show ?case by (simp add: deliveries_def fresh_publisher_def)
next
  case (snoc x os)
  obtain err now where x: "x = (err, now)" by (cases x)
  show ?case using snoc by (cases err) (simp_all add: x deliveries_snoc onDelivery_def)
qed

lemma failing_streak_le: "failing_streak os \<le> length os"
  unfolding failing_streak_def using length_takeWhile_le [of _ "rev os"] by simp

lemma of_nat64_zero: "n < 2 ^ 64 \<Longrightarrow> (of_nat n :: int64) = 0 \<longleftrightarrow> n = 0"
  by (auto simp: word_of_nat_eq_0_iff dest: nat_dvd_not_less)

subsection \<open>Connection state\<close>

lemma setConnected_map: "map_of (connected (setConnected sb ok h)) = (map_of (connected h))(sb \<mapsto> ok)"
  by (simp add: setConnected_def update_conv')

lemma setConnected_distinct: "distinct (map fst (connected h)) \<Longrightarrow> distinct (map fst (connected (setConnected sb ok h)))"
  by (simp add: setConnected_def distinct_update)

lemma wsHealth_Check_None:
  "wsHealth_Check h = None \<longleftrightarrow> (\<forall>(sb, ok) \<in> set (connected h). ok)"
  by (auto simp: wsHealth_Check_def Let_def filter_empty_conv)

lemma map_of_all:
  "distinct (map fst xs) \<Longrightarrow> (\<forall>(k, v) \<in> set xs. P k v) \<longleftrightarrow> (\<forall>k v. map_of xs k = Some v \<longrightarrow> P k v)"
  by (metis (mono_tags, lifting) case_prodI2 case_prodD map_of_SomeD map_of_eq_Some_iff)

interpretation ws_health: health_checker ws_checker "\<lambda>h b. \<forall>(sb, ok) \<in> set (connected h). ok"
  by unfold_locales (simp add: ws_checker_def CheckerFunc_def wsHealth_Check_None)

interpretation producer_health: health_checker "producer_checker ping tm now"
  "\<lambda>p b. ping b = None \<and> consecutiveFailures p = 0" for ping tm now
  by unfold_locales
     (auto simp: producer_checker_def CheckerFunc_def Publisher_Check_def deliveryStatus_def Let_def split: option.split)


lemma sorted_down:
  assumes "distinct (map fst (connected h))"
  shows "sorted_list_of_set {sb. map_of (connected h) sb = Some False}
       = sort (map fst (filter (\<lambda>(sb, ok). \<not> ok) (connected h)))"
proof -
  let ?d = "map fst (filter (\<lambda>(sb, ok). \<not> ok) (connected h))"
  have "set ?d = {sb. map_of (connected h) sb = Some False}"
    using assms by (auto simp: map_of_eq_Some_iff intro: rev_image_eqI)
  moreover have "distinct ?d" using assms by (simp add: distinct_map_filter)
  ultimately show ?thesis
    using sorted_list_of_set_sort_remdups [of ?d] by (simp add: distinct_remdups_id)
qed

lemma ws_history:
  "distinct (map fst (connected h)) \<Longrightarrow>
     map_of (connected (fold (\<lambda>(sb, ok). setConnected sb ok) evs h)) = map_of (connected h) ++ map_of (rev evs) \<and>
     distinct (map fst (connected (fold (\<lambda>(sb, ok). setConnected sb ok) evs h)))"
proof (induction evs arbitrary: h)
  case (Cons ev evs)
  obtain sb ok where ev: "ev = (sb, ok)" by (cases ev)
  show ?case
    using Cons.IH [OF setConnected_distinct [OF Cons.prems], of sb ok]
    by (simp add: ev setConnected_map map_add_def fun_eq_iff split: option.split)
qed simp

lemma newWSHealth_map:
  "map_of (connected (newWSHealth symbols)) sb = (if sb \<in> set symbols then Some False else None)"
  "distinct (map fst (connected (newWSHealth symbols)))"
proof -
  have f: "newWSHealth symbols = fold (\<lambda>(sb, ok). setConnected sb ok) (map (\<lambda>sb. (sb, False)) symbols) \<lparr>connected = []\<rparr>"
    by (simp add: newWSHealth_def fold_map comp_def)
  have m: "map_of (rev (map (\<lambda>sb. (sb, False)) symbols)) sb = (if sb \<in> set symbols then Some False else None)"
    by (induction symbols rule: rev_induct) auto
  show "map_of (connected (newWSHealth symbols)) sb = (if sb \<in> set symbols then Some False else None)"
    "distinct (map fst (connected (newWSHealth symbols)))"
    using ws_history [of "\<lparr>connected = []\<rparr>" "map (\<lambda>sb. (sb, False)) symbols"] m f by simp_all
qed

subsection \<open>Symbols\<close>

fun first_seen :: "'a list \<Rightarrow> 'a list" where
  "first_seen [] = []"
| "first_seen (x # xs) = x # removeAll x (first_seen xs)"

lemma first_seen_set: "set (first_seen xs) = set xs" "distinct (first_seen xs)"
  by (induction xs) (auto simp: distinct_removeAll)

lemma first_seen_distinct: "distinct xs \<Longrightarrow> first_seen xs = xs"
  by (induction xs) (auto simp: removeAll_id)

lemma normalize_loop_eq:
  "normalize_loop U ss out = out @ filter (\<lambda>x. x \<notin> set out)
     (first_seen (filter (\<lambda>x. x \<noteq> []) (map (\<lambda>s. ToLower U (TrimSpace U s)) ss)))"
proof (induction ss arbitrary: out)
  case (Cons s ss)
  let ?rest = "first_seen (filter (\<lambda>x. x \<noteq> []) (map (\<lambda>s. ToLower U (TrimSpace U s)) ss))"
  have "filter (\<lambda>x. x \<notin> set out) (removeAll y ?rest) = filter (\<lambda>x. x \<notin> set out) ?rest" if "y \<in> set out" for y
    using that by (auto simp: removeAll_filter_not_eq intro!: filter_cong)
  moreover have "filter (\<lambda>x. x \<notin> set (out @ [y])) ?rest = filter (\<lambda>x. x \<notin> set out) (removeAll y ?rest)" for y
    by (auto simp: removeAll_filter_not_eq intro!: filter_cong)
  ultimately show ?case by (simp add: Cons.IH Let_def)
qed simp

lemma normalizeSymbols_eq:
  "normalizeSymbols U ss = first_seen (filter (\<lambda>x. x \<noteq> []) (map (\<lambda>s. ToLower U (TrimSpace U s)) ss))"
  by (simp add: normalizeSymbols_def normalize_loop_eq)

text \<open>Lower-casing and trimming a trimmed lower-case ASCII string changes nothing.\<close>

lemma is_upper_code: "is_upper c \<longleftrightarrow> 65 \<le> (of_char c :: nat) \<and> (of_char c :: nat) \<le> 90"
  by (simp add: is_upper_def less_eq_char_def)

lemma of_char_low: "of_char (ascii_low c) = (if is_upper c then of_char c + 32 else of_char c :: nat)"
  by (auto simp: ascii_low_def is_upper_code)

lemma ascii_low_idem: "ascii_low (ascii_low c) = ascii_low c"
  by (auto simp: ascii_low_def [of "ascii_low c"] is_upper_code of_char_low)

lemma ascii_space_code:
  "ascii_space c \<longleftrightarrow> (of_char c :: nat) \<in> {32, 9, 10, 11, 12, 13}"
proof -
  have "c = CHR '' '' \<longleftrightarrow> (of_char c :: nat) = of_char CHR '' ''" "c = CHR 0x09 \<longleftrightarrow> (of_char c :: nat) = of_char CHR 0x09"
    "c = CHR 0x0A \<longleftrightarrow> (of_char c :: nat) = of_char CHR 0x0A" "c = CHR 0x0B \<longleftrightarrow> (of_char c :: nat) = of_char CHR 0x0B"
    "c = CHR 0x0C \<longleftrightarrow> (of_char c :: nat) = of_char CHR 0x0C" "c = CHR 0x0D \<longleftrightarrow> (of_char c :: nat) = of_char CHR 0x0D"
    by (simp_all only: of_char_eq_iff)
  then show ?thesis by (simp add: ascii_space_def)
qed

lemma ascii_space_low [simp]: "ascii_space (ascii_low c) = ascii_space c"
  by (auto simp: ascii_space_code of_char_low is_upper_code)

lemma ascii_low_ascii [simp]: "ascii_char (ascii_low c) = ascii_char c"
  by (auto simp: ascii_char_def of_char_low is_upper_code)

lemma trim_map_low: "trim_ascii (map ascii_low s) = map ascii_low (trim_ascii s)"
  by (simp add: trim_ascii_def dropWhile_map comp_def rev_map)

lemma trim_hd:
  assumes "trim_ascii s \<noteq> []"
  shows "\<not> ascii_space (hd (trim_ascii s)) \<and> \<not> ascii_space (last (trim_ascii s))"
proof -
  let ?d = "dropWhile ascii_space s"
  obtain x xs where r: "dropWhile ascii_space (rev ?d) = x # xs"
    using assms by (cases "dropWhile ascii_space (rev ?d)") (simp_all add: trim_ascii_def)
  have x: "\<not> ascii_space x" using hd_dropWhile [of ascii_space "rev ?d"] r by simp
  have "?d = rev xs' @ x' # ys" if "rev ?d = rev ys @ x' # xs'" for x' xs' ys
    using arg_cong [OF that, of rev] by simp
  then obtain ys where d: "?d = rev (x # xs) @ ys"
    by (metis r rev_append rev_rev_ident takeWhile_dropWhile_id)
  then have "hd ?d = hd (rev (x # xs))" by (simp add: hd_append)
  moreover have "\<not> ascii_space (hd ?d)" using d by (intro hd_dropWhile) auto
  ultimately show ?thesis using r x by (simp add: trim_ascii_def)
qed

lemma dropWhile_same: "xs = [] \<or> \<not> P (hd xs) \<Longrightarrow> dropWhile P xs = xs"
  by (cases xs) auto

lemma trim_idem: "trim_ascii (trim_ascii s) = trim_ascii s"
proof (cases "trim_ascii s = []")
  case True
  have "trim_ascii [] = []" by (simp add: trim_ascii_def)
  with True show ?thesis by simp
next
  case False
  note t = trim_hd [OF False]
  have "dropWhile ascii_space (trim_ascii s) = trim_ascii s"
    using t by (intro dropWhile_same) simp
  moreover have "dropWhile ascii_space (rev (trim_ascii s)) = rev (trim_ascii s)"
    using t by (intro dropWhile_same) (simp add: hd_rev)
  ultimately show ?thesis unfolding trim_ascii_def [of "trim_ascii s"] by simp
qed

lemma ascii_trim: "ascii s \<Longrightarrow> ascii (trim_ascii s)"
  by (auto simp: ascii_def trim_ascii_def list_all_iff dest!: set_dropWhileD)

lemma normal_idem:
  assumes "ascii s"
  shows "ToLower U (TrimSpace U (ToLower U (TrimSpace U s))) = ToLower U (TrimSpace U s)"
proof -
  have "ToLower U (TrimSpace U s) = map ascii_low (trim_ascii s)"
    using assms ascii_trim by (simp add: ToLower_def TrimSpace_def)
  moreover have "ascii (map ascii_low (trim_ascii s))"
    using ascii_trim [OF assms] by (simp add: ascii_def list_all_iff)
  ultimately show ?thesis
    using ascii_trim [OF \<open>ascii (map ascii_low (trim_ascii s))\<close>]
    by (simp add: ToLower_def TrimSpace_def trim_map_low trim_idem ascii_low_idem comp_def)
qed


subsection \<open>Sessions\<close>

lemma messages_simps [simp]:
  "messages [] = []" "messages (ReadErr e ctx # rs) = []" "messages (ReadMsg raw t # rs) = (raw, t) # messages rs"
  by (simp_all add: messages_def List.map_filter_def)

lemma accepted_simps [simp]:
  "accepted U jerr [] = []"
  "accepted U jerr ((raw, t) # ms) =
     (case normalizeTrade U jerr raw t of Inr e \<Rightarrow> e # accepted U jerr ms | Inl _ \<Rightarrow> accepted U jerr ms)"
  by (simp_all add: accepted_def List.map_filter_def split: sum.split)

lemma session_result_simps [simp]:
  "session_result sb [] = InSession"
  "session_result sb (ReadErr e ctx # rs) = Ended (if ctx \<noteq> None then None else Some (Wrapf (''read '' @ sb @ '': '') e))"
  "session_result sb (ReadMsg raw t # rs) = session_result sb rs"
  by (simp_all add: session_result_def)

lemma read_loop_eq:
  "\<exists>log. read_loop U jerr sb pub rs st =
     (fold (\<lambda>e s. fst (pub e s)) (accepted U jerr (messages rs)) st, log, session_result sb rs) \<and>
     length log = length (messages rs)"
proof (induction rs arbitrary: st)
  case (Cons r rs)
  show ?case
  proof (cases r)
    case (ReadMsg raw t)
    show ?thesis
    proof (cases "normalizeTrade U jerr raw t")
      case (Inl err)
      with Cons [of st] ReadMsg show ?thesis by auto
    next
      case (Inr e)
      obtain st1 err where "pub e st = (st1, err)" by (cases "pub e st")
      with Cons [of st1] ReadMsg Inr show ?thesis by (cases err) auto
    qed
  qed simp
qed simp

text \<open>An exchange message and the event it becomes.\<close>

definition sample_raw :: string where
  "sample_raw = ''{\"e\":\"trade\",\"s\":\"BTCUSDT\",\"t\":7,\"p\":\"1\",\"q\":\"1\",\"T\":5,\"m\":true}''"

definition sample_event :: TradeEvent where
  "sample_event = zero_trade\<lparr>Symbol := ''BTCUSDT'', Price := f_one, Quantity := f_one, Side := SideSell, TradeID := 7,
      EventTime := UnixMilli 5, IngestTime := 9\<rparr>"

lemma sample_message:
  "unmarshal_message sample_raw = Some (zero_message\<lparr>mEventType := ''trade'', mSymbol := ''BTCUSDT'', mTradeID := 7,
     mPrice := ''1'', mQuantity := ''1'', mTradeTime := 5, mBuyerIsMaker := True\<rparr>)"
  by code_simp

lemma sample_normalises:
  "normalizeTrade ascii_tables (\<lambda>_. Errorf []) sample_raw 9 = Inr sample_event"
  "is_finite (Price sample_event) \<and> is_finite (Quantity sample_event) \<and> is_finite (Notional sample_event) \<and>
     format_time (EventTime sample_event) \<noteq> None \<and> format_time 9 \<noteq> None"
proof -
  note m = sample_message
  have f: "\<not> f_le f_one f_zero" "is_finite f_one" "is_finite f_zero"
    by (simp_all add: f_le_def is_nan_def is_finite_def f_one_def f_zero_def inf_mag_def fkey_def)
  then show "normalizeTrade ascii_tables (\<lambda>_. Errorf []) sample_raw 9 = Inr sample_event"
    using m ParseFloat_samples by (simp add: normalizeTrade_def bad_amount_def zero_message_def slt_sint sample_event_def)
  have "civil_from_days 0 = (1970, 1, 1)" by code_simp
  then have "format_time (UnixMilli 5) \<noteq> None" "format_time 9 \<noteq> None"
    unfolding format_time_Some by (simp_all add: UnixMilli_def)
  with f show "is_finite (Price sample_event) \<and> is_finite (Quantity sample_event) \<and> is_finite (Notional sample_event) \<and>
     format_time (EventTime sample_event) \<noteq> None \<and> format_time 9 \<noteq> None"
    by (simp add: sample_event_def zero_trade_def)
qed

section \<open>Properties\<close>

text \<open>C21. What the normaliser lets through: a trade event with the message's symbol, which is not
  empty, its trade id, the price and quantity its texts parse to, each positive or NaN, the side
  \<open>sell\<close> if the buyer was the maker and \<open>buy\<close> otherwise, the message's positive time in
  milliseconds, and every field the processor fills in still at its zero value. Publishing it
  then succeeds exactly when price and quantity are finite and both times have a year up to
  9999, and sends its JSON keyed by its symbol to the raw topic.\<close>

theorem normalizeTrade_publishable:
  assumes "normalizeTrade U jerr raw t = Inr e"
  shows "(\<exists>msg. unmarshal_message raw = Some msg \<and> mEventType msg = ''trade'' \<and> Symbol e = mSymbol msg \<and> Symbol e \<noteq> [] \<and>
      ParseFloat (mPrice msg) = Some (Price e) \<and> ParseFloat (mQuantity msg) = Some (Quantity e) \<and>
      Side e = (if mBuyerIsMaker msg then SideSell else SideBuy) \<and> TradeID e = mTradeID msg \<and>
      0 < sint (mTradeTime msg) \<and> EventTime e = sint (mTradeTime msg) * 1000000) \<and>
    (is_nan (Price e) \<or> f_lt f_zero (Price e)) \<and> (is_nan (Quantity e) \<or> f_lt f_zero (Quantity e)) \<and>
    IngestTime e = t \<and> Notional e = f_zero \<and> Market e = zero_metadata \<and> \<not> IsWhale e \<and>
    (snd (Publisher_Publish e buf) = None \<longleftrightarrow>
       is_finite (Price e) \<and> is_finite (Quantity e) \<and> format_time (EventTime e) \<noteq> None \<and> format_time t \<noteq> None) \<and>
    (snd (Publisher_Publish e buf) = None \<longrightarrow>
       (\<exists>j. marshal_trade e = Some j \<and> fst (Publisher_Publish e buf) =
          buf @ [\<lparr>PTopic = ''trades.raw'', PKey = Symbol e, PValue = j, PTimestamp = EventTime e\<rparr>]))"
proof -
  obtain msg x y where msg: "unmarshal_message raw = Some msg" "mEventType msg = ''trade''"
    and m: "mSymbol msg \<noteq> []" and px: "ParseFloat (mPrice msg) = Some x" and x: "\<not> f_le x f_zero"
    and py: "ParseFloat (mQuantity msg) = Some y" and y: "\<not> f_le y f_zero" and pos: "0 < sint (mTradeTime msg)"
    and e: "e = zero_trade\<lparr>Symbol := mSymbol msg, Price := x, Quantity := y,
       Side := (if mBuyerIsMaker msg then SideSell else SideBuy), TradeID := mTradeID msg,
       EventTime := UnixMilli (mTradeTime msg), IngestTime := t\<rparr>"
    by (rule normalizeTrade_Inr [OF assms])
  have enc: "marshal_trade e = None \<longleftrightarrow> \<not> trade_encodable e" by (rule marshal_trade_None)
  have pub: "snd (Publisher_Publish e buf) = None \<longleftrightarrow> marshal_trade e \<noteq> None"
    "marshal_trade e = Some j \<Longrightarrow> fst (Publisher_Publish e buf) =
          buf @ [\<lparr>PTopic = ''trades.raw'', PKey = Symbol e, PValue = j, PTimestamp = EventTime e\<rparr>]" for j
    by (auto simp: Publisher_Publish_def json_Marshal_trade_def TopicTradesRaw_def split: option.split)
  have fe: "Symbol e = mSymbol msg" "Price e = x" "Quantity e = y" "Notional e = f_zero" "Market e = zero_metadata"
      "Side e = (if mBuyerIsMaker msg then SideSell else SideBuy)" "TradeID e = mTradeID msg"
      "\<not> IsWhale e" "EventTime e = sint (mTradeTime msg) * 1000000" "IngestTime e = t"
    by (simp_all add: e zero_trade_def UnixMilli_def)
  have "is_finite f_zero" by (simp add: is_finite_def f_zero_def inf_mag_def)
  then have ok: "snd (Publisher_Publish e buf) = None \<longleftrightarrow>
       is_finite (Price e) \<and> is_finite (Quantity e) \<and> format_time (EventTime e) \<noteq> None \<and> format_time t \<noteq> None"
    unfolding pub(1) by (auto simp: enc trade_encodable_def fe(4,10))
  have sent: "snd (Publisher_Publish e buf) = None \<longrightarrow>
       (\<exists>j. marshal_trade e = Some j \<and> fst (Publisher_Publish e buf) =
          buf @ [\<lparr>PTopic = ''trades.raw'', PKey = Symbol e, PValue = j, PTimestamp = EventTime e\<rparr>])"
    using pub by auto
  have "\<exists>msg. unmarshal_message raw = Some msg \<and> mEventType msg = ''trade'' \<and> Symbol e = mSymbol msg \<and> Symbol e \<noteq> [] \<and>
      ParseFloat (mPrice msg) = Some (Price e) \<and> ParseFloat (mQuantity msg) = Some (Quantity e) \<and>
      Side e = (if mBuyerIsMaker msg then SideSell else SideBuy) \<and> TradeID e = mTradeID msg \<and>
      0 < sint (mTradeTime msg) \<and> EventTime e = sint (mTradeTime msg) * 1000000"
    using msg m px py pos fe(1,2,3,6,7,9) by (intro exI [of _ msg]) simp
  moreover have "is_nan (Price e) \<or> f_lt f_zero (Price e)" "is_nan (Quantity e) \<or> f_lt f_zero (Quantity e)"
    using not_le_zero [OF x] not_le_zero [OF y] fe(2,3) by simp_all
  ultimately show ?thesis by (intro conjI fe(4,5,8,10) ok sent)
qed

theorem normalizeTrade_publishable_witness:
  "\<exists>e. normalizeTrade ascii_tables (\<lambda>_. Errorf []) sample_raw 9 = Inr e \<and>
     Side e = SideSell \<and> Notional e = f_zero \<and> snd (Publisher_Publish e []) = None"
proof -
  have "unmarshal_message sample_raw = Some msg \<Longrightarrow> mBuyerIsMaker msg" for msg
    using sample_message by auto
  then show ?thesis
    using normalizeTrade_publishable [OF sample_normalises(1), of "[]"] sample_normalises
    by (intro exI [of _ sample_event]) auto
qed

text \<open>C31. A non-finite amount passes validation: every trade message that is otherwise valid but whose
  price is the text NaN, Inf or Infinity, in any case, is accepted, as none of these values is
  at most zero; and the trade is then lost in \<open>Publish\<close>, which fails to encode it and hands nothing to
  the producer.\<close>

theorem NaN_price_accepted:
  assumes "unmarshal_message raw = Some msg" "mEventType msg = ''trade''" "mSymbol msg \<noteq> []"
    and "lower_ascii (mPrice msg) \<in> {''nan'', ''inf'', ''infinity''}"
    and "ParseFloat (mQuantity msg) = Some y" "f_lt f_zero y" "0 < sint (mTradeTime msg)"
  shows "\<exists>e err. normalizeTrade U jerr raw t = Inr e \<and> \<not> is_finite (Price e) \<and>
     Publisher_Publish e buf = (buf, Some (Wrapf ''marshal trade event: '' err))"
proof -
  obtain x where x: "ParseFloat (mPrice msg) = Some x" "\<not> is_finite x" "\<not> f_le x f_zero"
    using ParseFloat_special [OF assms(4)] by blast
  have y: "\<not> f_le y f_zero" using assms(6) by (auto simp: f_le_def f_lt_def is_nan_def)
  let ?e = "zero_trade\<lparr>Symbol := mSymbol msg, Price := x, Quantity := y,
      Side := (if mBuyerIsMaker msg then SideSell else SideBuy), TradeID := mTradeID msg,
      EventTime := UnixMilli (mTradeTime msg), IngestTime := t\<rparr>"
  have n: "normalizeTrade U jerr raw t = Inr ?e"
    using assms x y by (simp add: normalizeTrade_def bad_amount_def slt_sint word_sle_eq)
  have "marshal_trade ?e = None" using x(2) by (simp add: marshal_trade_None trade_encodable_def)
  then have "\<exists>err. Publisher_Publish ?e buf = (buf, Some (Wrapf ''marshal trade event: '' err))"
    by (simp add: Publisher_Publish_def json_Marshal_trade_def)
  with n x(2) show ?thesis by (intro exI [of _ ?e]) simp
qed

theorem NaN_price_accepted_witness:
  "\<exists>e err. normalizeTrade ascii_tables (\<lambda>_. Errorf [])
      ''{\"e\":\"trade\",\"s\":\"BTCUSDT\",\"t\":7,\"p\":\"NaN\",\"q\":\"1\",\"T\":5}'' 9 = Inr e \<and>
     Publisher_Publish e [] = ([], Some (Wrapf ''marshal trade event: '' err))"
proof -
  have m: "unmarshal_message ''{\"e\":\"trade\",\"s\":\"BTCUSDT\",\"t\":7,\"p\":\"NaN\",\"q\":\"1\",\"T\":5}'' =
      Some (zero_message\<lparr>mEventType := ''trade'', mSymbol := ''BTCUSDT'', mTradeID := 7,
        mPrice := ''NaN'', mQuantity := ''1'', mTradeTime := 5\<rparr>)"
    by code_simp
  have "f_lt f_zero f_one" by (simp add: f_lt_def is_nan_def f_one_def f_zero_def inf_mag_def fkey_def)
  moreover have "lower_ascii ''NaN'' = ''nan''" by code_simp
  ultimately show ?thesis
    using NaN_price_accepted [OF m, where y = f_one and buf = "[]"] ParseFloat_samples(2) by fastforce
qed

text \<open>Delivery health: after any outcomes, oldest first, the producer reports a failure exactly
  when the last delivery failed; the count is that of the unbroken streak of failures at the
  end, and the error and time are those of the last one. One success clears the report.\<close>

theorem delivery_status_streak:
  assumes "length os < 2 ^ 63"
  shows "(deliveryStatus now (deliveries os fresh_publisher) = None \<longleftrightarrow> failing_streak os = 0) \<and>
    (0 < failing_streak os \<longrightarrow>
       (\<exists>e u. last os = (Some e, u) \<and> deliveryStatus now (deliveries os fresh_publisher) =
          Some (Wrapf (''last '' @ FormatInt (int (failing_streak os)) @ '' deliveries failed, most recent '' @
                  rounded_text (time_Sub now u) @ '' ago: '') e)))"
proof -
  let ?p = "deliveries os fresh_publisher"
  have n: "failing_streak os < 2 ^ 63" using failing_streak_le [of os] assms by simp
  have c: "consecutiveFailures ?p = of_nat (failing_streak os)" using deliveries_state by blast
  have z: "consecutiveFailures ?p = 0 \<longleftrightarrow> failing_streak os = 0" using n by (simp add: c of_nat64_zero)
  have "sint (of_nat (failing_streak os) :: int64) = int (failing_streak os)"
    using n sint64_of_int [of "int (failing_streak os)"] by simp
  then show ?thesis
    using deliveries_state [of os] c z
    by (cases "last os") (auto simp: deliveryStatus_def Let_def)
qed

theorem delivery_status_streak_witness:
  "deliveryStatus 9000000000 (deliveries [(None, 0), (Some (Errorf ''timeout''), 4000000000), (Some (Errorf ''timeout''), 5000000000)] fresh_publisher)
     = Some (Wrapf ''last 2 deliveries failed, most recent 4s ago: '' (Errorf ''timeout''))"
proof -
  let ?os = "[(None, 0), (Some (Errorf ''timeout''), 4000000000), (Some (Errorf ''timeout''), 5000000000)] :: outcomes"
  have s: "failing_streak ?os = 2" by (simp add: failing_streak_def)
  have t: "''last '' @ FormatInt (int 2) @ '' deliveries failed, most recent '' @ rounded_text (time_Sub 9000000000 5000000000) @ '' ago: ''
      = ''last 2 deliveries failed, most recent 4s ago: ''" by code_simp
  show ?thesis using delivery_status_streak [of ?os 9000000000] s t by auto
qed

text \<open>Connection health: whatever connects and disconnects in whatever order, the check passes
  exactly when the last event of every configured or seen symbol was a connect; otherwise it
  names exactly the symbols that are down, each once, in alphabetical order.\<close>

theorem ws_check_reports_down:
  "let h = fold (\<lambda>(sb, ok). setConnected sb ok) evs (newWSHealth symbols);
       state = (\<lambda>sb. case map_of (rev evs) sb of Some ok \<Rightarrow> Some ok | None \<Rightarrow> (if sb \<in> set symbols then Some False else None));
       down = {sb. state sb = Some False}
   in wsHealth_Check h = (if down = {} then None
        else Some (Errorf (''disconnected '' @ show_strings (sorted_list_of_set down))))"
proof -
  let ?h = "fold (\<lambda>(sb, ok). setConnected sb ok) evs (newWSHealth symbols)"
  have h: "map_of (connected ?h) = map_of (connected (newWSHealth symbols)) ++ map_of (rev evs)" "distinct (map fst (connected ?h))"
    using ws_history [OF newWSHealth_map(2) [of symbols], of evs] by simp_all
  let ?down = "{sb. map_of (connected ?h) sb = Some False}"
  have st: "map_of (connected ?h) = (\<lambda>sb. case map_of (rev evs) sb of Some ok \<Rightarrow> Some ok
      | None \<Rightarrow> (if sb \<in> set symbols then Some False else None))"
    by (simp add: h(1) map_add_def fun_eq_iff newWSHealth_map split: option.split)
  have "map fst (filter (\<lambda>(sb, ok). \<not> ok) (connected ?h)) = [] \<longleftrightarrow> ?down = {}"
    using h(2) by (auto simp: map_of_eq_Some_iff filter_empty_conv)
  then have "wsHealth_Check ?h = (if ?down = {} then None
        else Some (Errorf (''disconnected '' @ show_strings (sorted_list_of_set ?down))))"
    using sorted_down [OF h(2)] by (simp add: wsHealth_Check_def Let_def)
  then show ?thesis unfolding Let_def st .
qed

text \<open>A session that connects to the symbol's trade stream publishes, in order, exactly the valid trades among the messages read before
  the first read error; a malformed message or a failed publish is logged and never ends it.
  It ends only with a read error, with nil exactly if the context was done by then, and when
  it has ended the symbol is marked disconnected.\<close>

theorem runSymbol_session:
  assumes "runSymbol U jerr sb pub dial reads h st = (h', st', lg, res)"
    and "dial (''wss://stream.binance.com:9443/ws/'' @ sb @ ''@trade'') = None"
  shows "st' = fold (\<lambda>e s. fst (pub e s)) (accepted U jerr (messages reads)) st \<and>
    length lg = length (messages reads) \<and> res = session_result sb reads \<and>
    map_of (connected h') sb = Some (res = InSession)"
proof -
  obtain l1 where "read_loop U jerr sb pub reads st =
      (fold (\<lambda>e s. fst (pub e s)) (accepted U jerr (messages reads)) st, l1, session_result sb reads)"
      "length l1 = length (messages reads)"
    using read_loop_eq [of U jerr sb pub reads st] by blast
  with assms show ?thesis
    by (auto simp: runSymbol_def dialBinanceTrade_def binanceWSBaseURL_def Let_def setConnected_map)
qed

theorem runSymbol_session_witness:
  "let (h, st, lg, res) = runSymbol ascii_tables (\<lambda>_. Errorf []) ''btcusdt'' (\<lambda>e (s :: string list). (s @ [Symbol e], None)) (\<lambda>_. None)
       [ReadMsg ''{\"e\":\"trade\",\"s\":\"BTCUSDT\",\"p\":\"2\",\"q\":\"1\",\"T\":5}'' 9, ReadMsg ''oops'' 9, ReadErr (Errorf ''eof'') None]
       (newWSHealth [''btcusdt'']) []
   in map_of (connected h) ''btcusdt'' = Some False \<and> length lg = 2 \<and> res = Ended (Some (Wrapf ''read btcusdt: '' (Errorf ''eof'')))"
proof -
  let ?run = "runSymbol ascii_tables (\<lambda>_. Errorf []) ''btcusdt'' (\<lambda>e (s :: string list). (s @ [Symbol e], None)) (\<lambda>_. None)
       [ReadMsg ''{\"e\":\"trade\",\"s\":\"BTCUSDT\",\"p\":\"2\",\"q\":\"1\",\"T\":5}'' 9, ReadMsg ''oops'' 9, ReadErr (Errorf ''eof'') None]
       (newWSHealth [''btcusdt'']) []"
  obtain h st lg res where r: "?run = (h, st, lg, res)" by (cases ?run)
  from runSymbol_session [OF this] show ?thesis by (simp add: r)
qed

text \<open>The configured symbols are normalised to distinct, non-empty, trimmed lower-case names in
  the order of their first occurrence; every configured name is represented, and normalising
  ASCII names again changes nothing.\<close>

theorem normalizeSymbols_distinct:
  "distinct (normalizeSymbols U ss) \<and>
   set (normalizeSymbols U ss) = {x. x \<noteq> [] \<and> (\<exists>s \<in> set ss. x = ToLower U (TrimSpace U s))} \<and>
   normalizeSymbols U ss = first_seen (filter (\<lambda>x. x \<noteq> []) (map (\<lambda>s. ToLower U (TrimSpace U s)) ss)) \<and>
   ((\<forall>s \<in> set ss. ascii s) \<longrightarrow> normalizeSymbols U (normalizeSymbols U ss) = normalizeSymbols U ss)"
proof -
  have s: "set (normalizeSymbols U ss) = {x. x \<noteq> [] \<and> (\<exists>s \<in> set ss. x = ToLower U (TrimSpace U s))}"
    by (auto simp: normalizeSymbols_eq first_seen_set)
  have d: "distinct (normalizeSymbols U ss)" by (simp add: normalizeSymbols_eq first_seen_set)
  have "normalizeSymbols U (normalizeSymbols U ss) = normalizeSymbols U ss" if "\<forall>s \<in> set ss. ascii s"
  proof -
    have "ToLower U (TrimSpace U x) = x \<and> x \<noteq> []" if "x \<in> set (normalizeSymbols U ss)" for x
      using that \<open>\<forall>s \<in> set ss. ascii s\<close> s normal_idem by auto
    then have "filter (\<lambda>x. x \<noteq> []) (map (\<lambda>s. ToLower U (TrimSpace U s)) (normalizeSymbols U ss)) = normalizeSymbols U ss"
      by (simp add: map_idI filter_id_conv)
    then show ?thesis using d by (simp add: normalizeSymbols_eq [of U "normalizeSymbols U ss"] first_seen_distinct)
  qed
  with s d show ?thesis by (simp add: normalizeSymbols_eq)
qed

theorem normalizeSymbols_distinct_witness:
  "normalizeSymbols ascii_tables (normalizeSymbols ascii_tables ['' BTCusdt'', ''ethusdt'', ''btcusdt ''])
     = normalizeSymbols ascii_tables ['' BTCusdt'', ''ethusdt'', ''btcusdt '']"
proof -
  have "\<forall>s \<in> set ['' BTCusdt'', ''ethusdt'', ''btcusdt '']. ascii s" by code_simp
  then show ?thesis using normalizeSymbols_distinct [of ascii_tables "['' BTCusdt'', ''ethusdt'', ''btcusdt '']"] by blast
qed

end
