(* ===== verification/Digits.thy ===== *)
theory Digits
  imports Prelude
begin

text \<open>Decimal digits: what \<open>nat_digits\<close> writes, \<open>digits_val\<close> reads back, with leading zeros and in
  any grouping; shared by the round trips of integers, floats and instants.\<close>

lemma is_digit_code: "is_digit c \<longleftrightarrow> 48 \<le> (of_char c :: nat) \<and> (of_char c :: nat) \<le> 57"
  by (simp add: is_digit_def less_eq_char_def)

lemma of_digit_char: "d < 10 \<Longrightarrow> (of_char (digit_char d) :: nat) = 48 + d"
  by (simp add: digit_char_def)

lemma digit_char_simps [simp]: "d < 10 \<Longrightarrow> is_digit (digit_char d)" "d < 10 \<Longrightarrow> digit_val (digit_char d) = d"
  by (simp_all add: is_digit_code digit_val_def of_digit_char)

lemma digit_val_less: "is_digit c \<Longrightarrow> digit_val c < 10"
  unfolding is_digit_code digit_val_def by linarith

lemma digits_val_acc: "foldl (\<lambda>acc c. 10 * acc + digit_val c) a s = a * 10 ^ length s + digits_val s"
proof (induction s arbitrary: a)
  case (Cons c s)
  show ?case
    using Cons [of "10 * a + digit_val c"] Cons [of "digit_val c"]
    by (simp add: digits_val_def algebra_simps)
qed (simp add: digits_val_def)

lemma digits_val_simps [simp]:
  "digits_val [] = 0" "digits_val (c # s) = digit_val c * 10 ^ length s + digits_val s"
  "digits_val (s @ t) = digits_val s * 10 ^ length t + digits_val t"
  using digits_val_acc [of "digit_val c" s] digits_val_acc [of "digits_val s" t]
  by (simp_all add: digits_val_def)

lemma digits_val_zeros [simp]: "digits_val (replicate k CHR ''0'') = 0"
  by (induction k) (simp_all add: digit_val_def)

lemma zeros_digits [simp]: "is_digit CHR ''0''" "list_all is_digit (replicate k CHR ''0'')"
  by (auto simp: list_all_iff is_digit_def)

lemma digits_val_bound: "list_all is_digit s \<Longrightarrow> digits_val s < 10 ^ length s"
proof (induction s)
  case (Cons c s)
  have "digit_val c * 10 ^ length s \<le> 9 * 10 ^ length s"
    using digit_val_less [of c] Cons.prems by (intro mult_right_mono) auto
  moreover have "digits_val s < 10 ^ length s" using Cons by simp
  ultimately have "digit_val c * 10 ^ length s + digits_val s < 10 * 10 ^ length s" by linarith
  then show ?case by simp
qed simp

lemma nat_digits_props:
  "list_all is_digit (nat_digits n) \<and> nat_digits n \<noteq> [] \<and> digits_val (nat_digits n) = n"
proof (induction n rule: nat_digits.induct)
  case (1 n)
  show ?case
  proof (cases "n < 10")
    case False
    then have "n div 10 * 10 + n mod 10 = n" "n mod 10 < 10" by simp_all
    with 1 False show ?thesis by (simp add: nat_digits.simps [of n])
  qed (simp add: nat_digits.simps [of n])
qed

lemmas nat_digits_digit = nat_digits_props [THEN conjunct1]
lemmas nat_digits_nonempty [simp] = nat_digits_props [THEN conjunct2, THEN conjunct1]
lemmas nat_digits_val [simp] = nat_digits_props [THEN conjunct2, THEN conjunct2]

lemma nat_digits_hd: "0 < n \<Longrightarrow> hd (nat_digits n) \<noteq> CHR ''0''"
proof (induction n rule: nat_digits.induct)
  case (1 n)
  show ?case
  proof (cases "n < 10")
    case True
    have "(of_char (digit_char n) :: nat) \<noteq> of_char CHR ''0''" using True "1.prems" by (simp add: of_digit_char)
    then have "digit_char n \<noteq> CHR ''0''" by metis
    with True show ?thesis by (simp add: nat_digits.simps [of n])
  next
    case False
    then have "0 < n div 10" by simp
    with 1 False show ?thesis by (simp add: nat_digits.simps [of n] hd_append)
  qed
qed

lemma nat_digits_length: "n < 10 ^ k \<Longrightarrow> 0 < k \<Longrightarrow> length (nat_digits n) \<le> k"
proof (induction k arbitrary: n)
  case (Suc k)
  show ?case
  proof (cases "n < 10")
    case False
    then have "n div 10 < 10 ^ k" using Suc.prems(1) by simp
    moreover have "0 < k" using False Suc.prems(1) by (cases k) auto
    ultimately show ?thesis using Suc.IH [of "n div 10"] False by (simp add: nat_digits.simps [of n])
  qed (simp add: nat_digits.simps [of n])
qed simp

lemma nat_digits_zero [simp]: "nat_digits 0 = ''0''"
  by code_simp

text \<open>Integers round-trip.\<close>

lemma parse_nat_digits [simp]: "parse_digits (nat_digits n) = Some n"
  by (simp add: parse_digits_def nat_digits_digit)

lemma digit_not_sign: "is_digit c \<Longrightarrow> c \<noteq> CHR ''-'' \<and> c \<noteq> CHR ''+'' \<and> c \<noteq> CHR ''_'' \<and> c \<noteq> CHR ''.'' \<and> c \<noteq> CHR ''e''"
  by (auto simp: is_digit_code)

lemma ParseInt_FormatInt: "ParseInt (FormatInt (sint i)) = Some i"
proof -
  have r: "in_int64 (sint i)"
    using sint64_range [of i] by (simp add: in_int64_def min_int64_def max_int64_def)
  show ?thesis
  proof (cases "sint i < 0")
    case True
    with r show ?thesis by (simp add: ParseInt_def FormatInt_def)
  next
    case False
    obtain c cs where d: "nat_digits (nat (sint i)) = c # cs"
      using nat_digits_nonempty by (cases "nat_digits (nat (sint i))") auto
    have "is_digit c" using nat_digits_digit [of "nat (sint i)"] d by simp
    with False r d parse_nat_digits [of "nat (sint i)"] show ?thesis
      using digit_not_sign [of c] by (simp add: ParseInt_def FormatInt_def)
  qed
qed

end
