(* ===== verification/FloatText.thy ===== *)
theory FloatText
  imports Strconv Digits
begin

text \<open>
  Floats survive the trip through text: parsing the shortest decimal that \<open>encoding/json\<close>
  writes for a finite float gives the float back, bit for bit, the sign of zero included. The
  steps: rounding depends on the value of a ratio only; the search for a short decimal returns
  one that rounds to the float; both layouts are read back as that decimal.
\<close>

section \<open>Rounding depends on the ratio only\<close>

lemma rne_div_scale: "0 < k \<Longrightarrow> 0 < b \<Longrightarrow> rne_div (a * k) (b * k) = rne_div a b"
proof -
  assume "0 < k" "0 < b"
  then have "a * k div (b * k) = a div b" "a * k mod (b * k) = a mod b * k" by simp_all
  moreover have "b * k < 2 * (a mod b * k) \<longleftrightarrow> b < 2 * (a mod b)" "2 * (a mod b * k) = b * k \<longleftrightarrow> 2 * (a mod b) = b"
    using \<open>0 < k\<close> by (simp_all flip: mult.assoc)
  ultimately show ?thesis by (simp add: rne_div_def Let_def)
qed

lemma rne_div_cong:
  assumes "0 < b" "0 < b'" "a * b' = a' * b"
  shows "rne_div a b = rne_div a' b'"
proof -
  have "rne_div a b = rne_div (a * b') (b * b')" using rne_div_scale [OF assms(2,1), of a] by simp
  also have "\<dots> = rne_div (a' * b) (b' * b)" using assms(3) by (simp only: mult.commute [of b])
  also have "\<dots> = rne_div a' b'" using rne_div_scale [OF assms(1,2), of a'] by simp
  finally show ?thesis .
qed

lemma round_ratio_cong:
  assumes "0 < b" "0 < b'" "a * b' = a' * b"
  shows "round_ratio a b = round_ratio a' b'"
proof (cases "a = 0")
  case True
  then have "a' = 0" using assms by simp
  with True show ?thesis by (simp add: round_ratio_def)
next
  case False
  then have a': "0 < a'" using assms by (cases "a' = 0") simp_all
  have "real a * real b' = real a' * real b"
    using assms(3) by (metis of_nat_mult)
  then have r: "real a / real b = real a' / real b'" using assms(1,2) by (simp add: frac_eq_eq)
  then have "flog2 a b = flog2 a' b'"
    using flog2_bounds [of a' b'] False a' assms by (intro flog2_unique) simp_all
  then have q: "ulp_exp a b = ulp_exp a' b'" by (simp add: ulp_exp_def)
  have "a * x * (b' * y) = a' * x * (b * y)" for x y
  proof -
    have "a * x * (b' * y) = a * b' * (x * y)" by (simp only: ac_simps)
    also have "\<dots> = a' * x * (b * y)" by (simp only: assms(3) ac_simps)
    finally show ?thesis .
  qed
  then have "signif a b q = signif a' b' q" for q
    unfolding signif_def using assms(1,2) by (intro rne_div_cong) (simp_all only: zero_less_power mult_pos_pos zero_less_numeral)
  with q False a' show ?thesis by (simp add: round_ratio_def)
qed

lemma dec_rounds_cong:
  assumes "scale_ratio 10 c p = (a, b)" "scale_ratio 10 c' p' = (a', b')" "a * b' = a' * b"
  shows "dec_rounds r c p = dec_rounds r c' p'"
proof -
  have "0 < b" "0 < b'" using assms(1,2) by (auto simp: scale_ratio_def)
  then show ?thesis using round_ratio_cong [of b b' a a'] assms by (simp add: dec_rounds_def)
qed

section \<open>The shortest decimal rounds to the float\<close>

lemma dec_n_rounds: "dec_n r a b n = Some (c, p) \<Longrightarrow> dec_rounds r c p"
  by (auto simp: dec_n_def Let_def split: if_splits)

lemma dec_search_rounds: "dec_search r a b ns = Some (c, p) \<Longrightarrow> dec_rounds r c p"
  by (induction ns) (auto split: option.splits dest: dec_n_rounds)

lemma exact_rounds:
  assumes "r < inf_mag"
  shows "dec_rounds r (mant r * 2 ^ nat (expo r) * 5 ^ nat (- expo r)) (min (expo r) 0)"
proof -
  let ?e = "expo r"
  have "real (mant r * 2 ^ nat ?e * 5 ^ nat (- ?e) * 10 ^ nat (min ?e 0)) / real (10 ^ nat (- min ?e 0)) = fval r"
  proof (cases "0 \<le> ?e")
    case True
    then show ?thesis by (simp add: fval_def power_int_def)
  next
    case False
    have "(10 :: real) ^ k = 5 ^ k * 2 ^ k" for k by (simp flip: power_mult_distrib)
    then show ?thesis using False by (simp add: fval_def two_nat [of ?e] min_def)
  qed
  then have "round_ratio (mant r * 2 ^ nat ?e * 5 ^ nat (- ?e) * 10 ^ nat (min ?e 0)) (10 ^ nat (- min ?e 0)) = r"
    using assms by (intro round_ratio_fval) simp_all
  then show ?thesis by (simp add: dec_rounds_def scale_ratio_def)
qed

lemma shortest_rounds: "r < inf_mag \<Longrightarrow> case shortest r of (c, p) \<Rightarrow> dec_rounds r c p"
  using exact_rounds [of r]
  by (auto simp: shortest_def Let_def split: option.split dest: dec_search_rounds)

lemma strip_step: "c mod 10 = 0 \<Longrightarrow> dec_rounds r c p \<Longrightarrow> dec_rounds r (c div 10) (p + 1)"
proof -
  assume c: "c mod 10 = 0" and d: "dec_rounds r c p"
  then have c10: "c = c div 10 * 10" by presburger
  have "c * 10 ^ nat p * 10 ^ nat (- (p + 1)) = c div 10 * 10 ^ nat (p + 1) * 10 ^ nat (- p)"
  proof (cases "0 \<le> p")
    case True
    then have "nat (p + 1) = Suc (nat p)" by simp
    with True c10 show ?thesis by simp
  next
    case False
    then have "nat (- p) = Suc (nat (- (p + 1)))" by simp
    with False c10 show ?thesis by simp
  qed
  then show ?thesis
    using d dec_rounds_cong [of c p _ _ "c div 10" "p + 1"] by (simp add: scale_ratio_def)
qed

lemma strip_zeros_rounds: "strip_zeros k (c, p) = (c', p') \<Longrightarrow> dec_rounds r c p \<Longrightarrow> dec_rounds r c' p'"
proof (induction k arbitrary: c p)
  case (Suc k)
  then show ?case using strip_step [of c r p] by (auto split: if_splits)
qed simp

lemma shortest_digits_rounds: "r < inf_mag \<Longrightarrow> shortest_digits r = (c, p) \<Longrightarrow> dec_rounds r c p"
  using shortest_rounds [of r] strip_zeros_rounds
  by (cases "shortest r") (auto simp: shortest_digits_def)

section \<open>The exponent that is written\<close>

lemma round_ratio_finite_less: "0 < b \<Longrightarrow> round_ratio a b < inf_mag \<Longrightarrow> real a / real b < two 1024"
  using round_ratio_overflow [of b a] by force

lemma round_ratio_tiny:
  assumes "0 < b" "real a / real b < two (- 1076)"
  shows "round_ratio a b = 0"
proof (cases "a = 0")
  case False
  then have "two (flog2 a b) < two (- 1076)" using flog2_bounds(1) [of a b] assms by linarith
  then have "flog2 a b < - 1076" by (simp only: two_less_iff)
  then have q: "ulp_exp a b = - 1074" by (simp add: ulp_exp_def)
  have "real a / real b * two 1074 < two (- 1076) * two 1074" 
    using assms(2) by (rule mult_strict_right_mono) simp
  also have "\<dots> = 1 / 4" by (simp flip: power_int_add)
  finally have "real (signif a b (- 1074)) < 1" 
    using signif_error [OF assms(1), of a "- 1074"] unfolding minus_minus by linarith
  then show ?thesis by (simp add: round_ratio_def q)
qed (simp add: round_ratio_def)

lemma scale_ratio_value: "scale_ratio 10 c p = (a, b) \<Longrightarrow> 0 < b \<and> real a / real b = real c * 10 powi p"
  by (cases "0 \<le> p") (auto simp: scale_ratio_def power_int_def power_one_over field_simps)

lemma nat_digits_bounds: "0 < n \<Longrightarrow> 10 ^ (length (nat_digits n) - 1) \<le> n \<and> n < 10 ^ length (nat_digits n)"
proof -
  assume n: "0 < n"
  have "n < 10 ^ length (nat_digits n)"
    using digits_val_bound [OF nat_digits_digit [of n]] by simp
  moreover have "10 ^ (length (nat_digits n) - 1) \<le> n"
  proof (rule ccontr)
    assume "\<not> ?thesis"
    then have lt: "n < 10 ^ (length (nat_digits n) - 1)" by simp
    show False
    proof (cases "length (nat_digits n) - 1")
      case 0
      with lt n show False by simp
    next
      case (Suc k)
      with lt have "length (nat_digits n) \<le> Suc k" by (intro nat_digits_length) simp_all
      with Suc show False by simp
    qed
  qed
  ultimately show ?thesis by simp
qed

lemma ten_less_iff: "10 powi i < (10 powi j :: real) \<longleftrightarrow> i < j"
  using power_int_strict_increasing [of i j "10 :: real"] power_int_increasing [of j i "10 :: real"] by force

lemma decimal_exponent:
  assumes "dec_rounds r c p" "0 < r" "r < inf_mag"
  shows "0 < c" "\<bar>int (length (nat_digits c)) - 1 + p\<bar> < 401"
proof -
  obtain a b where ab: "scale_ratio 10 c p = (a, b)" by fastforce
  then have r: "round_ratio a b = r" using assms(1) by (simp add: dec_rounds_def)
  note v = scale_ratio_value [OF ab]
  show c: "0 < c"
    using r ab assms(2) by (cases "c = 0") (auto simp: scale_ratio_def round_ratio_def)
  let ?n = "length (nat_digits c)"
  have n: "0 < ?n" by simp
  have cb: "real (10 ^ (?n - 1)) \<le> real c" "real c < real (10 ^ ?n)"
    using nat_digits_bounds [OF c] by (simp_all only: of_nat_le_iff of_nat_less_iff)
  have pw: "real (10 ^ (?n - 1)) = 10 powi (int ?n - 1)" "real (10 ^ ?n) = 10 powi int ?n"
    using n by (simp_all add: power_int_def nat_diff_distrib)
  have "10 powi (int ?n - 1 + p) \<le> real a / real b"
    using cb(1) v unfolding pw by (simp add: power_int_add)
  moreover have "real a / real b < 10 powi (int ?n + p)"
    using cb(2) v unfolding pw by (simp add: power_int_add)
  moreover have "real a / real b < two 1024" using v r assms(3) round_ratio_finite_less [of b a] by simp
  moreover have "two (- 1076) \<le> real a / real b" using v r assms(2) round_ratio_tiny [of b a] by force
  moreover have "two 1024 < 10 powi 400" "10 powi (- 400) < two (- 1076)" by (simp_all add: power_int_def field_simps)
  ultimately have "10 powi (int ?n - 1 + p) < (10 powi 400 :: real)" "10 powi (- 400) < (10 powi (int ?n + p) :: real)"
    by linarith+
  then have "int ?n - 1 + p < 400" "- 400 < int ?n + p" by (simp_all only: ten_less_iff)
  then show "\<bar>int ?n - 1 + p\<bar> < 401" by linarith
qed

section \<open>Both layouts read back\<close>

lemma scan_mant_digits:
  "list_all is_digit s \<Longrightarrow>
     scan_mant 10 (s @ rest) dot m f saw =
     scan_mant 10 rest dot (m * 10 ^ length s + digits_val s) (if dot then f + length s else f) (saw \<or> s \<noteq> [])"
proof (induction s arbitrary: m f saw)
  case (Cons c s)
  then show ?case using digit_not_sign [of c]
    by (simp add: digit_in_def Let_def algebra_simps)
qed simp

lemma digits_no_underscore: "list_all is_digit s \<Longrightarrow> CHR ''_'' \<notin> set s"
  by (auto simp: list_all_iff dest: digit_not_sign)

lemma scan_exp_digits:
  "list_all is_digit s \<Longrightarrow> e * 10 ^ length s + digits_val s < 100000 \<Longrightarrow>
     scan_exp s e = (e * 10 ^ length s + digits_val s, [])"
proof (induction s arbitrary: e)
  case (Cons c s)
  have "e * 10 * 10 ^ length s < 100000" using Cons.prems(2) by simp
  moreover have "e * 10 * 1 \<le> e * 10 * 10 ^ length s" by (intro mult_le_mono2) simp
  ultimately have "e < 10000" by linarith
  moreover have "(10 * e + digit_val c) * 10 ^ length s + digits_val s = e * 10 ^ length (c # s) + digits_val (c # s)"
    by (simp add: algebra_simps)
  ultimately show ?case
    using Cons.IH [of "10 * e + digit_val c"] Cons.prems digit_not_sign [of c] by simp
qed simp

lemma read_exp_nil: "read_exp CHR ''e'' [] = Some (0, [])"
  by (simp add: read_exp_def)

lemma read_exp_written:
  assumes "\<bar>x\<bar> < 401"
  shows "read_exp CHR ''e'' (''e'' @ (if x < 0 then ''-'' else ''+'') @ nat_digits (nat \<bar>x\<bar>)) = Some (x, [])"
proof -
  have "scan_exp (nat_digits (nat \<bar>x\<bar>)) 0 = (nat \<bar>x\<bar>, [])"
    using scan_exp_digits [OF nat_digits_digit [of "nat \<bar>x\<bar>"], of 0] assms by simp
  moreover have "is_digit (hd (nat_digits (nat \<bar>x\<bar>)))"
    using nat_digits_digit [of "nat \<bar>x\<bar>"] nat_digits_nonempty [of "nat \<bar>x\<bar>"]
    by (cases "nat_digits (nat \<bar>x\<bar>)") auto
  ultimately show ?thesis by (auto simp: read_exp_def ascii_low_def is_upper_def less_eq_char_def Let_def)
qed

text \<open>A text of digits and at most one point, with an exponent.\<close>

lemma read_float_parts:
  assumes "list_all is_digit i" "i \<noteq> []" "list_all is_digit fr" "read_exp CHR ''e'' ex = Some (e, [])"
    and "CHR ''_'' \<notin> set ex" "ex = [] \<or> hd ex = CHR ''e''"
  shows "read_float (i @ ''.'' @ fr @ ex) = Some (scale_ratio 10 (digits_val (i @ fr)) (e - int (length fr)))"
    and "read_float (i @ ex) = Some (scale_ratio 10 (digits_val i) e)"
proof -
  have stop: "scan_mant 10 ex d m f saw = (m, f, saw, ex)" for d m f saw
    using assms(6) by (cases ex) (auto simp: digit_in_def Let_def is_digit_def less_eq_char_def)
  obtain c cs where i: "i = c # cs" using assms(2) by (cases i) auto
  have no_x: "ascii_low d \<noteq> CHR ''x''" if "is_digit d \<or> d = CHR ''.'' \<or> d = CHR ''e''" for d
    using that by (auto simp: ascii_low_def is_upper_def is_digit_def less_eq_char_def)
  have nx: "\<not> hex_prefix (i @ t)" if "t = [] \<or> hd t = CHR ''.'' \<or> hd t = CHR ''e''" for t
    using assms(1) that unfolding i hex_prefix_def
    by (cases cs; cases t) (auto simp: no_x)
  show "read_float (i @ ''.'' @ fr @ ex) = Some (scale_ratio 10 (digits_val (i @ fr)) (e - int (length fr)))"
    using nx [of "''.'' @ fr @ ex"] assms digits_no_underscore
    by (simp add: read_float_def scan_mant_digits stop)
  show "read_float (i @ ex) = Some (scale_ratio 10 (digits_val i) e)"
    using nx [of ex] assms digits_no_underscore 
    by (auto simp: read_float_def scan_mant_digits scan_mant_digits [where rest = "[]", simplified] stop)
qed

lemma layout_f_reads: "read_float (layout_f c p) = Some (scale_ratio 10 c p)"
proof -
  let ?ds = "nat_digits c"
  consider (int) "0 \<le> p" | (mid) "p < 0" "0 < int (length ?ds) + p" | (small) "p < 0" "int (length ?ds) + p \<le> 0"
    by linarith
  then show ?thesis
  proof cases
    case int
    have "read_float ((?ds @ replicate (nat p) CHR ''0'') @ []) =
        Some (scale_ratio 10 (digits_val (?ds @ replicate (nat p) CHR ''0'')) 0)"
      using nat_digits_digit [of c] read_exp_nil
      by (intro read_float_parts(2)) simp_all
    with int show ?thesis by (simp add: layout_f_def Let_def scale_ratio_def)
  next
    case mid
    let ?k = "nat (int (length ?ds) + p)"
    have i: "list_all is_digit (take ?k ?ds)" "list_all is_digit (drop ?k ?ds)"
      using nat_digits_digit [of c] by (auto simp: list_all_iff dest: in_set_takeD in_set_dropD)
    have "read_float (take ?k ?ds @ ''.'' @ drop ?k ?ds @ []) =
        Some (scale_ratio 10 (digits_val (take ?k ?ds @ drop ?k ?ds)) (0 - int (length (drop ?k ?ds))))"
      using i mid read_exp_nil by (intro read_float_parts(1)) simp_all
    moreover have "0 - int (length (drop ?k ?ds)) = p" using mid by simp
    ultimately show ?thesis using mid unfolding append_take_drop_id
      by (simp add: layout_f_def Let_def del: digits_val_simps(3))
  next
    case small
    let ?z = "replicate (nat (- (int (length ?ds) + p))) CHR ''0''"
    have "read_float (''0'' @ ''.'' @ (?z @ ?ds) @ []) =
        Some (scale_ratio 10 (digits_val (''0'' @ ?z @ ?ds)) (0 - int (length (?z @ ?ds))))"
      using nat_digits_digit [of c] read_exp_nil
      by (intro read_float_parts(1)) simp_all
    moreover have "0 - int (length (?z @ ?ds)) = p" using small by simp
    ultimately show ?thesis using small by (simp add: layout_f_def Let_def digit_val_def)
  qed
qed

lemma layout_e_reads:
  assumes "\<bar>int (length (nat_digits c)) - 1 + p\<bar> < 401"
  shows "read_float (layout_e c p) = Some (scale_ratio 10 c p)"
proof -
  let ?ds = "nat_digits c" and ?x = "int (length (nat_digits c)) - 1 + p"
  let ?ex = "''e'' @ (if ?x < 0 then ''-'' else ''+'') @ nat_digits (nat \<bar>?x\<bar>)"
  note ex = read_exp_written [OF assms]
  have nu: "CHR ''_'' \<notin> set ?ex" using digits_no_underscore [OF nat_digits_digit] by simp
  obtain d tl' where ds: "?ds = d # tl'" by (cases ?ds) simp_all
  have dig: "list_all is_digit [d]" "list_all is_digit tl'" using nat_digits_digit [of c] ds by simp_all
  have v: "digits_val ([d] @ tl') = c" using nat_digits_val [of c] unfolding ds append_Cons append_Nil .
  show ?thesis
  proof (cases "tl' = []")
    case True
    have "read_float ([d] @ ?ex) = Some (scale_ratio 10 (digits_val [d]) ?x)"
      using dig ex nu by (intro read_float_parts(2)) simp_all
    moreover have "?x = p" "layout_e c p = [d] @ ?ex" "digits_val [d] = c" using True ds v by (simp_all add: layout_e_def Let_def)
    ultimately show ?thesis by simp
  next
    case False
    have "read_float ([d] @ ''.'' @ tl' @ ?ex) = Some (scale_ratio 10 (digits_val ([d] @ tl')) (?x - int (length tl')))"
      using dig ex nu by (intro read_float_parts(1)) simp_all
    moreover have "?x - int (length tl') = p" "layout_e c p = [d] @ ''.'' @ tl' @ ?ex"
      using False ds by (simp_all add: layout_e_def Let_def)
    ultimately show ?thesis unfolding v by simp
  qed
qed

lemma layout_hd: "\<exists>d t. layout_f c p = d # t \<and> is_digit d" "\<exists>d t. layout_e c p = d # t \<and> is_digit d"
proof -
  obtain d ds where ds: "nat_digits c = d # ds" by (cases "nat_digits c") simp_all
  then have d: "is_digit d" using nat_digits_digit [of c] by simp
  have "0 < int (length (d # ds)) + p \<Longrightarrow> take (nat (int (length (d # ds)) + p)) (d # ds) = d # take (nat (int (length (d # ds)) + p) - 1) ds"
    by (cases "nat (int (length (d # ds)) + p)") auto
  with d show "\<exists>d t. layout_f c p = d # t \<and> is_digit d"
    unfolding layout_f_def Let_def ds by (auto simp: is_digit_def)
  show "\<exists>d t. layout_e c p = d # t \<and> is_digit d"
    using d unfolding layout_e_def Let_def ds by simp
qed

section \<open>The round trip\<close>

lemma parse_special_digit:
  assumes "is_digit d"
  shows "parse_special (d # t) = None" "parse_special (CHR ''-'' # d # t) = None"
proof -
  have "ascii_low d \<noteq> CHR ''i''" "ascii_low d \<noteq> CHR ''n''"
    using assms by (auto simp: ascii_low_def is_upper_def is_digit_def less_eq_char_def)
  then show "parse_special (d # t) = None" "parse_special (CHR ''-'' # d # t) = None"
    using digit_not_sign [OF assms] by (simp_all add: parse_special_def special_unsigned_def lower_ascii_def)
qed

lemma ParseFloat_text:
  assumes "read_float u = Some (a, b)" "u = d # t" "is_digit d" "round_ratio a b < inf_mag"
  shows "ParseFloat ((if ng then ''-'' else []) @ u) = Some (pack ng (round_ratio a b))"
  using assms digit_not_sign [OF assms(3)] parse_special_digit [OF assms(3), of t]
  by (cases ng) (auto simp: ParseFloat_def Let_def)

lemma ParseFloat_json_float:
  assumes "json_float x = Some s"
  shows "ParseFloat s = Some x"
proof -
  have fin: "mag x < inf_mag" using assms by (simp add: json_float_def is_finite_def split: if_splits)
  define cp where "cp = (if mag x = 0 then (0, 0) else shortest_digits (mag x))"
  obtain c p where cp': "cp = (c, p)" by fastforce
  obtain a b where ab: "scale_ratio 10 c p = (a, b)" by fastforce
  have dr: "dec_rounds (mag x) c p"
    using cp' fin shortest_digits_rounds [of "mag x" c p]
    by (cases "mag x = 0") (auto simp: cp_def dec_rounds_def scale_ratio_def round_ratio_def)
  then have rr: "round_ratio a b = mag x" using ab by (simp add: dec_rounds_def)
  define body where "body = (if mag x \<noteq> 0 \<and> (mag x < mag_1e_6 \<or> mag_1e21 \<le> mag x) then layout_e c p else layout_f c p)"
  have s: "s = (if neg x then ''-'' else []) @ body"
    using assms cp' unfolding body_def by (auto simp: json_float_def Let_def cp_def split: if_splits)
  have "read_float body = Some (a, b)"
    using layout_f_reads [of c p] layout_e_reads [of c p] decimal_exponent(2) [OF dr _ fin] ab
    by (cases "mag x = 0") (simp_all add: body_def)
  moreover obtain d t where "body = d # t" "is_digit d" using layout_hd [where c = c and p = p] body_def by metis
  ultimately show ?thesis using ParseFloat_text [of body a b d t "neg x"] rr fin s by simp
qed

end
