(* ===== verification/JsonText.thy ===== *)
theory JsonText
  imports Json FloatText
begin

text \<open>
  The writer's text is read back by the scanner: strings with every escape, numbers, and whole
  documents at any nesting the scanner admits. Strings are followed through \<open>quote\<close> and
  \<open>unquote\<close> for every well-formed UTF-8 text; what \<open>quote\<close> writes is a complete string token
  for every byte sequence, well formed or not.
\<close>

section \<open>String tokens\<close>

abbreviation dquote :: char where "dquote \<equiv> CHR 0x22"
abbreviation bslash :: char where "bslash \<equiv> CHR 0x5C"

definition token_ok :: "string \<Rightarrow> bool" where
  "token_ok t = (scan_string (t @ [dquote]) = Some (t, []))"

lemma scan_string_append: "scan_string s = Some (t, r) \<Longrightarrow> scan_string (s @ x) = Some (t, r @ x)"
proof (induction s arbitrary: t r rule: scan_string.induct)
  case (2 c cs)
  show ?case
  proof (cases "c = bslash")
    case False
    with 2 show ?thesis by (auto split: if_splits)
  next
    case True
    with "2.prems" obtain d ds where cs: "cs = d # ds" by (auto split: list.splits)
    show ?thesis
    proof (cases "d = CHR ''u''")
      case u: True
      with "2.prems" True cs obtain h1 h2 h3 h4 rest where "ds = h1 # h2 # h3 # h4 # rest"
        by (auto split: list.splits)
      with 2 True cs u show ?thesis by (auto split: if_splits)
    next
      case nu: False
      with 2 True cs show ?thesis by (auto split: if_splits)
    qed
  qed
qed simp

lemma scan_token: "token_ok t \<Longrightarrow> scan_string (t @ dquote # r) = Some (t, r)"
  using scan_string_append [of "t @ [dquote]" t "[]" r] by (simp add: token_ok_def)

section \<open>UTF-8 sequences\<close>

definition utf8_seq :: "nat list \<Rightarrow> bool" where
  "utf8_seq bs =
     (case bs of
        [a] \<Rightarrow> a < 128
      | [a, b] \<Rightarrow> 194 \<le> a \<and> a < 224 \<and> cont b
      | [a, b, c] \<Rightarrow> 224 \<le> a \<and> a < 240 \<and> cont b \<and> cont c \<and> (a = 224 \<longrightarrow> 160 \<le> b) \<and> (a = 237 \<longrightarrow> b < 160)
      | [a, b, c, d] \<Rightarrow> 240 \<le> a \<and> a < 245 \<and> cont b \<and> cont c \<and> cont d \<and>
          (a = 240 \<longrightarrow> 144 \<le> b) \<and> (a = 244 \<longrightarrow> b < 144)
      | _ \<Rightarrow> False)"

text \<open>A sequence is recognised by its own bytes, whatever follows.\<close>

lemma utf8_len_seq: "utf8_seq (map of_char u) \<Longrightarrow> utf8_len (u @ x) = length u"
  unfolding utf8_seq_def by (auto simp: utf8_len_def split: list.split_asm)

lemma utf8_seq_take:
  assumes "utf8_len s \<noteq> 0"
  shows "utf8_seq (map of_char (take (utf8_len s) s)) \<and> utf8_len s \<le> length s"
proof -
  obtain bs where bs: "map (of_char :: char \<Rightarrow> nat) s = bs" by blast
  have "utf8_seq (take (utf8_len s) bs) \<and> utf8_len s \<le> length bs"
  proof (cases bs)
    case Nil
    with assms bs show ?thesis by (simp add: utf8_len_def)
  next
    case (Cons b0 r)
    consider "b0 < 128" | "194 \<le> b0 \<and> b0 < 224" | "224 \<le> b0 \<and> b0 < 240" | "240 \<le> b0 \<and> b0 < 245"
      using assms unfolding utf8_len_def bs Cons by (simp split: if_splits)
    then show ?thesis
    proof cases
      case 1
      then show ?thesis using assms unfolding utf8_len_def bs Cons by (simp add: utf8_seq_def)
    next
      case 2
      then show ?thesis using assms unfolding utf8_len_def bs Cons
        by (cases r) (auto simp: utf8_seq_def split: if_splits)
    next
      case 3
      then show ?thesis using assms unfolding utf8_len_def bs Cons
        by (cases r; cases "tl r") (auto simp: utf8_seq_def split: if_splits)
    next
      case 4
      then show ?thesis using assms unfolding utf8_len_def bs Cons
        by (cases r; cases "tl r"; cases "tl (tl r)") (auto simp: utf8_seq_def split: if_splits)
    qed
  qed
  then show ?thesis using bs by (auto simp: take_map)
qed

lemma utf8_seq_high: "utf8_seq bs \<Longrightarrow> 1 < length bs \<Longrightarrow> list_all (\<lambda>b. 128 \<le> b) bs"
  by (clarsimp simp: utf8_seq_def cont_def split: list.splits)

lemma utf8_len_one: "utf8_len s = 1 \<Longrightarrow> s \<noteq> [] \<and> of_char (hd s) < (128 :: nat)"
  using utf8_seq_take [of s] by (cases s) (simp_all add: utf8_seq_def)

text \<open>A well-formed text is a concatenation of sequences.\<close>

function utf8_valid :: "string \<Rightarrow> bool" where
  "utf8_valid s = (if s = [] then True else if utf8_len s = 0 then False else utf8_valid (drop (utf8_len s) s))"
  by pat_completeness auto
termination
  by (relation "measure length") auto

declare utf8_valid.simps [simp del]

section \<open>What the writer quotes\<close>

lemma is_hex_digit [simp]: "d < 16 \<Longrightarrow> is_hex (hex_digit d)" "d < 16 \<Longrightarrow> digit_in 16 (hex_digit d) = Some d"
proof -
  have "list_all (\<lambda>d. digit_in 16 (hex_digit d) = Some d) [0..<16]" by code_simp
  then show "d < 16 \<Longrightarrow> digit_in 16 (hex_digit d) = Some d" by (simp add: list_all_iff)
  then show "d < 16 \<Longrightarrow> is_hex (hex_digit d)" by (simp add: is_hex_def)
qed

lemma scan_high:
  "list_all (\<lambda>c. 128 \<le> (of_char c :: nat)) u \<Longrightarrow> scan_string (u @ x) = map_option (\<lambda>(t, r). (u @ t, r)) (scan_string x)"
proof (induction u)
  case (Cons c u)
  then have "c \<noteq> dquote" "c \<noteq> bslash" "\<not> of_char c < (32 :: nat)" by auto
  with Cons show ?case by (auto simp: option.map_comp o_def case_prod_beta)
qed (simp add: case_prod_beta option.map_id option.map_ident)

lemma scan_quote_byte:
  assumes "of_char c < (128 :: nat)"
  shows "scan_string (quote_byte c @ x) = map_option (\<lambda>(t, r). (quote_byte c @ t, r)) (scan_string x)"
proof -
  have h: "of_char c div 16 < (16 :: nat)" "of_char c mod 16 < (16 :: nat)" using assms by simp_all
  have z: "is_hex CHR ''0''" by code_simp
  show ?thesis unfolding quote_byte_def using h z by (simp add: escapes_def)
qed

lemma scan_quote: "scan_string (quote s @ dquote # r) = Some (quote s, r)"
proof (induction s rule: quote.induct)
  case (1 s)
  let ?n = "utf8_len s"
  have hx: "list_all is_hex ''fd2089''" by code_simp
  show ?case
  proof (cases "s = []")
    case True
    then show ?thesis by (simp add: quote.simps [of "[]"])
  next
    case ne: False
    consider (bad) "?n = 0" | (one) "?n = 1" | (two) "1 < ?n" by linarith
    then show ?thesis
    proof cases
      case bad
      then show ?thesis using "1.IH"(1) [OF ne refl] ne hx by (simp add: quote.simps [of s])
    next
      case one
      then show ?thesis using "1.IH"(2) [OF ne refl] ne utf8_len_one [OF one] scan_quote_byte [of "hd s" "quote (tl s) @ dquote # r"]
        by (simp add: quote.simps [of s])
    next
      case two
      then have h: "list_all (\<lambda>c. 128 \<le> (of_char c :: nat)) (take ?n s)"
        using utf8_seq_take [of s] utf8_seq_high [of "map of_char (take ?n s)"] by (simp add: list.pred_map o_def)
      show ?thesis using "1.IH"(3-5) [OF ne refl] ne two hx scan_high [OF h]
        by (simp add: quote.simps [of s] Let_def)
    qed
  qed
qed

lemma token_quote [simp]: "token_ok (quote s)"
  using scan_quote [of s "[]"] by (simp add: token_ok_def)

lemma unquote_Nil [simp]: "unquote [] = []"
  by (simp add: unquote.simps)

lemma unquote_escape: "d \<noteq> CHR ''u'' \<Longrightarrow> unquote (bslash # d # x) = simple_escape d # unquote x"
  by (simp add: unquote.simps [of "bslash # d # x"])

lemma unquote_hex:
  assumes "hex4 h = n" "length h = 4" "n < 55296"
  shows "unquote (bslash # CHR ''u'' # h @ x) = utf8_enc n @ unquote x"
  using assms by (simp add: unquote.simps [of "bslash # CHR ''u'' # h @ x"] hex4_def Let_def high_surr_def low_surr_def)

lemma unquote_seq:
  assumes "utf8_seq (map of_char u)" "u \<noteq> []" "hd u \<noteq> bslash"
  shows "unquote (u @ x) = u @ unquote x"
  using assms utf8_len_seq [OF assms(1), of x] by (simp add: unquote.simps [of "u @ x"])

lemma unquote_quote_byte:
  assumes "of_char c < (128 :: nat)"
  shows "unquote (quote_byte c @ x) = c # unquote x"
proof -
  let ?n = "of_char c :: nat"
  consider (esc) "c \<in> {dquote, bslash, CHR 0x08, CHR 0x0C, CHR 0x0A, CHR 0x0D, CHR 0x09}"
    | (hex) "quote_byte c = bslash # CHR ''u'' # [CHR ''0'', CHR ''0'', hex_digit (?n div 16), hex_digit (?n mod 16)]"
    | (plain) "quote_byte c = [c]" "c \<noteq> bslash"
    by (cases "c \<in> {dquote, bslash, CHR 0x08, CHR 0x0C, CHR 0x0A, CHR 0x0D, CHR 0x09}";
        cases "?n < 32 \<or> c = CHR ''<'' \<or> c = CHR ''>'' \<or> c = CHR ''&''") (simp_all add: quote_byte_def)
  then show ?thesis
  proof cases
    case esc
    then show ?thesis by (auto simp: quote_byte_def unquote_escape simple_escape_def)
  next
    case hex
    have h: "?n div 16 < 16" "?n mod 16 < 16" using assms by simp_all
    have "hex4 [CHR ''0'', CHR ''0'', hex_digit (?n div 16), hex_digit (?n mod 16)] = ?n"
      using h by (simp add: hex4_def digit_in_def [of 16 "CHR ''0''"] digit_val_def)
    from unquote_hex [OF this, of x] show ?thesis using hex assms by (simp add: utf8_enc_def)
  next
    case plain
    then show ?thesis using unquote_seq [of "[c]" x] assms by (simp add: utf8_seq_def)
  qed
qed

lemma take_drop_eq: "take n s = u \<Longrightarrow> u @ drop n s = s"
  by (metis append_take_drop_id)

lemma unquote_quote: "utf8_valid s \<Longrightarrow> unquote (quote s) = s"
proof (induction s rule: quote.induct)
  case (1 s)
  let ?n = "utf8_len s"
  show ?case
  proof (cases "s = []")
    case True
    then show ?thesis by (simp add: quote.simps [of "[]"])
  next
    case ne: False
    have v: "?n \<noteq> 0" "utf8_valid (drop ?n s)" using "1.prems" ne by (simp_all add: utf8_valid.simps [of s] split: if_splits)
    note sq = utf8_seq_take [OF v(1)]
    show ?thesis
    proof (cases "?n = 1")
      case True
      have c: "s = hd s # tl s" using ne by simp
      have "utf8_valid (tl s)" using v(2) True c by (simp add: drop_Suc)
      then show ?thesis using "1.IH"(2) [OF ne refl v(1) True] True ne utf8_len_one [OF True]
        by (simp add: quote.simps [of s] unquote_quote_byte)
    next
      case False
      then have two: "1 < ?n" using v(1) by linarith
      have hs: "hex4 ''2028'' = 8232" "hex4 ''2029'' = 8233" by code_simp+
      have ls: "take 3 s = utf8_enc 8232 \<or> take 3 s = utf8_enc 8233 \<Longrightarrow> ?n = 3"
      proof -
        assume a: "take 3 s = utf8_enc 8232 \<or> take 3 s = utf8_enc 8233"
        have "utf8_seq (map of_char (take 3 s)) \<and> length (take 3 s) = 3"
          using a by (auto simp: utf8_enc_def utf8_seq_def cont_def simp del: length_take)
        then show "?n = 3" using utf8_len_seq [of "take 3 s" "drop 3 s"] by simp
      qed
      have "list_all (\<lambda>b. 128 \<le> b) (map (of_char :: char \<Rightarrow> nat) (take ?n s))"
        using utf8_seq_high [of "map of_char (take ?n s)"] sq two by simp
      moreover have "take ?n s \<noteq> []" using two ne by auto
      ultimately have "hd (take ?n s) \<noteq> bslash" by (cases "take ?n s") auto
      then have "unquote (take ?n s @ x) = take ?n s @ unquote x" for x
        using unquote_seq [of "take ?n s" x] sq two ne by auto
      moreover have "unquote (bslash # CHR ''u'' # ''2028'' @ x) = utf8_enc 8232 @ unquote x"
        "unquote (bslash # CHR ''u'' # ''2029'' @ x) = utf8_enc 8233 @ unquote x" for x
        using hs by (intro unquote_hex; simp)+
      ultimately show ?thesis
        using "1.IH"(3-5) [OF ne refl v(1) False] v(2) ne False ls
        by (auto simp: quote.simps [of s] Let_def intro: take_drop_eq)
    qed
  qed
qed

lemma ascii_valid: "list_all (\<lambda>c. of_char c < (128 :: nat)) s \<Longrightarrow> utf8_valid s"
proof (induction s)
  case (Cons c s)
  then have "utf8_len (c # s) = 1" using utf8_len_seq [of "[c]" s] by (simp add: utf8_seq_def)
  with Cons show ?case by (simp add: utf8_valid.simps [of "c # s"])
qed (simp add: utf8_valid.simps)

section \<open>Numbers\<close>

text \<open>An unsigned number as its parts: integer digits, fraction digits (none, or after a point),
  and an exponent.\<close>

definition number_parts :: "string \<Rightarrow> string \<Rightarrow> string \<Rightarrow> bool" where
  "number_parts i fr ex =
     (list_all is_digit i \<and> int_part_ok i \<and> list_all is_digit fr \<and> exp_ok ex \<and>
      list_all num_char ex \<and> (ex = [] \<or> hd ex = CHR ''e''))"

definition number_text :: "string \<Rightarrow> string \<Rightarrow> string \<Rightarrow> string" where
  "number_text i fr ex = i @ (if fr = [] then [] else ''.'' @ fr) @ ex"

lemma span_digits:
  assumes "list_all is_digit i" "r = [] \<or> \<not> is_digit (hd r)"
  shows "takeWhile is_digit (i @ r) = i" "dropWhile is_digit (i @ r) = r"
proof -
  have "takeWhile is_digit r = []" "dropWhile is_digit r = r" using assms(2) by (cases r; simp)+
  with assms(1) show "takeWhile is_digit (i @ r) = i" "dropWhile is_digit (i @ r) = r"
    by (simp_all add: list_all_iff)
qed

lemma not_digit [simp]: "\<not> is_digit CHR ''.''" "\<not> is_digit CHR ''e''" "\<not> is_digit CHR ''-''"
  by (simp_all add: is_digit_def less_eq_char_def)

lemma number_text_ok:
  assumes "number_parts i fr ex"
  shows "json_number ((if ng then ''-'' else []) @ number_text i fr ex)"
    and "list_all num_char ((if ng then ''-'' else []) @ number_text i fr ex)"
proof -
  note p = assms [unfolded number_parts_def]
  obtain c cs where i: "i = c # cs" using p by (cases i) (auto simp: int_part_ok_def)
  have "c \<noteq> CHR ''-''" using p i by auto
  then have u: "(let s = (if ng then ''-'' else []) @ number_text i fr ex
      in if s \<noteq> [] \<and> hd s = CHR ''-'' then tl s else s) = number_text i fr ex"
    by (simp add: number_text_def i)
  have ex: "ex = [] \<or> \<not> is_digit (hd ex)" using p by auto
  then have sp: "takeWhile is_digit (number_text i fr ex) = i"
    "dropWhile is_digit (number_text i fr ex) = (if fr = [] then [] else ''.'' @ fr) @ ex"
    unfolding number_text_def using p by (auto intro: span_digits)
  have ne: "ex = [] \<or> hd ex \<noteq> CHR ''.''" using p by auto
  show "json_number ((if ng then ''-'' else []) @ number_text i fr ex)"
    unfolding json_number_def u [unfolded Let_def] Let_def sp
    using p ex ne span_digits [of fr ex] by auto
  have "list_all num_char i" "list_all num_char fr" using p by (auto simp: list_all_iff num_char_def)
  then show "list_all num_char ((if ng then ''-'' else []) @ number_text i fr ex)"
    using p by (auto simp: number_text_def num_char_def)
qed

lemma nat_digits_int_part: "int_part_ok (nat_digits n)"
  using nat_digits_hd [of n] by (cases "n = 0") (auto simp: int_part_ok_def)

lemma layout_e_parts: "\<exists>i fr ex. layout_e c p = number_text i fr ex \<and> number_parts i fr ex"
proof -
  let ?x = "int (length (nat_digits c)) - 1 + p"
  let ?ex = "''e'' @ (if ?x < 0 then ''-'' else ''+'') @ nat_digits (nat \<bar>?x\<bar>)"
  obtain d ds where ds: "nat_digits c = d # ds" by (cases "nat_digits c") simp_all
  have dig: "is_digit d" "list_all is_digit ds" using nat_digits_digit [of c] ds by simp_all
  have e: "list_all is_digit (nat_digits k)" for k by (rule nat_digits_digit)
  then have "list_all num_char (nat_digits k)" for k by (simp add: list_all_iff num_char_def)
  then have "exp_ok ?ex" "list_all num_char ?ex" using e by (simp_all add: exp_ok_def num_char_def)
  then have "number_parts [d] ds ?ex" using dig by (simp add: number_parts_def int_part_ok_def)
  moreover have "layout_e c p = number_text [d] ds ?ex" by (simp add: layout_e_def number_text_def ds Let_def)
  ultimately show ?thesis by blast
qed

lemma layout_f_parts:
  assumes "0 < c \<or> p = 0"
  shows "\<exists>i fr. layout_f c p = number_text i fr [] \<and> number_parts i fr []"
proof -
  let ?ds = "nat_digits c" let ?k = "nat (int (length ?ds) + p)"
  have dig: "list_all is_digit ?ds" by (rule nat_digits_digit)
  have hd: "0 < c \<Longrightarrow> hd ?ds \<noteq> CHR ''0''" by (rule nat_digits_hd)
  have ex: "exp_ok []" by (simp add: exp_ok_def)
  consider (int) "0 \<le> p" | (mid) "p < 0" "0 < int (length ?ds) + p" | (small) "p < 0" "int (length ?ds) + p \<le> 0"
    by linarith
  then show ?thesis
  proof cases
    case int
    have "int_part_ok (?ds @ replicate (nat p) CHR ''0'')"
      using assms hd nat_digits_int_part [of c] by (cases "p = 0") (auto simp: int_part_ok_def)
    then show ?thesis using int dig ex
      by (intro exI [of _ "?ds @ replicate (nat p) CHR ''0''"] exI [of _ "[]"])
        (simp add: layout_f_def number_text_def number_parts_def Let_def)
  next
    case mid
    have "list_all is_digit (take ?k ?ds)" "list_all is_digit (drop ?k ?ds)"
      using dig by (auto simp: list_all_iff dest: in_set_takeD in_set_dropD)
    moreover have "int_part_ok (take ?k ?ds)" using mid assms hd by (simp add: int_part_ok_def hd_take)
    ultimately show ?thesis using mid ex
      by (intro exI [of _ "take ?k ?ds"] exI [of _ "drop ?k ?ds"])
        (simp add: layout_f_def number_text_def number_parts_def Let_def)
  next
    case small
    then show ?thesis using dig ex
      by (intro exI [of _ "''0''"] exI [of _ "replicate (nat (- (int (length ?ds) + p))) CHR ''0'' @ ?ds"])
        (simp add: layout_f_def number_text_def number_parts_def Let_def int_part_ok_def)
  qed
qed

lemma json_float_number:
  assumes "json_float x = Some t"
  shows "json_number t" "list_all num_char t"
proof -
  obtain c p where cp: "(if mag x = 0 then (0, 0) else shortest_digits (mag x)) = (c, p)" by fastforce
  have fin: "mag x < inf_mag" using assms by (simp add: json_float_def is_finite_def split: if_splits)
  have "0 < c \<or> p = 0"
    using cp fin shortest_digits_rounds [of "mag x" c p] decimal_exponent(1) [of "mag x" c p]
    by (cases "mag x = 0") auto
  then obtain i fr ex where "number_parts i fr ex" "t = (if neg x then ''-'' else []) @ number_text i fr ex"
    using assms cp layout_f_parts [of c p] layout_e_parts [of c p]
    by (auto simp: json_float_def Let_def split: if_splits)
  with number_text_ok [of i fr ex "neg x"] show "json_number t" "list_all num_char t" by simp_all
qed

lemma FormatInt_number: "json_number (FormatInt i)" "list_all num_char (FormatInt i)"
proof -
  have "number_parts (nat_digits n) [] []" for n
    using nat_digits_int_part [of n] nat_digits_digit [of n] by (simp add: number_parts_def exp_ok_def)
  from number_text_ok [OF this, of "i < 0" "nat \<bar>i\<bar>"]
  show "json_number (FormatInt i)" "list_all num_char (FormatInt i)"
    by (simp_all add: FormatInt_def number_text_def split: if_splits)
qed

section \<open>Documents\<close>

fun wf_json :: "json \<Rightarrow> bool" where
  "wf_json (JNum t) = (json_number t \<and> list_all num_char t)"
| "wf_json (JStr t) = token_ok t"
| "wf_json (JArr vs) = list_all wf_json vs"
| "wf_json (JObj ms) = list_all (\<lambda>(k, v). token_ok k \<and> wf_json v) ms"
| "wf_json _ = True"

fun jdepth :: "json \<Rightarrow> nat" where
  "jdepth (JArr vs) = Suc (fold max (map jdepth vs) 0)"
| "jdepth (JObj ms) = Suc (fold max (map (\<lambda>(k, v). jdepth v) ms) 0)"
| "jdepth _ = 0"

lemma le_fold_max: "x \<in> set xs \<Longrightarrow> (x :: nat) \<le> fold max xs a" "a \<le> fold max xs a"
  by (induction xs arbitrary: a) (auto intro: order.trans [OF max.cobounded1] order.trans [OF max.cobounded2])

lemma fold_max_le: "fold max xs a \<le> (n :: nat) \<longleftrightarrow> a \<le> n \<and> list_all (\<lambda>x. x \<le> n) xs"
  by (induction xs arbitrary: a) auto

definition stops :: "string \<Rightarrow> bool" where
  "stops r = (r = [] \<or> \<not> num_char (hd r))"

lemma stops_simps [simp]: "stops []" "stops (CHR '','' # r)" "stops (CHR '']'' # r)" "stops (CHR ''}'' # r)"
  by (simp_all add: stops_def num_char_def is_digit_def less_eq_char_def)

lemma json_number_hd: "json_number t \<Longrightarrow> \<exists>c cs. t = c # cs \<and> (is_digit c \<or> c = CHR ''-'')"
  by (cases t) (auto simp: json_number_def int_part_ok_def Let_def split: if_splits)

lemma digit_facts:
  "is_digit c \<or> c = CHR ''-'' \<Longrightarrow> num_char c \<and> \<not> json_space c \<and> c \<noteq> CHR ''{'' \<and> c \<noteq> CHR ''['' \<and>
     c \<noteq> CHR '']'' \<and> c \<noteq> dquote"
  by (auto simp: num_char_def json_space_def is_digit_def less_eq_char_def)

lemma skip_ws_Cons [simp]: "\<not> json_space c \<Longrightarrow> skip_ws (c # s) = c # s"
  by (simp add: skip_ws_def)

lemma json_space_punct [simp]:
  "\<not> json_space CHR ''{''" "\<not> json_space CHR ''}''" "\<not> json_space CHR ''[''" "\<not> json_space CHR '']''"
  "\<not> json_space CHR '',''" "\<not> json_space CHR '':''" "\<not> json_space dquote" "\<not> json_space CHR ''n''"
  "\<not> json_space CHR ''t''" "\<not> json_space CHR ''f''"
  by (simp_all add: json_space_def)

lemma print_hd:
  assumes "wf_json v"
  shows "\<exists>c t. json_print v = c # t \<and> \<not> json_space c \<and> c \<noteq> CHR '']''"
  using assms by (cases v) (auto dest!: json_number_hd digit_facts)

text \<open>What a container's elements and members look like, and that they are read back when each
  value is.\<close>

definition reads_back :: "json \<Rightarrow> bool" where
  "reads_back v \<longleftrightarrow>
     (\<forall>k d rest. wf_json v \<longrightarrow> d + jdepth v \<le> max_depth \<longrightarrow> length (json_print v) \<le> k \<longrightarrow> stops rest \<longrightarrow>
        parse_value k d (json_print v @ rest) = Some (v, rest))"

lemma reads_backD:
  "reads_back v \<Longrightarrow> wf_json v \<Longrightarrow> d + jdepth v \<le> max_depth \<Longrightarrow> length (json_print v) \<le> k \<Longrightarrow> stops rest \<Longrightarrow>
     parse_value k d (json_print v @ rest) = Some (v, rest)"
  by (simp add: reads_back_def)

lemma parse_elems_print:
  assumes "vs \<noteq> []" "\<And>v. v \<in> set vs \<Longrightarrow> reads_back v \<and> wf_json v \<and> d + jdepth v \<le> max_depth"
    and "length (sep_by '','' (map json_print vs)) < k"
  shows "parse_elems k d (sep_by '','' (map json_print vs) @ CHR '']'' # rest) = Some (vs, rest)"
  using assms
proof (induction vs arbitrary: k)
  case (Cons v vs)
  obtain k' where k: "k = Suc k'" using Cons.prems(3) by (cases k) auto
  note v = Cons.prems(2) [of v, simplified]
  show ?case
  proof (cases vs)
    case Nil
    then show ?thesis using k Cons.prems(3) v reads_backD [of v d k' "CHR '']'' # rest"] by simp
  next
    case (Cons w ws)
    let ?more = "sep_by '','' (map json_print vs) @ CHR '']'' # rest"
    have "parse_value k' d (json_print v @ CHR '','' # ?more) = Some (v, CHR '','' # ?more)"
      using v k Cons.prems(3) Cons by (intro reads_backD) auto
    moreover have "parse_elems k' d ?more = Some (vs, rest)"
      using Cons.IH [of k'] Cons.prems(2,3) Cons k by auto
    ultimately show ?thesis using k Cons by simp
  qed
qed simp

abbreviation member_text :: "string \<times> json \<Rightarrow> string" where
  "member_text kv \<equiv> (case kv of (k, v) \<Rightarrow> [dquote] @ k @ [dquote, CHR '':''] @ json_print v)"

lemma parse_members_print:
  assumes "ms \<noteq> []" "\<And>n v. (n, v) \<in> set ms \<Longrightarrow> token_ok n \<and> reads_back v \<and> wf_json v \<and> d + jdepth v \<le> max_depth"
    and "length (sep_by '','' (map member_text ms)) < k"
  shows "parse_members k d (sep_by '','' (map member_text ms) @ CHR ''}'' # rest) = Some (ms, rest)"
  using assms
proof (induction ms arbitrary: k)
  case (Cons m ms)
  obtain n v where m: "m = (n, v)" by fastforce
  obtain k' where k: "k = Suc k'" using Cons.prems(3) by (cases k) auto
  note v = Cons.prems(2) [of n v, simplified m, simplified]
  show ?case
  proof (cases ms)
    case Nil
    then show ?thesis
      using k m Cons.prems(3) v reads_backD [of v d k' "CHR ''}'' # rest"] scan_token [of n] by simp
  next
    case (Cons w ws)
    let ?more = "sep_by '','' (map member_text ms) @ CHR ''}'' # rest"
    have "parse_value k' d (json_print v @ CHR '','' # ?more) = Some (v, CHR '','' # ?more)"
      using v k m Cons.prems(3) Cons by (intro reads_backD) auto
    moreover have "parse_members k' d ?more = Some (ms, rest)"
      using Cons.IH [of k'] Cons.prems(2,3) Cons k m by auto
    ultimately show ?thesis using k m v Cons scan_token [of n] by simp
  qed
qed simp

lemma print_sep_hd:
  assumes "vs \<noteq> []" "list_all wf_json vs"
  shows "\<exists>c t. sep_by '','' (map json_print vs) = c # t \<and> \<not> json_space c \<and> c \<noteq> CHR '']''"
proof -
  obtain v ws where vs: "vs = v # ws" using assms(1) by (cases vs) auto
  then show ?thesis using print_hd [of v] assms(2) by (cases ws) auto
qed

lemma member_sep_hd: "ms \<noteq> [] \<Longrightarrow> \<exists>t. sep_by '','' (map member_text ms) = dquote # t"
  by (cases ms rule: list.exhaust; cases "tl ms") (auto split: prod.splits)

lemma parse_literals:
  "parse_value (Suc k) d (''null'' @ r) = Some (JNull, r)"
  "parse_value (Suc k) d (''true'' @ r) = Some (JBool True, r)"
  "parse_value (Suc k) d (''false'' @ r) = Some (JBool False, r)"
proof -
  have "\<not> num_char CHR ''n''" "\<not> num_char CHR ''t''" "\<not> num_char CHR ''f''"
    by (simp_all add: num_char_def is_digit_def less_eq_char_def)
  then show "parse_value (Suc k) d (''null'' @ r) = Some (JNull, r)"
    "parse_value (Suc k) d (''true'' @ r) = Some (JBool True, r)"
    "parse_value (Suc k) d (''false'' @ r) = Some (JBool False, r)"
    by (simp_all add: strip_prefix_def)
qed

lemma parse_number:
  assumes "json_number t" "list_all num_char t" "stops r"
  shows "parse_value (Suc k) d (t @ r) = Some (JNum t, r)"
proof -
  obtain c cs where t: "t = c # cs" "is_digit c \<or> c = CHR ''-''" using json_number_hd [OF assms(1)] by auto
  have "takeWhile num_char r = []" "dropWhile num_char r = r"
    using assms(3) by (cases r; simp add: stops_def)+
  with assms(2) have "takeWhile num_char (t @ r) = t" "dropWhile num_char (t @ r) = r"
    by (simp_all add: list_all_iff)
  then show ?thesis using assms(1) digit_facts [OF t(2)] by (simp add: t(1) Let_def)
qed

text \<open>The text of a value is not empty, so its fuel is a successor.\<close>

lemma reads_backI:
  assumes "\<And>k d rest. wf_json v \<Longrightarrow> d + jdepth v \<le> max_depth \<Longrightarrow> length (json_print v) \<le> Suc k \<Longrightarrow> stops rest \<Longrightarrow>
     parse_value (Suc k) d (json_print v @ rest) = Some (v, rest)"
  shows "reads_back v"
  unfolding reads_back_def
proof (intro allI impI)
  fix k d and rest :: string
  assume a: "wf_json v" "d + jdepth v \<le> max_depth" "length (json_print v) \<le> k" "stops rest"
  then obtain k' where "k = Suc k'" using print_hd [of v] by (cases k) auto
  then show "parse_value k d (json_print v @ rest) = Some (v, rest)" using assms a by blast
qed

lemma reads_back_array:
  assumes "\<And>v. v \<in> set vs \<Longrightarrow> reads_back v"
  shows "reads_back (JArr vs)"
proof (rule reads_backI)
  fix k d and rest :: string
  assume a: "wf_json (JArr vs)" "d + jdepth (JArr vs) \<le> max_depth" "length (json_print (JArr vs)) \<le> Suc k"
  have dep: "v \<in> set vs \<Longrightarrow> Suc d + jdepth v \<le> max_depth" for v
    using a(2) le_fold_max(1) [of "jdepth v" "map jdepth vs" 0] by force
  show "parse_value (Suc k) d (json_print (JArr vs) @ rest) = Some (JArr vs, rest)"
  proof (cases "vs = []")
    case False
    have "parse_elems k (Suc d) (sep_by '','' (map json_print vs) @ CHR '']'' # rest) = Some (vs, rest)"
      using assms dep a False by (intro parse_elems_print) (auto simp: list_all_iff)
    then show ?thesis using a(2) print_sep_hd [OF False] a(1) by auto
  qed (use a in simp)
qed

lemma reads_back_object:
  assumes "\<And>n v. (n, v) \<in> set ms \<Longrightarrow> reads_back v"
  shows "reads_back (JObj ms)"
proof (rule reads_backI)
  fix k d and rest :: string
  assume a: "wf_json (JObj ms)" "d + jdepth (JObj ms) \<le> max_depth" "length (json_print (JObj ms)) \<le> Suc k"
  have dep: "(n, v) \<in> set ms \<Longrightarrow> Suc d + jdepth v \<le> max_depth" for n v
    using a(2) le_fold_max(1) [of "jdepth v" "map (\<lambda>(k, v). jdepth v) ms" 0] by force
  show "parse_value (Suc k) d (json_print (JObj ms) @ rest) = Some (JObj ms, rest)"
  proof (cases "ms = []")
    case False
    have "parse_members k (Suc d) (sep_by '','' (map member_text ms) @ CHR ''}'' # rest) = Some (ms, rest)"
      using assms dep a False by (intro parse_members_print) (auto simp: list_all_iff)
    then show ?thesis using a(2) member_sep_hd [OF False] by auto
  qed (use a in simp)
qed

lemma print_reads_back: "reads_back v"
proof (induction v)
  case JNull
  show ?case by (rule reads_backI) (simp only: json_print.simps parse_literals)
next
  case (JBool b)
  show ?case by (rule reads_backI, cases b) (simp_all only: json_print.simps parse_literals if_True if_False)
next
  case (JNum t)
  show ?case by (rule reads_backI) (simp only: json_print.simps wf_json.simps parse_number)
next
  case (JStr t)
  show ?case by (rule reads_backI) (simp add: scan_token)
next
  case (JArr vs)
  then show ?case by (rule reads_back_array)
next
  case (JObj ms)
  then show ?case by (intro reads_back_object) auto
qed

lemma json_parse_print: "wf_json v \<Longrightarrow> jdepth v \<le> max_depth \<Longrightarrow> json_parse (json_print v) = Some v"
  using reads_backD [OF print_reads_back, of v 0 "Suc (2 * length (json_print v))" "[]"]
  by (simp add: json_parse_def skip_ws_def)

end
