(* ===== verification/JsonParsed.thy ===== *)
theory JsonParsed
  imports JsonText
begin

text \<open>
  What the scanner accepts is well formed: every document it returns has complete tokens and
  stays within the depth limit, so printing it gives a canonical text that is read back as the
  same document; and every string decoded from a token is well-formed UTF-8, whatever bytes
  the sender put in it.
\<close>

section \<open>Tokens and documents\<close>

lemma token_simps:
  "token_ok []"
  "of_char c \<ge> (32 :: nat) \<Longrightarrow> c \<noteq> dquote \<Longrightarrow> c \<noteq> bslash \<Longrightarrow> token_ok (c # t) \<longleftrightarrow> token_ok t"
  "d \<in> set escapes \<Longrightarrow> token_ok (bslash # d # t) \<longleftrightarrow> token_ok t"
  "is_hex h1 \<Longrightarrow> is_hex h2 \<Longrightarrow> is_hex h3 \<Longrightarrow> is_hex h4 \<Longrightarrow>
     token_ok (bslash # CHR ''u'' # h1 # h2 # h3 # h4 # t) \<longleftrightarrow> token_ok t"
  by (auto simp: token_ok_def escapes_def)

lemma scan_token_ok: "scan_string s = Some (t, r) \<Longrightarrow> token_ok t"
proof (induction s arbitrary: t rule: measure_induct_rule [of length])
  case (less s)
  obtain c cs where s: "s = c # cs" using less.prems by (cases s) auto
  consider (q) "c = dquote" | (esc) d ds where "c = bslash" "cs = d # ds" "d \<noteq> CHR ''u''"
    | (hex) h1 h2 h3 h4 x where "c = bslash" "cs = CHR ''u'' # h1 # h2 # h3 # h4 # x"
    | (plain) "c \<noteq> dquote" "c \<noteq> bslash" "\<not> of_char c < (32 :: nat)"
    using less.prems s by (auto split: list.splits if_splits)
  then show ?case
  proof cases
    case q
    with less.prems s show ?thesis by (simp add: token_simps)
  next
    case esc
    with less.prems s obtain t' where "d \<in> set escapes" "scan_string ds = Some (t', r)" "t = bslash # d # t'"
      by (auto split: if_splits)
    with less.IH [of ds t'] esc s show ?thesis by (simp add: token_simps)
  next
    case hex
    with less.prems s obtain t' where "is_hex h1" "is_hex h2" "is_hex h3" "is_hex h4" "scan_string x = Some (t', r)"
      "t = bslash # CHR ''u'' # h1 # h2 # h3 # h4 # t'" by (auto split: if_splits)
    with less.IH [of x t'] hex s show ?thesis by (simp add: token_simps)
  next
    case plain
    with less.prems s obtain t' where "scan_string cs = Some (t', r)" "t = c # t'" by auto
    with less.IH [of cs t'] plain s show ?thesis by (simp add: token_simps)
  qed
qed

lemma takeWhile_all: "list_all P (takeWhile P s)"
  by (auto simp: list_all_iff dest: set_takeWhileD)

lemma jdepth_containers:
  "list_all (\<lambda>v. Suc d + jdepth v \<le> n) vs \<Longrightarrow> d < n \<Longrightarrow> d + jdepth (JArr vs) \<le> n"
  "list_all (\<lambda>(k, v). Suc d + jdepth v \<le> n) ms \<Longrightarrow> d < n \<Longrightarrow> d + jdepth (JObj ms) \<le> n"
proof -
  have m: "list_all (\<lambda>x. Suc d + x \<le> n) xs \<Longrightarrow> d < n \<Longrightarrow> d + Suc (fold max xs 0) \<le> n" for xs
  proof -
    assume "list_all (\<lambda>x. Suc d + x \<le> n) xs" "d < n"
    then have "fold max xs 0 \<le> n - Suc d" unfolding fold_max_le by (auto simp: list_all_iff)
    with \<open>d < n\<close> show ?thesis by simp
  qed
  show "list_all (\<lambda>v. Suc d + jdepth v \<le> n) vs \<Longrightarrow> d < n \<Longrightarrow> d + jdepth (JArr vs) \<le> n"
    using m [of "map jdepth vs"] by (simp add: list_all_iff)
  show "list_all (\<lambda>(k, v). Suc d + jdepth v \<le> n) ms \<Longrightarrow> d < n \<Longrightarrow> d + jdepth (JObj ms) \<le> n"
    using m [of "map (\<lambda>(k, v). jdepth v) ms"] by (simp add: list_all_iff case_prod_beta)
qed

lemma parsed_wf:
  "parse_value k d s = Some (v, r) \<Longrightarrow> d \<le> max_depth \<Longrightarrow> wf_json v \<and> d + jdepth v \<le> max_depth"
  "parse_elems k d s = Some (vs, r) \<Longrightarrow> d \<le> max_depth \<Longrightarrow>
     list_all wf_json vs \<and> list_all (\<lambda>v. d + jdepth v \<le> max_depth) vs"
  "parse_members k d s = Some (ms, r) \<Longrightarrow> d \<le> max_depth \<Longrightarrow>
     list_all (\<lambda>(n, v). token_ok n \<and> wf_json v) ms \<and> list_all (\<lambda>(n, v). d + jdepth v \<le> max_depth) ms"
proof (induction k d s and k d s and k d s arbitrary: v r and vs r and ms r
    rule: parse_value_parse_elems_parse_members.induct)
  case (2 k d s)
  obtain c cs where s: "skip_ws s = c # cs" using "2.prems"(1) by (auto split: list.splits)
  note p = "2.prems"(1) [unfolded parse_value.simps s list.case]
  consider (obj) "c = CHR ''{''" | (arr) "c = CHR ''[''" | (str) "c = dquote" | (num) "num_char c" "c \<noteq> CHR ''{''" "c \<noteq> CHR ''[''" "c \<noteq> dquote"
    | (lit) "v \<in> {JNull, JBool True, JBool False}"
    using p by (auto split: if_splits option.splits)
  then show ?case
  proof cases
    case obj
    then have d: "d < max_depth" using p by (auto split: if_splits)
    show ?thesis
    proof (cases "v = JObj []")
      case True
      with d show ?thesis by simp
    next
      case False
      then obtain ms where ms: "parse_members k (Suc d) cs = Some (ms, r)" "v = JObj ms"
        using p obj d by (auto split: if_splits)
      have "\<not> (skip_ws cs \<noteq> [] \<and> hd (skip_ws cs) = CHR ''}'')" using p obj d False by (auto split: if_splits)
      then show ?thesis using "2.IH"(1) [OF s obj, of ms r] ms d jdepth_containers(2) [of d max_depth ms] by auto
    qed
  next
    case arr
    then have d: "d < max_depth" using p by (auto split: if_splits)
    show ?thesis
    proof (cases "v = JArr []")
      case True
      with d show ?thesis by simp
    next
      case False
      then obtain vs where vs: "parse_elems k (Suc d) cs = Some (vs, r)" "v = JArr vs"
        using p arr d by (auto split: if_splits)
      have "\<not> (skip_ws cs \<noteq> [] \<and> hd (skip_ws cs) = CHR '']'')" using p arr d False by (auto split: if_splits)
      then show ?thesis using "2.IH"(2) [OF s _ arr, of vs r] vs d arr jdepth_containers(1) [of d max_depth vs] by auto
    qed
  next
    case str
    with p "2.prems"(2) show ?thesis by (auto dest: scan_token_ok)
  next
    case num
    with p "2.prems"(2) show ?thesis using takeWhile_all [of num_char "c # cs"] by (auto simp: Let_def split: if_splits)
  next
    case lit
    with "2.prems"(2) show ?thesis by auto
  qed
next
  case (4 k d s)
  from "4.prems"(1) obtain w r1 where w: "parse_value k d s = Some (w, r1)" by (auto split: option.splits)
  then show ?case using 4 by (auto split: option.splits list.splits if_splits)
next
  case (6 k d s)
  then show ?case 
    by (auto split: option.splits list.splits if_splits) (rule scan_token_ok, assumption)+
qed simp_all

lemma json_parse_wf: "json_parse s = Some v \<Longrightarrow> wf_json v \<and> jdepth v \<le> max_depth"
  using parsed_wf(1) [of "Suc (2 * length s)" 0 s] by (auto simp: json_parse_def split: option.splits if_splits)

lemma json_canonical: "json_parse s = Some v \<Longrightarrow> json_parse (json_print v) = Some v"
  using json_parse_wf json_parse_print by blast

section \<open>Decoded strings are UTF-8\<close>

lemma utf8_valid_append: "utf8_seq (map of_char u) \<Longrightarrow> utf8_valid x \<Longrightarrow> utf8_valid (u @ x)"
proof -
  assume u: "utf8_seq (map of_char u)" and x: "utf8_valid x"
  have "u \<noteq> []" using u by (auto simp: utf8_seq_def)
  then show ?thesis using utf8_len_seq [OF u, of x] x by (simp add: utf8_valid.simps [of "u @ x"])
qed

lemma utf8_enc_seq:
  assumes "n < 1114112" "\<not> high_surr n" "\<not> low_surr n"
  shows "utf8_seq (map of_char (utf8_enc n))"
proof -
  consider "n < 128" | "128 \<le> n" "n < 2048" | "2048 \<le> n" "n < 65536" | "65536 \<le> n" by linarith
  then show ?thesis
  proof cases
    case 1
    then show ?thesis by (simp add: utf8_enc_def utf8_seq_def)
  next
    case 2
    have "2 \<le> n div 64" "n div 64 < 32" "n mod 64 < 64" using 2 by simp_all
    then show ?thesis using 2 by (simp add: utf8_enc_def utf8_seq_def cont_def)
  next
    case 3
    have "n div 64 div 64 = n div 4096" by (simp add: div_mult2_eq [symmetric])
    then have "n = n div 4096 * 4096 + n div 64 mod 64 * 64 + n mod 64"
      using div_mult_mod_eq [of "n div 64" 64] div_mult_mod_eq [of n 64] by linarith
    moreover have "n div 4096 < 16" "n div 64 mod 64 < 64" "n mod 64 < 64" using 3 by simp_all
    ultimately show ?thesis using 3 assms(2,3)
      by (simp add: utf8_enc_def utf8_seq_def cont_def high_surr_def low_surr_def) linarith
  next
    case 4
    have "n div 4096 div 64 = n div 262144" by (simp add: div_mult2_eq [symmetric])
    then have "n = n div 262144 * 262144 + n div 4096 mod 64 * 4096 + n mod 4096"
      using div_mult_mod_eq [of "n div 4096" 64] div_mult_mod_eq [of n 4096] by linarith
    moreover have "n div 262144 < 5" "n div 4096 mod 64 < 64" "n mod 4096 < 4096" "n div 64 mod 64 < 64" "n mod 64 < 64"
      using assms(1) by simp_all
    ultimately show ?thesis using 4 assms(1)
      by (simp add: utf8_enc_def utf8_seq_def cont_def) linarith
  qed
qed

lemma digit_in_less: "digit_in 16 c = Some d \<Longrightarrow> d < 16"
  using digit_val_less [of c]
  by (auto simp: digit_in_def Let_def less_eq_char_def split: if_splits)

lemma hex4_less: "hex4 s < 65536"
proof -
  have "foldl (\<lambda>a c. 16 * a + (case digit_in 16 c of None \<Rightarrow> 0 | Some d \<Rightarrow> d)) a s < (a + 1) * 16 ^ length s" for a s
  proof (induction s arbitrary: a)
    case (Cons c s)
    let ?a = "16 * a + (case digit_in 16 c of None \<Rightarrow> 0 | Some d \<Rightarrow> d)"
    have "?a + 1 \<le> (a + 1) * 16" using digit_in_less [of c] by (auto split: option.split)
    then have "(?a + 1) * 16 ^ length s \<le> (a + 1) * 16 * 16 ^ length s" by (rule mult_right_mono) simp
    with Cons [of ?a] have "foldl (\<lambda>a c. 16 * a + (case digit_in 16 c of None \<Rightarrow> 0 | Some d \<Rightarrow> d)) ?a s < (a + 1) * 16 * 16 ^ length s"
      by (rule less_le_trans)
    then show ?case unfolding foldl_Cons length_Cons power_Suc mult.assoc [symmetric] .
  qed simp
  from this [of 0 "take 4 s"] have "hex4 s < 16 ^ length (take 4 s)" by (simp add: hex4_def)
  also have "\<dots> \<le> 16 ^ 4" by (rule power_increasing) simp_all
  finally show ?thesis by simp
qed

lemma high_ge: "\<not> of_char c < (128 :: nat) \<Longrightarrow> (32 :: nat) \<le> of_char c \<and> c \<noteq> dquote \<and> c \<noteq> bslash"
  by auto

text \<open>Taking a token apart the way the decoder does.\<close>

lemma token_escape:
  assumes "token_ok (bslash # d # t)" "d \<noteq> CHR ''u''"
  shows "d \<in> set escapes" "token_ok t"
  using assms by (auto simp: token_ok_def split: if_splits)

lemma token_hex:
  assumes "token_ok (bslash # CHR ''u'' # t)"
  shows "4 \<le> length t \<and> token_ok (drop 4 t)"
proof -
  obtain h1 h2 h3 h4 x where t: "t @ [dquote] = h1 # h2 # h3 # h4 # x" and h: "is_hex h1" "is_hex h2" "is_hex h3" "is_hex h4"
    and s: "scan_string x = Some (drop 4 t, [])" "4 \<le> length t"
    using assms by (auto simp: token_ok_def split: list.splits if_splits)
  have "drop 4 (t @ [dquote]) = x" unfolding t by simp
  with s have "x = drop 4 t @ [dquote]" by simp
  with s show ?thesis by (simp add: token_ok_def)
qed

lemma token_high: "token_ok (u @ t) \<Longrightarrow> list_all (\<lambda>c. 128 \<le> (of_char c :: nat)) u \<Longrightarrow> token_ok t"
  using scan_high [of u "t @ [dquote]"] by (auto simp: token_ok_def)

lemma token_utf8: "token_ok (u @ t) \<Longrightarrow> utf8_seq (map of_char u) \<Longrightarrow> hd u \<noteq> bslash \<Longrightarrow> token_ok t"
proof -
  assume a: "token_ok (u @ t)" "utf8_seq (map of_char u)" "hd u \<noteq> bslash"
  show ?thesis
  proof (cases "length u = 1")
    case True
    then obtain c where u: "u = [c]" by (cases u) auto
    then have "c \<noteq> dquote" "32 \<le> (of_char c :: nat)" using a by (auto simp: token_ok_def split: if_splits)
    then show ?thesis using a u token_simps(2) [of c t] by simp
  next
    case False
    then have "1 < length u" using a(2) by (cases u) (auto simp: utf8_seq_def)
    then have "list_all (\<lambda>b. 128 \<le> b) (map (of_char :: char \<Rightarrow> nat) u)" using utf8_seq_high [OF a(2)] by simp
    then show ?thesis using token_high [OF a(1)] by (simp add: list.pred_map o_def)
  qed
qed

lemma not_token: "\<not> token_ok [bslash]"
  by code_simp

lemma simple_escape_ascii: "d \<in> set escapes \<Longrightarrow> utf8_seq [of_char (simple_escape d)]"
proof -
  have "list_all (\<lambda>d. utf8_seq [of_char (simple_escape d)]) escapes" by code_simp
  then show "d \<in> set escapes \<Longrightarrow> utf8_seq [of_char (simple_escape d)]" by (simp add: list_all_iff)
qed

text \<open>A backslash and \<open>u\<close>: one character, a surrogate pair, or the replacement of half a pair.\<close>

lemma unquote_hex_valid:
  assumes "token_ok (bslash # CHR ''u'' # t)"
    and IH: "\<And>x. length x < length t \<Longrightarrow> token_ok x \<Longrightarrow> utf8_valid (unquote x)"
  shows "utf8_valid (unquote (bslash # CHR ''u'' # t))"
proof -
  let ?n = "hex4 t" and ?r = "drop 4 t" let ?m = "hex4 (drop 2 ?r)"
  have r: "utf8_valid (unquote ?r)" using token_hex [OF assms(1)] by (intro IH) auto
  have rep: "utf8_seq (map of_char (utf8_enc replacement))"
    by (rule utf8_enc_seq) (simp_all add: replacement_def high_surr_def low_surr_def)
  consider (pair) "high_surr ?n" "take 2 ?r = [bslash, CHR ''u'']" "low_surr ?m"
    | (half) "high_surr ?n \<or> low_surr ?n" "\<not> (high_surr ?n \<and> take 2 ?r = [bslash, CHR ''u''] \<and> low_surr ?m)"
    | (one) "\<not> high_surr ?n" "\<not> low_surr ?n" by blast
  then show ?thesis
  proof cases
    case pair
    obtain x where x: "?r = bslash # CHR ''u'' # x" using pair(2) by (metis append_Cons append_Nil append_take_drop_id)
    have "token_ok (drop 4 x)" using token_hex [OF assms(1)] token_hex [of x] x by simp
    moreover have "length (drop 4 x) < length t" using arg_cong [OF x, of length] by simp
    ultimately have "utf8_valid (unquote (drop 6 ?r))" using IH [of "drop 4 x"] x by (simp only: ) (simp add: x)
    moreover have "utf8_seq (map of_char (utf8_enc (65536 + (?n - 55296) * 1024 + (?m - 56320))))"
      using pair(1,3) by (intro utf8_enc_seq) (auto simp: high_surr_def low_surr_def)
    ultimately show ?thesis using pair
      by (simp add: unquote.simps [of "bslash # CHR ''u'' # t"] Let_def utf8_valid_append)
  next
    case half
    then show ?thesis using r rep
      by (auto simp: unquote.simps [of "bslash # CHR ''u'' # t"] Let_def utf8_valid_append)
  next
    case one
    have "utf8_seq (map of_char (utf8_enc ?n))" using one hex4_less [of t] by (intro utf8_enc_seq) simp_all
    then show ?thesis using one r
      by (simp add: unquote.simps [of "bslash # CHR ''u'' # t"] Let_def utf8_valid_append)
  qed
qed

lemma unquote_valid: "token_ok s \<Longrightarrow> utf8_valid (unquote s)"
proof (induction s rule: measure_induct_rule [of length])
  case (less s)
  have rep: "utf8_seq (map of_char (utf8_enc replacement))"
    by (rule utf8_enc_seq) (simp_all add: replacement_def high_surr_def low_surr_def)
  consider (nil) "s = []" | (esc) d t where "s = bslash # d # t" | (plain) c t where "s = c # t" "c \<noteq> bslash"
    using less.prems not_token by (cases s; cases "tl s") auto
  then show ?case
  proof cases
    case nil
    then show ?thesis by (simp add: utf8_valid.simps)
  next
    case esc
    show ?thesis
    proof (cases "d = CHR ''u''")
      case True
      with esc less show ?thesis by (auto intro: unquote_hex_valid)
    next
      case False
      note tk = token_escape [OF less.prems [unfolded esc] False]
      have "utf8_valid (unquote t)" using less.IH [of t] esc tk(2) by simp
      then show ?thesis using utf8_valid_append [of "[simple_escape d]" "unquote t"] simple_escape_ascii [OF tk(1)]
        by (simp add: esc unquote_escape [OF False])
    qed
  next
    case plain
    show ?thesis
    proof (cases "utf8_len s = 0")
      case True
      have "\<not> of_char c < (128 :: nat)" using True utf8_len_seq [of "[c]" t] plain by (auto simp: utf8_seq_def)
      then have "token_ok t" using less.prems plain token_simps(2) [of c t] high_ge [of c] by simp
      then have "utf8_valid (unquote t)" using less.IH [of t] plain by simp
      moreover have "unquote (c # t) = utf8_enc replacement @ unquote t"
        using True plain by (simp add: unquote.simps [of "c # t"])
      ultimately show ?thesis using plain rep by (simp add: utf8_valid_append)
    next
      case False
      let ?u = "take (utf8_len s) s"
      note sq = utf8_seq_take [OF False]
      have u: "?u \<noteq> []" "hd ?u \<noteq> bslash" using False plain by (auto simp: take_Cons')
      have "token_ok (drop (utf8_len s) s)" using token_utf8 [of ?u "drop (utf8_len s) s"] less.prems sq u by simp
      then have "utf8_valid (unquote (drop (utf8_len s) s))" using less.IH False plain by simp
      then show ?thesis using sq u unquote_seq [of ?u "drop (utf8_len s) s"] utf8_valid_append [of ?u] by simp
    qed
  qed
qed

end
