(* ===== verification/TimeText.thy ===== *)
theory TimeText
  imports GoTime Digits
begin

text \<open>
  Instants survive the trip through text: what \<open>format_time\<close> writes for a year between 0 and
  9999, \<open>parse_time\<close> reads back to the nanosecond. The calendar part shows that the conversion
  of a day count to year, month and day is inverted by the conversion back: the 400 years of an
  era and the 366 days of a year are checked one by one, and monotonicity covers the days
  between two year starts.
\<close>

section \<open>The calendar\<close>

definition year_scale :: "int \<Rightarrow> int" where
  "year_scale n = n - n div 1460 + n div 36524 - n div 146096"

lemma year_table:
  "list_all (\<lambda>y. 365 * y \<le> year_scale (year_days y) \<and> year_scale (year_days (y + 1) - 1) < 365 * (y + 1) \<and>
     year_days (y + 1) - year_days y \<le> (if leap (y + 1) then 366 else 365)) [0..399]"
  by code_simp

lemma year_table_at:
  assumes "0 \<le> y" "y < 400"
  shows "365 * y \<le> year_scale (year_days y)" "year_scale (year_days (y + 1) - 1) < 365 * (y + 1)"
    "year_days (y + 1) - year_days y \<le> (if leap (y + 1) then 366 else 365)"
  using year_table assms by (simp_all add: list_all_iff)

lemma div_shift_le: "0 < m \<Longrightarrow> 0 \<le> k \<Longrightarrow> (a + k) div m \<le> a div m + k" for a k m :: int
proof -
  assume m: "0 < m" "0 \<le> k"
  then have "a + k \<le> a + k * m" using mult_left_mono [of 1 m k] by simp
  then have "(a + k) div m \<le> (a + k * m) div m" using m(1) by (rule zdiv_mono1)
  then show ?thesis using m(1) by simp
qed

lemma year_scale_mono:
  assumes "0 \<le> a" "a \<le> b" "b < 146097"
  shows "year_scale a \<le> year_scale b"
proof -
  have "b div 1460 \<le> a div 1460 + (b - a)" using div_shift_le [of 1460 "b - a" a] assms(2) by simp
  moreover have "a div 36524 - a div 146096 \<le> b div 36524 - b div 146096"
  proof (cases "b = 146096")
    case True
    have "a div 36524 \<le> (if a = b then 4 else 3)" using True assms zdiv_mono1 [of a 146095 36524] by simp
    with True assms show ?thesis by simp
  next
    case False
    then have "a div 146096 = 0" "b div 146096 = 0" using assms by simp_all
    then show ?thesis using assms zdiv_mono1 [of a b 36524] by simp
  qed
  ultimately show ?thesis by (simp add: year_scale_def)
qed

lemma year_days_mono: "a \<le> b \<Longrightarrow> year_days a \<le> year_days b"
proof -
  assume "a \<le> b"
  moreover have "b div 100 \<le> a div 100 + (b - a)" using div_shift_le [of 100 "b - a" a] \<open>a \<le> b\<close> by simp
  ultimately show ?thesis
    using zdiv_mono1 [of a b 4] zdiv_mono1 [of a b 400] unfolding year_days_def by simp
qed

text \<open>The year of a day within an era.\<close>

lemma year_found:
  assumes "0 \<le> n" "n < 146097"
  defines "y \<equiv> year_scale n div 365"
  shows "0 \<le> y" "y < 400" "year_days y \<le> n" "n < year_days (y + 1)"
proof -
  have ends: "year_days 0 = 0" "year_days 400 = 146097" by (simp_all add: year_days_def)
  have "year_scale 0 \<le> year_scale n" "year_scale n \<le> year_scale 146096"
    using assms by (auto intro: year_scale_mono)
  then have r: "0 \<le> year_scale n" "year_scale n < 146000" by (simp_all add: year_scale_def)
  then show y: "0 \<le> y" "y < 400" by (simp_all add: y_def)
  show "year_days y \<le> n"
  proof (rule ccontr)
    assume "\<not> ?thesis"
    moreover from this have "0 < y" using assms(1) ends(1) y(1) by (cases "y = 0") auto
    moreover have "year_days y \<le> 146097" using year_days_mono [of y 400] y(2) ends by simp
    ultimately have "year_scale n \<le> year_scale (year_days y - 1)" using assms(1) by (intro year_scale_mono) auto
    then have "year_scale n < 365 * y" using year_table_at(2) [of "y - 1"] \<open>0 < y\<close> y(2) by simp
    then show False unfolding y_def by simp
  qed
  show "n < year_days (y + 1)"
  proof (rule ccontr)
    assume a: "\<not> ?thesis"
    then have "y + 1 < 400" using assms(2) ends(2) y(2) by (cases "y + 1 = 400") auto
    moreover have "0 \<le> year_days (y + 1)" using year_days_mono [of 0 "y + 1"] y(1) ends by simp
    ultimately have "365 * (y + 1) \<le> year_scale n"
      using year_table_at(1) [of "y + 1"] year_scale_mono [of "year_days (y + 1)" n] a y assms(2) by simp
    then show False unfolding y_def by simp
  qed
qed

text \<open>The month and day of a day within a year that starts in March.\<close>

definition month_of :: "int \<Rightarrow> int" where
  "month_of n = (let mp = (5 * n + 2) div 153 in if mp < 10 then mp + 3 else mp - 9)"

definition day_of :: "int \<Rightarrow> int" where
  "day_of n = n - month_days ((5 * n + 2) div 153) + 1"

lemma month_table:
  "list_all (\<lambda>n. let m = month_of n; d = day_of n in 1 \<le> m \<and> m \<le> 12 \<and> 1 \<le> d \<and>
     month_days (if 2 < m then m - 3 else m + 9) + d - 1 = n \<and>
     d \<le> days_in 0 m \<and> (m = 2 \<and> d = 29 \<longrightarrow> n = 365) \<and> (n = 365 \<longrightarrow> m = 2)) [0..365]"
  by code_simp

lemma month_table_at:
  assumes "0 \<le> n" "n \<le> 365"
  shows "1 \<le> month_of n" "month_of n \<le> 12" "1 \<le> day_of n"
    "month_days (if 2 < month_of n then month_of n - 3 else month_of n + 9) + day_of n - 1 = n"
    "day_of n \<le> days_in 0 (month_of n)" "month_of n = 2 \<and> day_of n = 29 \<longrightarrow> n = 365"
    "n = 365 \<longrightarrow> month_of n = 2"
  using month_table assms by (simp_all add: list_all_iff Let_def)

lemma leap_era: "leap (y + e * 400) = leap y"
proof -
  have "(y + e * 100 * 4) mod 4 = y mod 4" "(y + e * 4 * 100) mod 100 = y mod 100" "(y + e * 400) mod 400 = y mod 400"
    by (simp_all only: mod_mult_self1)
  then show ?thesis by (simp add: leap_def mult.commute [of e])
qed

lemma year_days_era: "year_days (y + e * 400) = year_days y + e * 146097"
proof -
  have "(y + e * 100 * 4) div 4 = e * 100 + y div 4" "(y + e * 4 * 100) div 100 = e * 4 + y div 100"
    "(y + e * 400) div 400 = e + y div 400" by (rule div_mult_self1, simp)+
  then show ?thesis by (simp add: year_days_def mult.commute [of e])
qed

lemma civil_round:
  assumes "civil_from_days z = (y, m, d)"
  shows "days_from_civil y m d = z" "1 \<le> m" "m \<le> 12" "1 \<le> d" "d \<le> days_in y m"
proof -
  define era where "era = (z + 719468) div 146097"
  define doe where "doe = (z + 719468) mod 146097"
  define yoe where "yoe = year_scale doe div 365"
  define doy where "doy = doe - year_days yoe"
  have z: "z = doe + era * 146097 - 719468" unfolding era_def doe_def by (simp add: algebra_simps)
  have "0 \<le> doe" "doe < 146097" by (simp_all add: doe_def)
  note yr = year_found [OF this, folded yoe_def]
  have len: "year_days (yoe + 1) - year_days yoe \<le> (if leap (yoe + 1) then 366 else 365)"
    using year_table_at(3) yr by blast
  have n: "0 \<le> doy" "doy \<le> 365" using yr len by (auto simp: doy_def split: if_splits)
  note mt = month_table_at [OF n]
  have "yoe div 400 = 0" using yr by simp
  then have "year_days yoe = 365 * yoe + yoe div 4 - yoe div 100" by (simp add: year_days_def)
  then have c: "civil_from_days z = (yoe + era * 400 + (if month_of doy \<le> 2 then 1 else 0), month_of doy, day_of doy)"
    by (simp only: civil_from_days_def month_of_def day_of_def Let_def doy_def
        flip: era_def doe_def year_scale_def yoe_def)
  then have e: "m = month_of doy" "d = day_of doy" "y = yoe + era * 400 + (if m \<le> 2 then 1 else 0)"
    using assms by simp_all
  show "1 \<le> m" "m \<le> 12" "1 \<le> d" using mt(1-3) e(1,2) by simp_all
  have "days_from_civil y m d = year_days (yoe + era * 400) + doy - 719468"
    using mt(4) unfolding e(1,2) [symmetric]
    by (auto simp: days_from_civil_def Let_def e(3))
  then show "days_from_civil y m d = z" using z unfolding year_days_era doy_def by simp
  show "d \<le> days_in y m"
  proof (cases "m = 2 \<and> d = 29")
    case True
    then have "doy = 365" using mt(6) e by simp
    then have "leap (yoe + 1)" using yr(4) len by (simp add: doy_def split: if_splits)
    moreover have "y = yoe + 1 + era * 400" using True e(3) by simp
    ultimately have "leap y" using leap_era [of "yoe + 1" era] by simp
    with True show ?thesis by (simp add: days_in_def)
  next
    case False
    with mt(5) e show ?thesis by (auto simp: days_in_def leap_def split: if_splits)
  qed
qed

section \<open>Fields of fixed width\<close>

lemma pad_props:
  assumes "n < 10 ^ w" "0 < w"
  shows "length (pad w n) = w" "list_all is_digit (pad w n)" "digits_val (pad w n) = n"
  using nat_digits_length [OF assms] nat_digits_digit [of n] by (simp_all add: pad_def Let_def)

lemma take_num_pad: "n < 10 ^ w \<Longrightarrow> 0 < w \<Longrightarrow> take_num w (pad w n @ rest) = Some (int n, rest)"
  using pad_props [of n w] by (simp add: take_num_def)

lemma take_hour_pad: "n < 100 \<Longrightarrow> take_hour (pad 2 n @ rest) = Some (int n, rest)"
  using take_num_pad [of n 2 rest] by (simp add: take_hour_def)

lemma take_lit_Cons [simp]: "take_lit c (c # s) = Some s"
  by (simp add: take_lit_def)

section \<open>The fraction\<close>

lemma strip_trailing_zeros: "\<exists>k. s = strip_trailing s @ replicate k CHR ''0''"
proof -
  have "rev s = takeWhile (\<lambda>c. c = CHR ''0'') (rev s) @ dropWhile (\<lambda>c. c = CHR ''0'') (rev s)" by simp
  moreover have "takeWhile (\<lambda>c. c = CHR ''0'') (rev s) = replicate (length (takeWhile (\<lambda>c. c = CHR ''0'') (rev s))) CHR ''0''"
    by (rule replicate_eqI [symmetric, where n = "length (takeWhile (\<lambda>c. c = CHR ''0'') (rev s))", THEN sym])
      (auto dest: set_takeWhileD)
  ultimately have "s = rev (dropWhile (\<lambda>c. c = CHR ''0'') (rev s)) @
      rev (replicate (length (takeWhile (\<lambda>c. c = CHR ''0'') (rev s))) CHR ''0'')"
    by (metis rev_append rev_rev_ident)
  then show ?thesis unfolding strip_trailing_def rev_replicate by blast
qed

lemma take_frac_text:
  assumes "ns < 10 ^ 9"
  shows "take_frac (frac_text ns @ ''Z'') = (int ns, ''Z'')"
proof (cases "ns = 0")
  case True
  then show ?thesis by (simp add: frac_text_def take_frac_def)
next
  case False
  let ?t = "strip_trailing (pad 9 ns)"
  note pp = pad_props [OF assms, simplified]
  obtain k where k: "pad 9 ns = ?t @ replicate k CHR ''0''" using strip_trailing_zeros by blast
  have dig: "list_all is_digit ?t" using pp(2) k by (metis list_all_append)
  have len: "length ?t + k = 9" using pp(1) arg_cong [OF k, of length] by simp
  have val: "digits_val ?t * 10 ^ k = ns" using pp(3) arg_cong [OF k, of digits_val] by simp
  have ne: "?t \<noteq> []" using val False by auto
  then obtain c cs where t: "?t = c # cs" by (cases ?t) auto
  have z: "\<not> is_digit CHR ''Z''" by (simp add: is_digit_def less_eq_char_def)
  have tw: "takeWhile is_digit (?t @ ''Z'') = ?t" "dropWhile is_digit (?t @ ''Z'') = ''Z''"
    using dig z by (simp_all add: takeWhile_append dropWhile_append list_all_iff takeWhile_eq_all_conv)
  have "9 - length ?t = k" "take 9 ?t = ?t" using len by simp_all
  then have "int (digits_val (take 9 ?t) * 10 ^ (9 - length (take 9 ?t))) = int ns" using val by simp
  moreover have "2 \<le> length (''.'' @ ?t @ ''Z'')" "is_digit ((''.'' @ ?t @ ''Z'') ! 1)" using t dig by simp_all
  ultimately show ?thesis using False tw by (simp add: frac_text_def take_frac_def Let_def)
qed

section \<open>The round trip\<close>

lemma parse_date_text:
  assumes "civil_from_days z = (y, m, d)" "0 \<le> y" "y \<le> 9999"
  shows "parse_date (pad 4 (nat y) @ ''-'' @ pad 2 (nat m) @ ''-'' @ pad 2 (nat d) @ rest) = Some (z, rest)"
proof -
  note cv = civil_round [OF assms(1)]
  have d: "d \<le> 31" using cv(5) by (auto simp: days_in_def split: if_splits)
  have "take_num 4 (pad 4 (nat y) @ t) = Some (y, t)" for t using take_num_pad [of "nat y" 4 t] assms by simp
  moreover have "take_num 2 (pad 2 (nat m) @ t) = Some (m, t)" "take_num 2 (pad 2 (nat d) @ t) = Some (d, t)" for t
    using take_num_pad [of "nat m" 2 t] take_num_pad [of "nat d" 2 t] cv d by simp_all
  ultimately show ?thesis using cv by (simp add: parse_date_def)
qed

lemma parse_clock_text:
  assumes "s < 86400"
  shows "parse_clock (pad 2 (s div 3600) @ '':'' @ pad 2 (s div 60 mod 60) @ '':'' @ pad 2 (s mod 60) @ rest) =
    Some (int s, rest)"
proof -
  have "take_hour (pad 2 (s div 3600) @ t) = Some (int (s div 3600), t)" for t
    using take_hour_pad [of "s div 3600" t] assms by simp
  moreover have "take_num 2 (pad 2 (s div 60 mod 60) @ t) = Some (int (s div 60 mod 60), t)"
    "take_num 2 (pad 2 (s mod 60) @ t) = Some (int (s mod 60), t)" for t
    using take_num_pad [of "s div 60 mod 60" 2 t] take_num_pad [of "s mod 60" 2 t] by simp_all
  moreover have "s div 3600 < 24" "s div 60 mod 60 < 60" "s mod 60 < 60" using assms by simp_all
  moreover have "s = s div 3600 * 3600 + s div 60 mod 60 * 60 + s mod 60"
  proof -
    have "s div 60 div 60 = s div 3600" by (simp add: div_mult2_eq [symmetric])
    then show ?thesis using div_mult_mod_eq [of "s div 60" 60] div_mult_mod_eq [of s 60] by linarith
  qed
  ultimately show ?thesis by (simp add: parse_clock_def flip: of_nat_mult of_nat_add)
qed

lemma parse_format_time:
  assumes "format_time t = Some s"
  shows "parse_time s = Some t"
proof -
  let ?secs = "t div 1000000000" and ?ns = "t mod 1000000000"
  obtain y m d where c: "civil_from_days (?secs div 86400) = (y, m, d)" by (metis prod.collapse)
  let ?sod = "nat (?secs mod 86400)"
  have y: "0 \<le> y" "y \<le> 9999" and
    s: "s = pad 4 (nat y) @ ''-'' @ pad 2 (nat m) @ ''-'' @ pad 2 (nat d) @ ''T'' @
            pad 2 (?sod div 3600) @ '':'' @ pad 2 (?sod div 60 mod 60) @ '':'' @
            pad 2 (?sod mod 60) @ frac_text (nat ?ns) @ ''Z''"
    using assms c by (simp_all add: format_time_def Let_def split: if_splits)
  have "nat ?ns < 10 ^ 9" "?sod < 86400" by (simp_all add: nat_less_iff)
  note parts = parse_date_text [OF c y] parse_clock_text [OF this(2)] take_frac_text [OF this(1)]
  have z: "take_zone ''Z'' = Some 0" by (simp add: take_zone_def)
  have t: "(?secs div 86400 * 86400 + int ?sod) * 1000000000 + int (nat ?ns) = t"
    using div_mult_mod_eq [of ?secs 86400] div_mult_mod_eq [of t 1000000000] by simp
  have "parse_time s = Some ((?secs div 86400 * 86400 + int ?sod - 0) * 1000000000 + int (nat ?ns))"
    unfolding s parse_time_def parts by (simp add: parts parts(2) [unfolded append_Cons append_Nil] z)
  then show ?thesis using t by simp
qed

end
