(* ===== verification/WireText.thy ===== *)
theory WireText
  imports Wire JsonParsed TimeText
begin

text \<open>
  Round trips of the wire format. The contract of an encoder is the locale
  \<open>json_enc\<close>: what is encoded is a well-formed document of bounded depth. With a decoder it is
  \<open>json_codec\<close>: decoding gives the value back; its client lemmas read the printed text back and lift a codec to slices. The
  leaf types (strings, floats, integers, instants), market metadata, price levels, trade
  events and order books are its interpretations. Two values are not preserved, and the codecs'
  conditions exclude them: text that is not UTF-8, and a notional of minus zero, which
  \<open>omitempty\<close> drops.
\<close>

section \<open>The contract\<close>

text \<open>A member whose value, when it has an encoding, is a document of at most the given depth.\<close>

definition doc_member :: "nat \<Rightarrow> string \<times> json option \<Rightarrow> bool" where
  "doc_member n kv = (token_ok (fst kv) \<and> (case snd kv of None \<Rightarrow> True | Some w \<Rightarrow> wf_json w \<and> jdepth w \<le> n))"

locale json_enc =
  fixes enc :: "'a \<Rightarrow> json option" and depth :: nat
  assumes enc_wf: "enc x = Some j \<Longrightarrow> wf_json j"
    and enc_depth: "enc x = Some j \<Longrightarrow> jdepth j \<le> depth"
begin

lemma text_read: "depth \<le> max_depth \<Longrightarrow> enc x = Some j \<Longrightarrow> json_parse (json_print j) = Some j"
  by (intro json_parse_print enc_wf order.trans [OF enc_depth])

lemma doc_enc: "depth \<le> n \<Longrightarrow> doc_member n (k, enc x) = token_ok k"
  by (auto simp: doc_member_def enc_wf split: option.split intro: order.trans [OF enc_depth])

lemma array_enc:
  assumes "map_option JArr (enc_list enc xs) = Some j"
  shows "wf_json j" "jdepth j \<le> Suc depth"
proof -
  obtain js where js: "enc_list enc xs = Some js" "j = JArr js" using assms by auto
  from js(1) have "list_all wf_json js" "list_all (\<lambda>v. jdepth v \<le> depth) js"
    by (induction xs arbitrary: js) (auto split: option.splits simp: enc_wf enc_depth)
  then show "wf_json j" "jdepth j \<le> Suc depth" by (auto simp: js(2) fold_max_le list.pred_map o_def)
qed

end

locale json_codec = json_enc enc depth for enc :: "'a \<Rightarrow> json option" and depth :: nat +
  fixes dec :: "json \<Rightarrow> 'a option" and ok :: "'a \<Rightarrow> bool"
  assumes dec_enc: "enc x = Some j \<Longrightarrow> ok x \<Longrightarrow> dec j = Some x"
begin

lemma dec_list_enc: "enc_list enc xs = Some js \<Longrightarrow> list_all ok xs \<Longrightarrow> dec_list dec js = Some xs"
  by (induction xs arbitrary: js) (auto split: option.splits simp: dec_enc)

lemma slice_codec:
  "json_codec (enc_slice enc) (Suc depth) (dec_slice dec) (\<lambda>s. list_all ok (elems s))"
proof
  fix s j
  assume e: "enc_slice enc s = Some j"
  then show "wf_json j" "jdepth j \<le> Suc depth" "list_all ok (elems s) \<Longrightarrow> dec_slice dec j = Some s"
    using array_enc [of "elems s" j] dec_list_enc [of "elems s"]
    by (auto simp: enc_slice_def dec_slice_def elems_def split: option.splits)
qed

end

section \<open>Leaves\<close>

definition plain_char :: "char \<Rightarrow> bool" where
  "plain_char c = (32 \<le> (of_char c :: nat) \<and> (of_char c :: nat) < 128 \<and> c \<noteq> dquote \<and> c \<noteq> bslash)"

lemma plain_token: "list_all plain_char t \<Longrightarrow> token_ok t"
proof (induction t)
  case (Cons c t)
  then show ?case by (simp add: token_ok_def plain_char_def)
qed (simp add: token_ok_def)

lemma plain_unquote: "list_all plain_char t \<Longrightarrow> unquote t = t"
proof (induction t)
  case (Cons c t)
  then show ?case using unquote_seq [of "[c]" t] by (simp add: utf8_seq_def plain_char_def)
qed simp

lemma format_time_plain:
  assumes "format_time t = Some s"
  shows "list_all plain_char s"
proof -
  have d: "list_all is_digit u \<Longrightarrow> list_all plain_char u" for u
    by (auto simp: list_all_iff is_digit_code plain_char_def)
  have p: "list_all plain_char (pad w n)" for w n
    using nat_digits_digit [of n] by (intro d) (simp add: pad_def Let_def)
  have "list_all plain_char (strip_trailing u)" if "list_all plain_char u" for u
    using that strip_trailing_zeros [of u] by (metis list_all_append)
  then have "list_all plain_char (frac_text n)" for n
    using p [of 9 n] by (simp add: frac_text_def plain_char_def)
  with assms p show ?thesis
    by (auto simp: format_time_def Let_def plain_char_def split: if_splits prod.splits)
qed

interpretation string_codec: json_codec enc_string 0 "dec_string old" utf8_valid for old
  by unfold_locales (auto simp: enc_string_def dec_string_def unquote_quote)

interpretation float_codec: json_codec enc_float 0 "dec_float old" "\<lambda>_. True" for old
  by unfold_locales (auto simp: enc_float_def dec_float_def json_float_number ParseFloat_json_float)

interpretation int_codec: json_codec enc_int64 0 "dec_int64 old" "\<lambda>_. True" for old
  by unfold_locales (auto simp: enc_int64_def dec_int64_def FormatInt_number ParseInt_FormatInt)

interpretation time_codec: json_codec enc_time 0 "dec_time old" "\<lambda>_. True" for old
  by unfold_locales (auto simp: enc_time_def dec_time_def parse_format_time plain_token format_time_plain)

section \<open>Objects\<close>

lemma field_names_plain:
  "list_all (list_all plain_char) (trade_fields @ metadata_fields @ level_fields @ book_fields)"
  by code_simp

lemma enc_obj_doc:
  assumes "enc_obj ms = Some j" "list_all (doc_member n) ms"
  shows "wf_json j" "jdepth j \<le> Suc n"
proof -
  obtain js where "j = JObj js" "ms = map (\<lambda>(k, j). (k, Some j)) js"
    using assms(1) by (auto simp: enc_obj_def enc_members_Some)
  then show "wf_json j" "jdepth j \<le> Suc n"
    using assms(2) by (auto simp: list_all_iff fold_max_le doc_member_def)
qed

text \<open>The tags are plain text: complete tokens that unquote to themselves.\<close>

lemmas field_defs = trade_fields_def metadata_fields_def level_fields_def book_fields_def

lemma tag_plain: "k \<in> set (trade_fields @ metadata_fields @ level_fields @ book_fields) \<Longrightarrow> list_all plain_char k"
  using field_names_plain unfolding list_all_iff [of _ "trade_fields @ metadata_fields @ level_fields @ book_fields"] by blast

lemma tag_text:
  "list_all (\<lambda>k. token_ok k \<and> unquote k = k) (trade_fields @ metadata_fields @ level_fields @ book_fields)"
  unfolding list_all_iff by (intro ballI conjI plain_token plain_unquote tag_plain)

lemmas tag_simps = tag_text [unfolded field_defs, simplified]

definition metadata_ok :: "MarketMetadata \<Rightarrow> bool" where
  "metadata_ok m = (utf8_valid (BaseAsset m) \<and> utf8_valid (QuoteAsset m) \<and> utf8_valid (Exchange m))"

lemma list_all_unless: "list_all P (unless b y) \<longleftrightarrow> b \<or> P y"
  by (simp add: unless_def)

lemmas doc_fields = tag_simps list_all_unless
  string_codec.doc_enc float_codec.doc_enc int_codec.doc_enc time_codec.doc_enc

lemma dec_struct_obj: "dec_struct names store r (JObj ms) = dec_members names store ms r"
  by (simp add: dec_struct_def)

lemmas dec_fields = dec_struct_def match_field_def field_defs tag_simps

interpretation level_codec: json_codec enc_level 1 dec_level "\<lambda>_. True"
proof
  fix l j
  assume e: "enc_level l = Some j"
  show "wf_json j" "jdepth j \<le> 1"
    using enc_obj_doc [OF e [unfolded enc_level_def], of 0] by (simp_all add: doc_fields)
  show "dec_level j = Some l"
    using e float_codec.dec_enc
    by (auto simp: enc_level_def enc_obj_def dec_level_def dec_fields store_level_def zero_level_def
        split: option.splits)
qed

interpretation levels_codec: json_codec "enc_slice enc_level" 2 "dec_slice dec_level" "\<lambda>s. list_all (\<lambda>_. True) (elems s)"
  using level_codec.slice_codec by (simp add: numeral_2_eq_2)

interpretation metadata_codec: json_codec enc_metadata 1
  "dec_struct metadata_fields store_metadata zero_metadata" metadata_ok
proof
  fix m j
  assume e: "enc_metadata m = Some j"
  show "wf_json j" "jdepth j \<le> 1"
    using enc_obj_doc [OF e [unfolded enc_metadata_def], of 0] by (simp_all add: doc_fields)
  show "metadata_ok m \<Longrightarrow> dec_struct metadata_fields store_metadata zero_metadata j = Some m"
    using e
    by (auto simp: enc_metadata_def enc_obj_def unless_def enc_string_def dec_string_def dec_fields store_metadata_def
        zero_metadata_def metadata_ok_def unquote_quote split: if_splits)
qed

definition book_ok :: "OrderBook \<Rightarrow> bool" where
  "book_ok b = utf8_valid (BookSymbol b)"

interpretation book_codec: json_codec enc_book 3 "dec_struct book_fields store_book zero_book" book_ok
proof
  fix b j
  assume e: "enc_book b = Some j"
  have "list_all (doc_member 2) [(''symbol'', enc_string (BookSymbol b)), (''bids'', enc_slice enc_level (Bids b)),
      (''asks'', enc_slice enc_level (Asks b)), (''last_update'', enc_time (LastUpdate b))]"
    by (simp add: doc_fields levels_codec.doc_enc)
  from enc_obj_doc [OF e [unfolded enc_book_def] this] show "wf_json j" "jdepth j \<le> 3" by simp_all
  obtain bs as' t where "enc_slice enc_level (Bids b) = Some bs" "enc_slice enc_level (Asks b) = Some as'"
      "enc_time (LastUpdate b) = Some t"
    and j: "j = JObj [(''symbol'', JStr (quote (BookSymbol b))), (''bids'', bs), (''asks'', as'), (''last_update'', t)]"
    using e by (auto simp: enc_book_def enc_obj_def enc_string_def split: option.splits)
  then have "dec_slice dec_level bs = Some (Bids b)" "dec_slice dec_level as' = Some (Asks b)"
    "\<And>old. dec_time old t = Some (LastUpdate b)"
    using levels_codec.dec_enc time_codec.dec_enc by (auto simp: list_all_iff)
  then show "book_ok b \<Longrightarrow> dec_struct book_fields store_book zero_book j = Some b"
    unfolding j by (simp add: dec_fields store_book_def dec_string_def book_ok_def unquote_quote zero_book_def)
qed

text \<open>The two members of a trade event that may be left out are absent exactly when the zero
  value the decoder starts from is right for them.\<close>

definition trade_ok :: "TradeEvent \<Rightarrow> bool" where
  "trade_ok e =
     (utf8_valid (Symbol e) \<and> utf8_valid (Side e) \<and> metadata_ok (Market e) \<and>
      (mag (Notional e) = 0 \<longrightarrow> \<not> neg (Notional e)))"

lemma enc_trade_doc:
  assumes "enc_trade e = Some j"
  shows "wf_json j" "jdepth j \<le> 2"
proof -
  have "doc_member 1 (''is_whale'', Some (JBool True))" by (simp add: doc_member_def tag_simps)
  from enc_obj_doc [OF assms [unfolded enc_trade_def], of 1] this show "wf_json j" "jdepth j \<le> 2"
    by (simp_all add: doc_fields metadata_codec.doc_enc)
qed

lemma enc_trade_parts:
  assumes "enc_trade e = Some j"
  obtains jp jq jm jt ji ns where
    "enc_float (Price e) = Some jp" "enc_float (Quantity e) = Some jq" "enc_metadata (Market e) = Some jm"
    "enc_time (EventTime e) = Some jt" "enc_time (IngestTime e) = Some ji"
    "if mag (Notional e) = 0 then ns = [] else \<exists>jn. enc_float (Notional e) = Some jn \<and> ns = [(''notional'', jn)]"
    "j = JObj ([(''symbol'', JStr (quote (Symbol e))), (''price'', jp), (''quantity'', jq),
        (''side'', JStr (quote (Side e))), (''trade_id'', JNum (FormatInt (sint (TradeID e))))] @ ns @
        [(''market'', jm)] @ (if IsWhale e then [(''is_whale'', JBool True)] else []) @
        [(''event_time'', jt), (''ingest_time'', ji)])"
  using assms
  by (cases "mag (Notional e) = 0"; cases "IsWhale e")
    (auto simp: enc_trade_def enc_obj_def unless_def enc_string_def enc_int64_def split: option.splits)

interpretation trade_codec: json_codec enc_trade 2 "dec_struct trade_fields store_trade zero_trade" trade_ok
proof
  fix e j
  assume e: "enc_trade e = Some j"
  show "wf_json j" "jdepth j \<le> 2" by (rule enc_trade_doc [OF e])+
  assume ok: "trade_ok e"
  from e obtain jp jq jm jt ji ns where p: "enc_float (Price e) = Some jp" "enc_float (Quantity e) = Some jq"
    "enc_metadata (Market e) = Some jm" "enc_time (EventTime e) = Some jt" "enc_time (IngestTime e) = Some ji"
    "if mag (Notional e) = 0 then ns = [] else \<exists>jn. enc_float (Notional e) = Some jn \<and> ns = [(''notional'', jn)]"
    and j: "j = JObj ([(''symbol'', JStr (quote (Symbol e))), (''price'', jp), (''quantity'', jq),
        (''side'', JStr (quote (Side e))), (''trade_id'', JNum (FormatInt (sint (TradeID e))))] @ ns @
        [(''market'', jm)] @ (if IsWhale e then [(''is_whale'', JBool True)] else []) @
        [(''event_time'', jt), (''ingest_time'', ji)])"
    by (rule enc_trade_parts)
  have d: "dec_float old jp = Some (Price e)" "dec_float old jq = Some (Quantity e)"
    "dec_time told jt = Some (EventTime e)" "dec_time told ji = Some (IngestTime e)"
    "dec_struct metadata_fields store_metadata zero_metadata jm = Some (Market e)"
    "dec_int64 iold (JNum (FormatInt (sint (TradeID e)))) = Some (TradeID e)" for old told iold
    using p ok by (simp_all add: float_codec.dec_enc time_codec.dec_enc metadata_codec.dec_enc trade_ok_def
        dec_int64_def ParseInt_FormatInt)
  have z: "mag (Notional e) = 0 \<Longrightarrow> f_zero = Notional e" using ok by (intro float_eqI) (simp_all add: trade_ok_def)
  have s: "dec_string sold (JStr (quote (Symbol e))) = Some (Symbol e)" "dec_string sold (JStr (quote (Side e))) = Some (Side e)" for sold
    using ok by (simp_all add: dec_string_def trade_ok_def unquote_quote)
  note dec = dec_struct_obj match_field_def trade_fields_def tag_simps store_trade_def d s zero_trade_def dec_bool_def
  show "dec_struct trade_fields store_trade zero_trade j = Some e"
  proof (cases "mag (Notional e) = 0")
    case True
    with p z show ?thesis unfolding j by (simp add: dec)
  next
    case False
    then obtain jn where n: "ns = [(''notional'', jn)]" "enc_float (Notional e) = Some jn" using p(6) by auto
    show ?thesis unfolding j n(1) by (simp add: dec float_codec.dec_enc [OF n(2)])
  qed
qed

section \<open>Text layer\<close>

lemma unmarshal_marshal_trade: "marshal_trade e = Some s \<Longrightarrow> trade_ok e \<Longrightarrow> unmarshal_trade s = Some e"
  using trade_codec.text_read [of e] trade_codec.dec_enc [of e]
  by (auto simp: marshal_trade_def unmarshal_trade_def max_depth_def)

lemma unmarshal_marshal_book: "marshal_book b = Some s \<Longrightarrow> book_ok b \<Longrightarrow> unmarshal_book s = Some b"
  using book_codec.text_read [of b] book_codec.dec_enc [of b]
  by (auto simp: marshal_book_def unmarshal_book_def max_depth_def)

section \<open>Decoded structs hold UTF-8 text\<close>

text \<open>A property of a struct that every stored member keeps holds after decoding.\<close>

lemma dec_members_keeps:
  assumes "\<And>n v r r'. wf_json v \<Longrightarrow> P r \<Longrightarrow> store n v r = Some r' \<Longrightarrow> P r'"
  shows "list_all (\<lambda>(k, v). wf_json v) ms \<Longrightarrow> P r \<Longrightarrow> dec_members names store ms r = Some r' \<Longrightarrow> P r'"
proof (induction ms arbitrary: r)
  case (Cons m ms)
  obtain k v where m: "m = (k, v)" by fastforce
  show ?case
  proof (cases "match_field names (unquote k)")
    case None
    with Cons m show ?thesis by simp
  next
    case (Some n)
    with Cons.prems m obtain r1 where "store n v r = Some r1" "dec_members names store ms r1 = Some r'"
      by (auto split: option.splits)
    then show ?thesis using Cons.IH [of r1] assms [of v r n r1] Cons.prems m by simp
  qed
qed simp

lemma dec_struct_keeps:
  assumes "\<And>n v r r'. wf_json v \<Longrightarrow> P r \<Longrightarrow> store n v r = Some r' \<Longrightarrow> P r'"
    and "wf_json v" "P r" "dec_struct names store r v = Some r'"
  shows "P r'"
proof (cases v)
  case (JObj ms)
  show ?thesis
  proof (rule dec_members_keeps [where P = P and store = store and names = names and r = r and ms = ms])
    show "\<And>n v r r'. wf_json v \<Longrightarrow> P r \<Longrightarrow> store n v r = Some r' \<Longrightarrow> P r'" by (rule assms(1))
    show "list_all (\<lambda>(k, v). wf_json v) ms" using assms(2) JObj by (auto simp: list_all_iff)
    show "dec_members names store ms r = Some r'" using assms(4) JObj by (simp add: dec_struct_def)
  qed (rule assms(3))
qed (use assms(3,4) in \<open>simp_all add: dec_struct_def\<close>)

lemma dec_string_valid: "wf_json v \<Longrightarrow> utf8_valid old \<Longrightarrow> dec_string old v = Some s \<Longrightarrow> utf8_valid s"
  by (auto simp: dec_string_def unquote_valid split: json.splits)

lemma store_metadata_keeps: "wf_json v \<Longrightarrow> metadata_ok m \<Longrightarrow> store_metadata n v m = Some m' \<Longrightarrow> metadata_ok m'"
  by (auto simp: store_metadata_def metadata_ok_def dec_string_valid split: if_splits)

definition trade_text :: "TradeEvent \<Rightarrow> bool" where
  "trade_text e = (utf8_valid (Symbol e) \<and> utf8_valid (Side e) \<and> metadata_ok (Market e))"

lemma dec_metadata_valid:
  assumes "wf_json v" "metadata_ok m" "dec_struct metadata_fields store_metadata m v = Some m'"
  shows "metadata_ok m'"
  by (rule dec_struct_keeps [where P = metadata_ok and store = store_metadata, OF _ assms]) (rule store_metadata_keeps)

lemma store_trade_keeps: "wf_json v \<Longrightarrow> trade_text e \<Longrightarrow> store_trade n v e = Some e' \<Longrightarrow> trade_text e'"
  unfolding store_trade_def trade_text_def
  by (elim conjE) (auto split: if_splits intro: dec_string_valid dec_metadata_valid)

lemma utf8_Nil [simp]: "utf8_valid []"
  by (simp add: utf8_valid.simps)

lemma unmarshal_trade_text:
  assumes "unmarshal_trade raw = Some e"
  shows "trade_text e"
proof -
  obtain v where v: "json_parse raw = Some v" "dec_struct trade_fields store_trade zero_trade v = Some e"
    using assms by (auto simp: unmarshal_trade_def split: option.splits)
  have z: "trade_text zero_trade" by (simp add: trade_text_def zero_trade_def metadata_ok_def zero_metadata_def)
  show ?thesis
    by (rule dec_struct_keeps [where P = trade_text and store = store_trade, OF _ _ z v(2)])
      (use json_parse_wf [OF v(1)] store_trade_keeps in blast)+
qed

text \<open>What a trade is after the trip: itself, except that a notional of minus zero is plain zero.
  The encoding does not see the difference.\<close>

definition wire_trade :: "TradeEvent \<Rightarrow> TradeEvent" where
  "wire_trade e = (if mag (Notional e) = 0 then e\<lparr>Notional := f_zero\<rparr> else e)"

lemma enc_wire_trade: "enc_trade (wire_trade e) = enc_trade e"
  by (simp add: wire_trade_def enc_trade_def unless_def)

lemma wire_trade_ok: "trade_text e \<Longrightarrow> trade_ok (wire_trade e)"
  by (simp add: trade_ok_def trade_text_def wire_trade_def)

lemma unmarshal_wire_trade: "trade_text e \<Longrightarrow> marshal_trade e = Some s \<Longrightarrow> unmarshal_trade s = Some (wire_trade e)"
  using unmarshal_marshal_trade [of "wire_trade e" s] wire_trade_ok [of e] by (simp add: marshal_trade_def enc_wire_trade)

section \<open>Properties\<close>

text \<open>A trade with a notional of minus zero, and a book with an empty and a nil side.\<close>

definition wire_sample :: TradeEvent where
  "wire_sample = zero_trade\<lparr>Symbol := ''BTCUSDT'', Price := f_one, Notional := pack True 0\<rparr>"

lemma zero_time_text: "format_time zero_time = Some ''0001-01-01T00:00:00Z''"
  by code_simp

lemma wire_sample_ok: "trade_encodable wire_sample" "trade_text wire_sample" "utf8_valid ''BTCUSDT''"
proof -
  show u: "utf8_valid ''BTCUSDT''" by (rule ascii_valid) simp
  show "trade_encodable wire_sample" "trade_text wire_sample"
    using u by (simp_all add: wire_sample_def trade_encodable_def trade_text_def zero_trade_def zero_time_text
        metadata_ok_def zero_metadata_def is_finite_def inf_mag_def f_one_def)
qed

text \<open>C8. A trade event survives the topic and the cache: if its floats are finite, its instants in
  the years 0 to 9999 and its strings UTF-8, it marshals, and unmarshalling the bytes gives the
  same event back, field by field and bit by bit; only a notional of minus zero, which
  \<open>omitempty\<close> leaves out, comes back as plain zero.\<close>

theorem trade_json_roundtrip:
  assumes "trade_encodable e" "trade_text e"
  shows "\<exists>s. marshal_trade e = Some s \<and>
     unmarshal_trade s = Some (if mag (Notional e) = 0 then e\<lparr>Notional := f_zero\<rparr> else e)"
  using marshal_trade_None [of e] unmarshal_wire_trade [of e] assms by (auto simp: wire_trade_def)

theorem trade_json_roundtrip_witness:
  "neg (Notional wire_sample) \<and> (\<exists>s. marshal_trade wire_sample = Some s \<and>
     unmarshal_trade s = Some (zero_trade\<lparr>Symbol := ''BTCUSDT'', Price := f_one\<rparr>))"
  using trade_json_roundtrip [OF wire_sample_ok(1,2)]
  by (simp add: wire_sample_def zero_trade_def)

text \<open>C15. An order book survives the cache: with finite levels, an instant in range and a UTF-8
  symbol it marshals, and unmarshalling gives the same book, a nil side staying nil.\<close>

theorem book_json_roundtrip:
  assumes "book_encodable b" "utf8_valid (BookSymbol b)"
  shows "\<exists>s. marshal_book b = Some s \<and> unmarshal_book s = Some b"
  using marshal_book_None [of b] unmarshal_marshal_book [of b] assms by (auto simp: book_ok_def)

theorem book_json_roundtrip_witness:
  "\<exists>s. marshal_book \<lparr>BookSymbol = ''BTCUSDT'', Bids = Some [], Asks = None, LastUpdate = zero_time\<rparr> = Some s \<and>
     unmarshal_book s = Some \<lparr>BookSymbol = ''BTCUSDT'', Bids = Some [], Asks = None, LastUpdate = zero_time\<rparr>"
  by (rule book_json_roundtrip) (simp_all add: book_encodable_def zero_time_text wire_sample_ok(3))

end
