(* ===== verification/EndToEnd.thy ===== *)
theory EndToEnd
  imports Pipeline Api Ingestion WireText
begin

text \<open>
  The lemmas behind the properties that span services: a trade's way from the exchange message
  through the topic into the consumer, from the Redis writer through the cache into the read
  handlers, and the cache as a function of what the running pipeline has written.
\<close>

section \<open>From the exchange to the consumer\<close>

lemma store_message_keeps:
  "wf_json v \<Longrightarrow> utf8_valid (mSymbol msg) \<Longrightarrow> store_message n v msg = Some msg' \<Longrightarrow> utf8_valid (mSymbol msg')"
  unfolding store_message_def by (auto split: if_splits intro: dec_string_valid)

lemma unmarshal_message_text:
  assumes "unmarshal_message raw = Some msg"
  shows "utf8_valid (mSymbol msg)"
proof -
  obtain v where v: "json_parse raw = Some v" "dec_struct message_fields store_message zero_message v = Some msg"
    using assms by (auto simp: unmarshal_message_def split: option.splits)
  have z: "utf8_valid (mSymbol zero_message)" by (simp add: zero_message_def)
  show ?thesis
    by (rule dec_struct_keeps [where P = "\<lambda>m. utf8_valid (mSymbol m)" and store = store_message, OF _ _ z v(2)])
      (use json_parse_wf [OF v(1)] store_message_keeps in blast)+
qed

lemma side_text: "utf8_valid SideBuy" "utf8_valid SideSell"
  by (simp_all add: SideBuy_def SideSell_def ascii_valid)

lemma zero_metadata_text: "metadata_ok zero_metadata"
  by (simp add: metadata_ok_def zero_metadata_def)

lemma normalizeTrade_text:
  assumes "normalizeTrade U jerr raw t = Inr e"
  shows "trade_text e" "wire_trade e = e"
proof -
  obtain msg x y where m: "unmarshal_message raw = Some msg"
    and e: "e = zero_trade\<lparr>Symbol := mSymbol msg, Price := x, Quantity := y,
       Side := (if mBuyerIsMaker msg then SideSell else SideBuy), TradeID := mTradeID msg,
       EventTime := UnixMilli (mTradeTime msg), IngestTime := t\<rparr>"
    by (rule normalizeTrade_Inr [OF assms])
  show "trade_text e" using unmarshal_message_text [OF m] side_text zero_metadata_text
    by (simp add: e trade_text_def zero_trade_def)
  show "wire_trade e = e" by (simp add: e wire_trade_def zero_trade_def)
qed

text \<open>The record the broker hands to the consumer: what was produced, with its place in the topic.\<close>

definition delivered :: "prod_record \<Rightarrow> int \<Rightarrow> int \<Rightarrow> kgo_record" where
  "delivered p part off = \<lparr>RTopic = PTopic p, RPartition = part, ROffset = off, RKey = PKey p, RValue = PValue p\<rparr>"

section \<open>From the writer to the readers\<close>

lemma lookup_text: "metadata_ok (fst (Lookup NewDefaultMetadataProvider sb))"
proof -
  have "metadata_ok m" if "defaultMarketMetadata k = Some m" for k m
    using that by (auto simp: defaultMarketMetadata_def metadata_ok_def ascii_valid split: if_splits)
  then show ?thesis
    by (auto simp: Lookup_def NewDefaultMetadataProvider_def NewStaticMetadataProvider_def zero_metadata_text split: option.split)
qed

lemma enrich_text: "trade_text e \<Longrightarrow> trade_text (enrich metadata e)"
  using lookup_text [of "Symbol e"] by (simp add: trade_text_def enrich_def Let_def)

text \<open>A reader over the same server: it finds the bytes that are stored.\<close>

definition reads_from :: "RedisReader \<Rightarrow> (string \<rightharpoonup> redis_arg) \<Rightarrow> bool" where
  "reads_from rd m = (\<forall>k b. m k = Some (ArgBytes b) \<longrightarrow> rGet rd k = Inr b)"

lemma enc_trade_response_wire:
  "enc_tradeResponse \<lparr>trSymbol = sb, trTrades = Some [wire_trade e], trSource = src\<rparr> =
   enc_tradeResponse \<lparr>trSymbol = sb, trTrades = Some [e], trSource = src\<rparr>"
  by (simp add: enc_tradeResponse_def enc_slice_def enc_wire_trade)

lemma LatestTrade_served:
  assumes "reads_from rd m" "m (KeyLatestTrade sb) = Some (ArgBytes tj)" "marshal_trade e = Some tj"
    and "trade_text e" "normalizeSymbol U p = sb" "sb \<noteq> []"
  shows "LatestTrade U rd p =
     writeJSON 200 (enc_tradeResponse \<lparr>trSymbol = sb, trTrades = Some [e], trSource = ''redis''\<rparr>)"
  using assms unmarshal_wire_trade [OF assms(4,3)]
  by (simp add: LatestTrade_def reads_from_def enc_trade_response_wire)

lemma OrderBook_served:
  assumes "reads_from rd m" "m (KeyOrderBook sb) = Some (ArgBytes bj)" "marshal_book b = Some bj"
    and "utf8_valid (BookSymbol b)" "normalizeSymbol U p = sb" "sb \<noteq> []"
  shows "OrderBook_handler U rd p = writeJSON 200 (enc_orderBookResponse (book_response b))"
  using assms unmarshal_marshal_book [OF assms(3)]
  by (simp add: OrderBook_handler_def reads_from_def book_ok_def)

section \<open>The cache of a running pipeline\<close>

text \<open>The last trade of a symbol that can be encoded, in the order the Redis writer saw them.\<close>

definition last_trade :: "string \<Rightarrow> TradeEvent list \<Rightarrow> TradeEvent option" where
  "last_trade sb es = fold (\<lambda>e acc. if Symbol e = sb \<and> trade_encodable e then Some e else acc) es None"

lemma last_trade_snoc:
  "last_trade sb (es @ [e]) = (if Symbol e = sb \<and> trade_encodable e then Some e else last_trade sb es)"
  by (simp add: last_trade_def)

lemma last_trade_Nil [simp]: "last_trade sb [] = None"
  by (simp add: last_trade_def)

lemma last_trade_props: "last_trade sb es = Some e \<Longrightarrow> e \<in> set es \<and> Symbol e = sb \<and> trade_encodable e"
  by (induction es rule: rev_induct) (auto simp: last_trade_snoc split: if_splits)

definition sets_succeed :: "'r redis_client \<Rightarrow> bool" where
  "sets_succeed client = (\<forall>r k v. snd (rSet client r k v) = None)"

lemma Write_latest:
  assumes laws: "redis_laws client view" and ok: "sets_succeed client"
  shows "view (fst (Write client (Some bs) e r)) (KeyLatestTrade sb) =
    (if Symbol e = sb \<and> trade_encodable e then map_option ArgBytes (marshal_trade e) else view r (KeyLatestTrade sb))"
proof -
  have set: "view (fst (rSet client r k v)) = (view r)(k \<mapsto> v)" "\<exists>r'. rSet client r k v = (r', None)" for r k v
  proof -
    have s: "snd (rSet client r k v) = None" using ok by (simp add: sets_succeed_def)
    then show "\<exists>r'. rSet client r k v = (r', None)" by (metis prod.collapse)
    then show "view (fst (rSet client r k v)) = (view r)(k \<mapsto> v)" using redis_lawsD(1) [OF laws] by force
  qed
  show ?thesis
  proof (cases "marshal_trade e")
    case None
    then show ?thesis using marshal_trade_None [of e] by (simp add: Write_def json_Marshal_trade_def)
  next
    case (Some tj)
    obtain r1 where r1: "rSet client r (KeyLatestTrade (Symbol e)) (ArgBytes tj) = (r1, None)" using set(2) by blast
    obtain r2 where r2: "rSet client r1 (KeyPrice (Symbol e)) (ArgFloat (Price e)) = (r2, None)" using set(2) by blast
    have v2: "view r2 = (view r)(KeyLatestTrade (Symbol e) \<mapsto> ArgBytes tj, KeyPrice (Symbol e) \<mapsto> ArgFloat (Price e))"
      using set(1) [of r1] set(1) [of r] r1 r2 by (metis fst_conv)
    have "view (fst (Write client (Some bs) e r)) (KeyLatestTrade sb) = view r2 (KeyLatestTrade sb)"
    proof -
      obtain b k where g: "Get bs (Symbol e) = (b, k)" by fastforce
      have "\<exists>r3. rSet client r2 (KeyOrderBook (Symbol e)) (ArgBytes bj) = (r3, None) \<and>
          view r3 (KeyLatestTrade sb) = view r2 (KeyLatestTrade sb)" for bj
        using set(2) [of r2 "KeyOrderBook (Symbol e)" "ArgBytes bj"] set(1) [of r2 "KeyOrderBook (Symbol e)" "ArgBytes bj"]
        by force
      note book = this
      show ?thesis
      proof (cases "k \<and> marshal_book b \<noteq> None")
        case True
        then obtain bj where bj: "marshal_book b = Some bj" by blast
        from book [of bj] obtain r3 where "rSet client r2 (KeyOrderBook (Symbol e)) (ArgBytes bj) = (r3, None)"
          "view r3 (KeyLatestTrade sb) = view r2 (KeyLatestTrade sb)" by blast
        with Some r1 r2 g True bj show ?thesis
          by (simp add: Write_def json_Marshal_trade_def json_Marshal_book_def)
      next
        case False
        then show ?thesis using Some r1 r2 g
          by (cases k) (simp_all add: Write_def json_Marshal_trade_def json_Marshal_book_def)
      qed
    qed
    then show ?thesis using v2 Some marshal_trade_None [of e] by auto
  qed
qed

text \<open>Only the Redis writer's step changes the cache, and it does so by one write.\<close>

definition cache_line :: "('r \<Rightarrow> string \<rightharpoonup> redis_arg) \<Rightarrow> 'r \<Rightarrow> 'r proc \<Rightarrow> bool" where
  "cache_line view r0 s =
     (\<forall>sb. view (redis s) (KeyLatestTrade sb) =
        (case last_trade sb (rwSeen s) of
           None \<Rightarrow> view r0 (KeyLatestTrade sb) | Some e \<Rightarrow> map_option ArgBytes (marshal_trade e)))"

lemma cache_line_step:
  assumes "redis_laws client view" "sets_succeed client" "proc_step client s l t" "cache_line view r0 s"
  shows "cache_line view r0 t"
  using assms(3)
proof (cases rule: proc_step.cases)
  case (rw_write e)
  then have "redis t = fst (Write client (Some (books s)) e (redis s))" "rwSeen t = rwSeen s @ [e]" by simp_all
  then show ?thesis
    using assms(4) Write_latest [OF assms(1,2)] by (simp add: cache_line_def last_trade_snoc)
qed (use assms(4) in \<open>simp_all add: cache_line_def\<close>)

lemma cache_line_reach:
  assumes "redis_laws client view" "sets_succeed client" "proc_reach client (proc_init n m r0) s"
  shows "cache_line view r0 s"
  using assms(3)
proof induction
  case reach_start
  show ?case by (simp add: cache_line_def proc_init_def)
next
  case (reach_step s l t)
  then show ?case using cache_line_step [OF assms(1,2)] by blast
qed

text \<open>When writes may fail, a failed \<open>Set\<close> leaves its key as it was or takes effect: then the cache
  still holds nothing but trades the writer handled.\<close>

definition set_all_or_nothing :: "'r redis_client \<Rightarrow> ('r \<Rightarrow> string \<rightharpoonup> redis_arg) \<Rightarrow> bool" where
  "set_all_or_nothing client view =
     (\<forall>r k v r' e. rSet client r k v = (r', Some e) \<longrightarrow> view r' k = view r k \<or> view r' k = Some v)"

lemma Write_latest_or_old:
  assumes "redis_laws client view" "set_all_or_nothing client view"
  shows "view (fst (Write client (Some bs) e r)) (KeyLatestTrade sb) = view r (KeyLatestTrade sb) \<or>
    (Symbol e = sb \<and> (\<exists>tj. marshal_trade e = Some tj \<and>
       view (fst (Write client (Some bs) e r)) (KeyLatestTrade sb) = Some (ArgBytes tj)))"
proof -
  have other: "view (fst (rSet client r k v)) (KeyLatestTrade sb) = view r (KeyLatestTrade sb)"
    if "k \<noteq> KeyLatestTrade sb" for r k v
  proof (cases "rSet client r k v")
    case (Pair r' err)
    then show ?thesis using redis_lawsD [OF assms(1)] that by (cases err) auto
  qed
  have own: "view (fst (rSet client r k v)) k \<in> {view r k, Some v}" for r k v
  proof (cases "rSet client r k v")
    case (Pair r' err)
    then show ?thesis using redis_lawsD(1) [OF assms(1)] assms(2) unfolding set_all_or_nothing_def by (cases err) auto
  qed
  let ?r1 = "\<lambda>tj. fst (rSet client r (KeyLatestTrade (Symbol e)) (ArgBytes tj))"
  have tail: "view (fst (Write client (Some bs) e r)) (KeyLatestTrade sb) = view (?r1 tj) (KeyLatestTrade sb)"
    if "marshal_trade e = Some tj" for tj
    using that other [of "KeyPrice (Symbol e)"] other [of "KeyOrderBook (Symbol e)"]
    by (auto simp: Write_def json_Marshal_trade_def json_Marshal_book_def Let_def split: prod.splits option.splits)
       (metis fst_conv)+
  show ?thesis
  proof (cases "marshal_trade e")
    case None
    then show ?thesis by (simp add: Write_def json_Marshal_trade_def)
  next
    case (Some tj)
    show ?thesis
    proof (cases "Symbol e = sb")
      case True
      then show ?thesis using tail [OF Some] own [of r "KeyLatestTrade sb" "ArgBytes tj"] Some by auto
    next
      case False
      then show ?thesis using tail [OF Some] other [of "KeyLatestTrade (Symbol e)"] by simp
    qed
  qed
qed

definition cache_from :: "('r \<Rightarrow> string \<rightharpoonup> redis_arg) \<Rightarrow> 'r \<Rightarrow> 'r proc \<Rightarrow> bool" where
  "cache_from view r0 s =
     (\<forall>sb. view (redis s) (KeyLatestTrade sb) = view r0 (KeyLatestTrade sb) \<or>
        (\<exists>e tj. e \<in> set (rwSeen s) \<and> Symbol e = sb \<and> marshal_trade e = Some tj \<and>
           view (redis s) (KeyLatestTrade sb) = Some (ArgBytes tj)))"

lemma cache_from_reach:
  assumes "redis_laws client view" "set_all_or_nothing client view" "proc_reach client (proc_init n m r0) s"
  shows "cache_from view r0 s"
  using assms(3)
proof induction
  case reach_start
  show ?case by (simp add: cache_from_def proc_init_def)
next
  case (reach_step s l t)
  from reach_step(2) show ?case
  proof (cases rule: proc_step.cases)
    case (rw_write e)
    then have t: "redis t = fst (Write client (Some (books s)) e (redis s))" "rwSeen t = rwSeen s @ [e]" by simp_all
    show ?thesis
      unfolding cache_from_def
    proof
      fix sb
      show "view (redis t) (KeyLatestTrade sb) = view r0 (KeyLatestTrade sb) \<or>
        (\<exists>e tj. e \<in> set (rwSeen t) \<and> Symbol e = sb \<and> marshal_trade e = Some tj \<and>
           view (redis t) (KeyLatestTrade sb) = Some (ArgBytes tj))"
        using Write_latest_or_old [OF assms(1,2), of "books s" e "redis s" sb] reach_step(3) [unfolded cache_from_def, rule_format, of sb]
        unfolding t by auto
    qed
  qed (use reach_step(3) in \<open>simp_all add: cache_from_def\<close>)
qed

text \<open>Every trade the writer saw is an enriched trade that was decoded from a record, so its text is
  UTF-8.\<close>

lemma enriched_decoded:
  assumes "proc_inv s" "e \<in># enriched (submitted s)"
  obtains rc :: kgo_record and e0 where "unmarshal_trade (RValue rc) = Some e0" "e = enrich metadata e0"
proof -
  obtain e0 where e0: "e0 \<in> set (submitted s)" "e = enrich metadata e0" using assms(2) by (auto simp: enriched_def)
  have "submitted s = decoded (pmarks s)" using assms(1) by (simp add: proc_inv_def)
  then obtain rc :: kgo_record where "unmarshal_trade (RValue rc) = Some e0" using e0(1) by (auto simp: decoded_def map_filter_def)
  then show thesis using that e0(2) by blast
qed

lemma rwSeen_text:
  assumes "proc_reach client (proc_init n m r0) s" "e \<in> set (rwSeen s)"
  shows "trade_text e"
proof -
  have inv: "proc_inv s" using proc_inv_reach [OF assms(1) proc_inv_init] .
  have "e \<in># account rw redisWriter rwSeen s" using assms(2) by (simp add: account_def)
  then have "e \<in># enriched (submitted s)" using inv by (simp add: proc_inv_def balanced_def)
  then show ?thesis using enriched_decoded [OF inv] unmarshal_trade_text enrich_text by metis
qed

lemma enc_response_Some:
  assumes "trade_encodable e"
  shows "\<exists>j. enc_tradeResponse \<lparr>trSymbol = sb, trTrades = Some [e], trSource = src\<rparr> = Some j"
proof -
  obtain te where "enc_trade e = Some te" using marshal_trade_None [of e] assms by (auto simp: marshal_trade_def)
  then show ?thesis by (simp add: enc_tradeResponse_def enc_obj_def enc_string_def enc_slice_def)
qed

lemma enc_book_response_Some:
  assumes "book_encodable b"
  shows "\<exists>j. enc_orderBookResponse (book_response b) = Some j"
proof -
  let ?r = "book_response b"
  have lv: "enc_level l \<noteq> None" if "l \<in> set (elems (Bids b)) \<union> set (elems (Asks b))" for l
    using assms that by (auto simp: book_encodable_def list_all_iff enc_level_None)
  have "set (elems (obBids ?r)) \<subseteq> set (elems (Bids b))" "set (elems (obAsks ?r)) \<subseteq> set (elems (Asks b))"
    by (auto simp: book_response_fields limitLevels_def split: if_splits dest: in_set_takeD)
  then have sides: "enc_slice enc_level (obBids ?r) \<noteq> None" "enc_slice enc_level (obAsks ?r) \<noteq> None"
    using lv unfolding enc_slice_None by blast+
  have best: "obBestBid ?r = Some l \<or> obBestAsk ?r = Some l \<Longrightarrow> enc_level l \<noteq> None" for l
    by (rule lv) (auto simp: book_response_fields split: list.splits)
  have "format_time (obLastUpdate ?r) \<noteq> None" using assms by (simp add: book_encodable_def book_response_fields)
  then have "enc_orderBookResponse ?r \<noteq> None"
    unfolding enc_orderBookResponse_def enc_obj_None using sides best
    by (cases "obBestBid ?r"; cases "obBestAsk ?r") (auto simp: enc_string_def enc_time_def)
  then show ?thesis by blast
qed

section \<open>A run that fills the cache\<close>

text \<open>One record is polled, submitted, taken by a worker, handed to the Redis sink and written.\<close>

lemma served_run:
  fixes rec :: kgo_record
  assumes dec: "unmarshal_trade (RValue rec) = Some e" and n: "0 < n"
  shows "\<exists>s. proc_reach client (proc_init n m r) s \<and> rwSeen s = [enrich metadata e]"
proof -
  let ?P = "NewWorkerPool n" and ?s0 = "proc_init n m r" and ?e = "enrich metadata e"
  let ?c = "redisWriter (NewFanOut m)"
  let ?s1 = "?s0\<lparr>batch := [rec]\<rparr>"
  let ?p2 = "?P\<lparr>jobs := chan_send e (jobs ?P)\<rparr>"
  let ?s2 = "?s1\<lparr>batch := [], pmarks := pmarks ?s1 @ [rec], pool := ?p2, submitted := submitted ?s1 @ [e]\<rparr>"
  let ?s3 = "?s2\<lparr>pool := ?P, workers := (workers ?s2)[0 := Publishing ?e all_wants]\<rparr>"
  let ?s4 = "?s3\<lparr>fan := (fan ?s3)\<lparr>redisWriter := chan_send ?e ?c\<rparr>,
      workers := (workers ?s3)[0 := Publishing ?e (all_wants\<lparr>rw := False\<rparr>)]\<rparr>"
  let ?h = "?s4\<lparr>fan := (fan ?s4)\<lparr>redisWriter := ?c\<rparr>, rwHold := Some ?e\<rparr>"
  let ?s5 = "?h\<lparr>rwHold := None, redis := fst (Write client (Some (books ?h)) ?e (redis ?h)), rwSeen := rwSeen ?h @ [?e]\<rparr>"
  have cap: "Cap (jobs ?P) = nat n" "Buf (jobs ?P) = []" "numWorkers ?P = nat n"
    using n by (simp_all add: NewWorkerPool_fields)
  have sink: "Buf ?c = []" "0 < Cap ?c"
    using sized_init [of n m r] by (simp_all add: sized_def proc_init_def NewFanOut_def Let_def)
  have len: "length (workers ?s2) = nat n" "workers ?s2 ! 0 = Idle" using n cap by (simp_all add: proc_init_def)
  have "proc_step client ?s0 (Polled [rec]) ?s1" by (rule polled) (simp_all add: proc_init_def)
  moreover have "proc_step client ?s1 Submitted ?s2"
    using n by (intro submitted [OF _ _ dec]) (simp_all add: proc_init_def Submit_iff can_send_def cap)
  moreover have "proc_step client ?s2 (Take 0) ?s3"
    using n len by (intro take) (auto simp: runWorker_iff chan_recv_eq cap intro!: exI [of _ "jobs ?P"])
  moreover have "proc_step client ?s3 (Deliver 0) ?s4"
    using n len sink
    by (intro deliver [where w = all_wants]) (simp_all add: proc_init_def wants_any_def all_wants_def Turn_iff can_send_def)
  moreover have "proc_step client ?s4 RwTake ?h"
    using sink by (intro rw_take) (simp_all add: proc_init_def chan_recv_eq RedisWriter_Run_iff)
  moreover have "proc_step client ?h RwWrite ?s5" by (rule rw_write) (simp_all add: proc_init_def)
  ultimately have "proc_reach client ?s0 ?s5" by (meson reach_start reach_step)
  then show ?thesis by (intro exI [of _ ?s5]) (simp add: proc_init_def)
qed

section \<open>Instances\<close>

text \<open>A reader over the in-memory server of \<open>RedisWriter\<close>.\<close>

definition mem_reader :: "mem_redis \<Rightarrow> RedisReader" where
  "mem_reader m =
     \<lparr>rGet = (\<lambda>k. case kv m k of Some (ArgBytes b) \<Rightarrow> Inr b | _ \<Rightarrow> Inl (Sentinel RedisNil)), rdPing = (\<lambda>_. None)\<rparr>"

lemma mem_reader_reads: "reads_from (mem_reader m) (kv m)"
  by (simp add: reads_from_def mem_reader_def)

lemma mem_all_or_nothing: "set_all_or_nothing (mem_client bad err) kv"
  by (auto simp: set_all_or_nothing_def mem_client_def Let_def split: if_splits)

lemma mem_sets_succeed: "sets_succeed (mem_client {} err)"
  by (simp add: sets_succeed_def mem_client_def Let_def)

lemma sample_published: "\<exists>buf. Publisher_Publish sample_event [] = (buf, None)"
proof -
  have "trade_encodable sample_event" using sample_normalises(2) by (simp add: trade_encodable_def sample_event_def)
  then obtain j where "marshal_trade sample_event = Some j" using marshal_trade_None [of sample_event] by auto
  then show ?thesis by (simp add: Publisher_Publish_def json_Marshal_trade_def)
qed

lemma sample_written:
  obtains m where "Write (mem_client {} (Errorf [])) (Some (Apply sample_trade NewOrderBookStore)) sample_trade mem0 = (m, None)"
  using sample_marshals sample_book
  by (auto simp: Write_def json_Marshal_trade_def json_Marshal_book_def mem_client_def Let_def)

lemma sample_trade_text: "trade_text sample_trade"
  using wire_sample_ok(3) side_text zero_metadata_text
  by (simp add: trade_text_def sample_trade_def zero_trade_def)

lemma btc1_enriched: "Symbol (enrich metadata btc1) = ''BTCUSDT''" "trade_encodable (enrich metadata btc1)"
proof -
  have z: "is_finite f_zero" by (simp add: is_finite_def inf_mag_def)
  have "mag (f_mul f_zero f_zero) = 0"
    using mag_f_mul_finite [OF z z] by (simp add: mant_def round_dyadic_def round_ratio_def)
  then show "Symbol (enrich metadata btc1) = ''BTCUSDT''" "trade_encodable (enrich metadata btc1)"
    using z by (simp_all add: enrich_def Let_def btc1_def zero_trade_def trade_encodable_def zero_time_text is_finite_def inf_mag_def)
qed

end
