(* ===== verification/Typed.thy ===== *)
theory Typed
  imports EndToEnd
begin

text \<open>
  The type of the trades inside the processor: what the consumer decodes has UTF-8 text and finite
  amounts, whatever bytes the topic holds, and enriching keeps that. The invariant of the
  pipeline carries it to everything a sink holds or has handled.
\<close>

section \<open>Decoded numbers are finite\<close>

lemma json_number_digit:
  assumes "json_number t"
  shows "\<exists>d u. is_digit d \<and> (t = d # u \<or> t = CHR ''-'' # d # u)"
proof -
  let ?u = "if t \<noteq> [] \<and> hd t = CHR ''-'' then tl t else t"
  have "takeWhile is_digit ?u \<noteq> []" using assms by (auto simp: json_number_def int_part_ok_def Let_def)
  then obtain d u where "?u = d # u" "is_digit d" by (cases ?u) (auto split: if_splits)
  then show ?thesis by (cases t) (auto split: if_splits)
qed

lemma ParseFloat_number:
  assumes "json_number t" "ParseFloat t = Some x"
  shows "is_finite x"
proof -
  obtain d u where "is_digit d" "t = d # u \<or> t = CHR ''-'' # d # u" using json_number_digit [OF assms(1)] by blast
  then have "parse_special t = None" using parse_special_digit by auto
  then obtain a b ng where "round_ratio a b \<noteq> inf_mag" "x = pack ng (round_ratio a b)"
    using assms(2) by (auto simp: ParseFloat_def Let_def split: option.splits if_splits)
  moreover have "round_ratio a b < inf_mag" using calculation(1) round_ratio_le_inf [of a b] by simp
  moreover have "round_ratio a b < 2 ^ 63" using calculation(3) inf_mag_less(1) by linarith
  ultimately show ?thesis by (simp add: is_finite_def)
qed

lemma dec_float_finite: "wf_json v \<Longrightarrow> is_finite old \<Longrightarrow> dec_float old v = Some x \<Longrightarrow> is_finite x"
  by (auto simp: dec_float_def intro: ParseFloat_number split: json.splits)

definition trade_typed :: "TradeEvent \<Rightarrow> bool" where
  "trade_typed e = (trade_text e \<and> is_finite (Price e) \<and> is_finite (Quantity e))"

lemma store_trade_typed: "wf_json v \<Longrightarrow> trade_typed e \<Longrightarrow> store_trade n v e = Some e' \<Longrightarrow> trade_typed e'"
  using store_trade_keeps [of v e n e']
  unfolding trade_typed_def store_trade_def by (auto split: if_splits intro: dec_float_finite)

lemma unmarshal_trade_typed:
  assumes "unmarshal_trade raw = Some e"
  shows "trade_typed e"
proof -
  obtain v where v: "json_parse raw = Some v" "dec_struct trade_fields store_trade zero_trade v = Some e"
    using assms by (auto simp: unmarshal_trade_def split: option.splits)
  have z: "trade_typed zero_trade"
    by (simp add: trade_typed_def trade_text_def zero_trade_def metadata_ok_def zero_metadata_def is_finite_def inf_mag_def)
  show ?thesis
    by (rule dec_struct_keeps [where P = trade_typed and store = store_trade, OF _ _ z v(2)])
      (use json_parse_wf [OF v(1)] store_trade_typed in blast)+
qed

lemma enrich_typed: "trade_typed e \<Longrightarrow> trade_typed (enrich metadata e)"
  using enrich_text [of e] by (simp add: trade_typed_def enrich_def)

section \<open>Properties\<close>

text \<open>C25. Every trade inside the processor is well formed, in every state it can reach and whatever bytes
  the topic holds: what waits in the job buffer, what a worker owes to a sink, what a sink's
  channel holds, what the sink has handled and what a shutdown gave up has UTF-8 text and a
  finite price and quantity. So a trade fails to marshal for the cache only if its notional
  overflowed or an instant lies outside the years 0 to 9999.\<close>

theorem pipeline_trades_typed:
  assumes "proc_reach client (proc_init n m r0) s"
    and "e \<in># account ob orderBook obSeen s + account rw redisWriter rwSeen s + account bc broadcast bcSeen s"
  shows "utf8_valid (Symbol e) \<and> utf8_valid (Side e) \<and> is_finite (Price e) \<and> is_finite (Quantity e) \<and>
    (marshal_trade e = None \<longrightarrow>
       \<not> is_finite (Notional e) \<or> format_time (EventTime e) = None \<or> format_time (IngestTime e) = None)"
proof -
  have inv: "proc_inv s" using proc_inv_reach [OF assms(1) proc_inv_init] .
  then have "e \<in># enriched (submitted s)" using assms(2) by (auto simp: proc_inv_def balanced_def)
  then have "trade_typed e" using enriched_decoded [OF inv] unmarshal_trade_typed enrich_typed by metis
  then show ?thesis by (auto simp: trade_typed_def trade_text_def marshal_trade_None trade_encodable_def)
qed

theorem pipeline_trades_typed_witness:
  "\<exists>s. proc_reach (mem_client {} (Errorf [])) (proc_init 4 0 mem0) s \<and> rwSeen s = [enrich metadata btc1] \<and>
     is_finite (Price (enrich metadata btc1)) \<and> utf8_valid (Symbol (enrich metadata btc1))"
proof -
  obtain s where s: "proc_reach (mem_client {} (Errorf [])) (proc_init 4 0 mem0) s" "rwSeen s = [enrich metadata btc1]"
    using served_run [OF rec1_decodes, of 4 "mem_client {} (Errorf [])" 0 mem0] by auto
  have "enrich metadata btc1 \<in># account ob orderBook obSeen s + account rw redisWriter rwSeen s + account bc broadcast bcSeen s"
    using s(2) by (simp add: account_def)
  from pipeline_trades_typed [OF s(1) this] s show ?thesis by blast
qed

end
