(* ===== verification/Workers.thy ===== *)
theory Workers
  imports Ingestion
begin

text \<open>
  The goroutines of ingestion-service: one worker per symbol, which dials, reads and reconnects
  (\<open>internal/worker.go\<close>, \<open>internal/reconnect.go\<close>, \<open>shared/retry\<close>), a watcher per connection that closes it
  when the context is cancelled, and the producer's delivery callbacks. \<open>worker_step\<close> is one step of
  a worker or of one of its watchers, \<open>ing_step\<close> interleaves all of them with time, cancellation and
  deliveries. Handling a message is a step of its own, as \<open>Publish\<close> blocks while the producer's buffer
  is full. The WebSocket library is a parameter: \<open>gives c t f\<close> says that a read of connection \<open>c\<close>
  can meet \<open>f\<close> at time \<open>t\<close>, \<open>blocks c t\<close> that it can still be waiting then, \<open>ahead c t n\<close> that the
  read leaves \<open>n\<close> frames in the library's buffer, and \<open>dials\<close> which dialers are possible; \<open>ws_library\<close>
  states what the code relies on. The theorems give the meaning of the health report in every
  reachable state, the records each worker has produced, how long a read may wait without control
  frames, and the end of a shutdown with the one case in which a worker does not return.
\<close>

section \<open>Connections\<close>

definition wsWriteWait :: duration where "wsWriteWait = 10 * Second"
definition wsPongWait :: duration where "wsPongWait = 60 * Second"
definition wsReadLimit :: int where "wsReadLimit = 2 ^ 20"

text \<open>\<open>Time.Add\<close>.\<close>

definition time_Add :: "gotime \<Rightarrow> duration \<Rightarrow> gotime" where
  "time_Add t d = t + sint d"

text \<open>The settings of a connection and the control frames written to it, each with its write
  deadline. A read limit of zero and a missing deadline mean none; \<open>rdAhead\<close> is the number of frames
  the library has read ahead.\<close>

datatype ws_control = PongMessage string gotime | CloseMessage gotime

record ws_conn =
  rdLimit :: int
  rdDeadline :: "gotime option"
  connClosed :: bool
  rdAhead :: nat
  written :: "ws_control list"

definition fresh_conn :: ws_conn where
  "fresh_conn = \<lparr>rdLimit = 0, rdDeadline = None, connClosed = False, rdAhead = 0, written = []\<rparr>"

text \<open>The calls before the read loop, and the two handlers the library runs inside \<open>ReadMessage\<close>.\<close>

definition configure_conn :: "gotime \<Rightarrow> ws_conn \<Rightarrow> ws_conn" where
  "configure_conn now c = c\<lparr>rdLimit := wsReadLimit, rdDeadline := Some (time_Add now wsPongWait)\<rparr>"

definition ping_handler :: "gotime \<Rightarrow> string \<Rightarrow> ws_conn \<Rightarrow> ws_conn" where
  "ping_handler now appData c =
     c\<lparr>rdDeadline := Some (time_Add now wsPongWait), written := written c @ [PongMessage appData (time_Add now wsWriteWait)]\<rparr>"

definition pong_handler :: "gotime \<Rightarrow> ws_conn \<Rightarrow> ws_conn" where
  "pong_handler now c = c\<lparr>rdDeadline := Some (time_Add now wsPongWait)\<rparr>"

text \<open>What a read meets: a data message, a control frame with the error its handler's call returns,
  or a failure.\<close>

datatype ws_frame = Data string | Ping string "goerror option" | Pong "goerror option" | Fault goerror

fun frame_error :: "ws_frame \<Rightarrow> goerror option" where
  "frame_error (Data raw) = None"
| "frame_error (Ping appData err) = err"
| "frame_error (Pong err) = err"
| "frame_error (Fault e) = Some e"

section \<open>Workers\<close>

text \<open>The watcher's select: waiting, past its close frame, or returned.\<close>

datatype watcher = Watching | CloseWritten | WatcherDone

definition watcher_write :: "gotime \<Rightarrow> ws_conn \<Rightarrow> ws_conn" where
  "watcher_write now c = c\<lparr>written := written c @ [CloseMessage (time_Add now wsWriteWait)]\<rparr>"

definition conn_Close :: "ws_conn \<Rightarrow> ws_conn" where
  "conn_Close c = c\<lparr>connClosed := True\<rparr>"

text \<open>Where the worker is: in \<open>dialBinanceTrade\<close>, connected, in \<open>ReadMessage\<close>, handling a message (with
  the instant it was read), in its deferred calls, back
  in \<open>WithBackoff\<close> with the result, in its select, or returned. The instant is that of \<open>start\<close>.\<close>

datatype phase =
    Dialing gotime
  | Connected gotime ws_conn watcher
  | Reading gotime ws_conn watcher
  | Handling gotime ws_conn watcher string gotime
  | Closing gotime "goerror option"
  | Returned gotime "goerror option"
  | Waiting gotime
  | WsStopped
  | WorkerPanic

text \<open>A worker: its symbol, its backoff, its phase, the watchers of ended sessions that have not yet
  returned; and, for the statements, the messages it has read and handled and when it last
  configured the connection or answered a control frame.\<close>

record ws_worker =
  wkSym :: string
  wkBackoff :: Backoff
  wkPhase :: phase
  wkOrphans :: nat
  wkMsgs :: "(string \<times> gotime) list"
  wkHeard :: gotime

record shared =
  shNow :: gotime
  shCtx :: ctx
  shHealth :: wsHealth
  shBuf :: "(nat \<times> prod_record) list"
  shDone :: nat

text \<open>\<open>Publish\<close> on the shared producer, each record with the index of the worker that made it.\<close>

definition tagged_publish :: "nat \<Rightarrow> (nat \<times> prod_record) list tradePublisher" where
  "tagged_publish k event buf = (let (rs, err) = Publisher_Publish event [] in (buf @ map (Pair k) rs, err))"

text \<open>The watcher left behind when a session ends.\<close>

definition left_behind :: "watcher \<Rightarrow> nat" where
  "left_behind w = (if w = WatcherDone then 0 else 1)"

datatype wlabel = Own | Frame ws_frame | Handled

record ws_env =
  gives :: "ws_conn \<Rightarrow> gotime \<Rightarrow> ws_frame \<Rightarrow> bool"
  blocks :: "ws_conn \<Rightarrow> gotime \<Rightarrow> bool"
  ahead :: "ws_conn \<Rightarrow> gotime \<Rightarrow> nat \<Rightarrow> bool"
  dials :: "ctx \<Rightarrow> (string \<Rightarrow> goerror option) \<Rightarrow> bool"
  maxBuffered :: nat

text \<open>The producer's buffer: the records handed over whose delivery has not been reported, at most
  \<open>maxBuffered\<close>. \<open>Produce\<close>, called with \<open>context.Background()\<close>, waits for room whatever the worker's context is.\<close>

definition has_room :: "ws_env \<Rightarrow> shared \<Rightarrow> bool" where
  "has_room env sh = (length (shBuf sh) - shDone sh < maxBuffered env)"

inductive worker_step ::
  "unicode \<Rightarrow> (string \<Rightarrow> goerror) \<Rightarrow> ws_env \<Rightarrow> nat \<Rightarrow> shared \<Rightarrow> ws_worker \<Rightarrow> wlabel \<Rightarrow> shared \<Rightarrow> ws_worker \<Rightarrow> bool"
  for U jerr env k where
  dial_fails: "wkPhase w = Dialing st \<Longrightarrow> dials env (shCtx sh) dial \<Longrightarrow> dialBinanceTrade dial (wkSym w) = Some e \<Longrightarrow>
    worker_step U jerr env k sh w Own sh (w\<lparr>wkPhase := Returned st (Some (Wrapf (''dial '' @ wkSym w @ '': '') e))\<rparr>)"
| dial_connects: "wkPhase w = Dialing st \<Longrightarrow> dials env (shCtx sh) dial \<Longrightarrow> dialBinanceTrade dial (wkSym w) = None \<Longrightarrow>
    worker_step U jerr env k sh w Own (sh\<lparr>shHealth := setConnected (wkSym w) True (shHealth sh)\<rparr>)
      (w\<lparr>wkPhase := Connected st fresh_conn Watching\<rparr>)"
| configures: "wkPhase w = Connected st c x \<Longrightarrow>
    worker_step U jerr env k sh w Own sh (w\<lparr>wkPhase := Reading st (configure_conn (shNow sh) c) x, wkHeard := shNow sh\<rparr>)"
| watcher_writes_early: "wkPhase w = Connected st c Watching \<Longrightarrow> shCtx sh \<noteq> None \<Longrightarrow>
    worker_step U jerr env k sh w Own sh (w\<lparr>wkPhase := Connected st (watcher_write (shNow sh) c) CloseWritten\<rparr>)"
| watcher_closes_early: "wkPhase w = Connected st c CloseWritten \<Longrightarrow>
    worker_step U jerr env k sh w Own sh (w\<lparr>wkPhase := Connected st (conn_Close c) WatcherDone\<rparr>)"
| watcher_writes: "wkPhase w = Reading st c Watching \<Longrightarrow> shCtx sh \<noteq> None \<Longrightarrow>
    worker_step U jerr env k sh w Own sh (w\<lparr>wkPhase := Reading st (watcher_write (shNow sh) c) CloseWritten\<rparr>)"
| watcher_closes: "wkPhase w = Reading st c CloseWritten \<Longrightarrow>
    worker_step U jerr env k sh w Own sh (w\<lparr>wkPhase := Reading st (conn_Close c) WatcherDone\<rparr>)"
| reads_data: "wkPhase w = Reading st c x \<Longrightarrow> gives env c (shNow sh) (Data raw) \<Longrightarrow> ahead env c (shNow sh) n \<Longrightarrow>
    worker_step U jerr env k sh w (Frame (Data raw)) sh (w\<lparr>wkPhase := Handling st (c\<lparr>rdAhead := n\<rparr>) x raw (shNow sh)\<rparr>)"
| handles: "wkPhase w = Handling st c x raw t \<Longrightarrow>
    read_loop U jerr (wkSym w) (tagged_publish k) [ReadMsg raw t] (shBuf sh) = (buf, lg, InSession) \<Longrightarrow>
    buf = shBuf sh \<or> has_room env sh \<Longrightarrow>
    worker_step U jerr env k sh w Handled (sh\<lparr>shBuf := buf\<rparr>) (w\<lparr>wkPhase := Reading st c x, wkMsgs := wkMsgs w @ [(raw, t)]\<rparr>)"
| watcher_writes_handling: "wkPhase w = Handling st c Watching raw t \<Longrightarrow> shCtx sh \<noteq> None \<Longrightarrow>
    worker_step U jerr env k sh w Own sh (w\<lparr>wkPhase := Handling st (watcher_write (shNow sh) c) CloseWritten raw t\<rparr>)"
| watcher_closes_handling: "wkPhase w = Handling st c CloseWritten raw t \<Longrightarrow>
    worker_step U jerr env k sh w Own sh (w\<lparr>wkPhase := Handling st (conn_Close c) WatcherDone raw t\<rparr>)"
| reads_ping: "wkPhase w = Reading st c x \<Longrightarrow> gives env c (shNow sh) (Ping d None) \<Longrightarrow> ahead env c (shNow sh) n \<Longrightarrow>
    worker_step U jerr env k sh w (Frame (Ping d None)) sh
      (w\<lparr>wkPhase := Reading st (ping_handler (shNow sh) d (c\<lparr>rdAhead := n\<rparr>)) x, wkHeard := shNow sh\<rparr>)"
| reads_pong: "wkPhase w = Reading st c x \<Longrightarrow> gives env c (shNow sh) (Pong None) \<Longrightarrow> ahead env c (shNow sh) n \<Longrightarrow>
    worker_step U jerr env k sh w (Frame (Pong None)) sh
      (w\<lparr>wkPhase := Reading st (pong_handler (shNow sh) (c\<lparr>rdAhead := n\<rparr>)) x, wkHeard := shNow sh\<rparr>)"
| reads_error: "wkPhase w = Reading st c x \<Longrightarrow> gives env c (shNow sh) f \<Longrightarrow> frame_error f = Some e \<Longrightarrow>
    read_loop U jerr (wkSym w) (tagged_publish k) [ReadErr e (shCtx sh)] (shBuf sh) = (buf, lg, Ended res) \<Longrightarrow>
    worker_step U jerr env k sh w Own (sh\<lparr>shBuf := buf\<rparr>)
      (w\<lparr>wkPhase := Closing st res, wkOrphans := wkOrphans w + left_behind x\<rparr>)"
| disconnects: "wkPhase w = Closing st res \<Longrightarrow>
    worker_step U jerr env k sh w Own (sh\<lparr>shHealth := setConnected (wkSym w) False (shHealth sh)\<rparr>)
      (w\<lparr>wkPhase := Returned st res\<rparr>)"
| stops: "wkPhase w = Returned st res \<Longrightarrow> shCtx sh \<noteq> None \<Longrightarrow>
    worker_step U jerr env k sh w Own sh (w\<lparr>wkPhase := WsStopped\<rparr>)"
| backs_off: "wkPhase w = Returned st res \<Longrightarrow> shCtx sh = None \<Longrightarrow> rng_ok rnd \<Longrightarrow>
    Next rnd (Observe (time_Sub (shNow sh) st) (wkBackoff w)) = (b, Some delay) \<Longrightarrow>
    worker_step U jerr env k sh w Own sh (w\<lparr>wkPhase := Waiting (time_Add (shNow sh) delay), wkBackoff := b\<rparr>)"
| backoff_panics: "wkPhase w = Returned st res \<Longrightarrow> shCtx sh = None \<Longrightarrow> rng_ok rnd \<Longrightarrow>
    Next rnd (Observe (time_Sub (shNow sh) st) (wkBackoff w)) = (b, None) \<Longrightarrow>
    worker_step U jerr env k sh w Own sh (w\<lparr>wkPhase := WorkerPanic, wkBackoff := b\<rparr>)"
| wait_cancelled: "wkPhase w = Waiting u \<Longrightarrow> shCtx sh \<noteq> None \<Longrightarrow>
    worker_step U jerr env k sh w Own sh (w\<lparr>wkPhase := WsStopped\<rparr>)"
| wait_over: "wkPhase w = Waiting u \<Longrightarrow> u \<le> shNow sh \<Longrightarrow>
    worker_step U jerr env k sh w Own sh (w\<lparr>wkPhase := Dialing (shNow sh)\<rparr>)"
| orphan_returns: "wkOrphans w = Suc n \<Longrightarrow>
    worker_step U jerr env k sh w Own sh (w\<lparr>wkOrphans := n\<rparr>)"

section \<open>The service\<close>

record ing =
  igShared :: shared
  igWorkers :: "ws_worker list"
  igPub :: Publisher
  igOutcomes :: outcomes

definition new_worker :: "gotime \<Rightarrow> string \<Rightarrow> ws_worker" where
  "new_worker now sb = \<lparr>wkSym = sb, wkBackoff = NewBackoff, wkPhase = Dialing now, wkOrphans = 0, wkMsgs = [], wkHeard = now\<rparr>"

text \<open>\<open>Run\<close> has built the producer and started its workers.\<close>

definition ing_init :: "unicode \<Rightarrow> string list \<Rightarrow> gotime \<Rightarrow> ing" where
  "ing_init U configured now =
     (let symbols = normalizeSymbols U configured
      in \<lparr>igShared = \<lparr>shNow = now, shCtx = None, shHealth = newWSHealth symbols, shBuf = [], shDone = 0\<rparr>,
          igWorkers = map (new_worker now) symbols, igPub = fresh_publisher, igOutcomes = []\<rparr>)"

datatype ilabel = Worker nat wlabel | Tick | CancelRun | Delivered

text \<open>Time passes only as far as every pending read may stay blocked.\<close>

definition may_wait :: "ws_env \<Rightarrow> gotime \<Rightarrow> ws_worker \<Rightarrow> bool" where
  "may_wait env t w = (case wkPhase w of Reading st c x \<Rightarrow> blocks env c t | _ \<Rightarrow> True)"

inductive ing_step :: "unicode \<Rightarrow> (string \<Rightarrow> goerror) \<Rightarrow> ws_env \<Rightarrow> ing \<Rightarrow> ilabel \<Rightarrow> ing \<Rightarrow> bool" for U jerr env where
  works: "k < length (igWorkers s) \<Longrightarrow> worker_step U jerr env k (igShared s) (igWorkers s ! k) l sh w \<Longrightarrow>
    ing_step U jerr env s (Worker k l) (s\<lparr>igShared := sh, igWorkers := (igWorkers s)[k := w]\<rparr>)"
| ticks: "shNow (igShared s) \<le> t \<Longrightarrow> list_all (may_wait env t) (igWorkers s) \<Longrightarrow>
    ing_step U jerr env s Tick (s\<lparr>igShared := (igShared s)\<lparr>shNow := t\<rparr>\<rparr>)"
| cancels: "shCtx (igShared s) = None \<Longrightarrow>
    ing_step U jerr env s CancelRun (s\<lparr>igShared := (igShared s)\<lparr>shCtx := ctx_canceled\<rparr>\<rparr>)"
| delivers: "shDone (igShared s) < length (shBuf (igShared s)) \<Longrightarrow>
    ing_step U jerr env s Delivered
      (s\<lparr>igShared := (igShared s)\<lparr>shDone := Suc (shDone (igShared s))\<rparr>,
         igPub := onDelivery err (shNow (igShared s)) (igPub s), igOutcomes := igOutcomes s @ [(err, shNow (igShared s))]\<rparr>)"

inductive ing_reach :: "unicode \<Rightarrow> (string \<Rightarrow> goerror) \<Rightarrow> ws_env \<Rightarrow> ing \<Rightarrow> ing \<Rightarrow> bool" for U jerr env s0 where
  start: "ing_reach U jerr env s0 s0"
| step: "ing_reach U jerr env s0 s \<Longrightarrow> ing_step U jerr env s l t \<Longrightarrow> ing_reach U jerr env s0 t"

section \<open>What the code relies on\<close>

text \<open>The documented behaviour of the library: a read does not stay blocked on a closed connection or
  past its deadline; then it fails, unless frames are left that were read ahead, and each read
  leaves fewer of them; a message is not longer than the read limit; a read that cannot stay
  blocked returns something, and a dial does.\<close>

definition expired :: "ws_conn \<Rightarrow> gotime \<Rightarrow> bool" where
  "expired c t = (connClosed c \<or> (case rdDeadline c of None \<Rightarrow> False | Some d \<Rightarrow> d < t))"

definition ws_library :: "ws_env \<Rightarrow> bool" where
  "ws_library env =
     ((\<forall>c t. blocks env c t \<longrightarrow> \<not> expired c t) \<and>
      (\<forall>c t f. gives env c t f \<and> expired c t \<longrightarrow> (\<exists>e. f = Fault e) \<or> 0 < rdAhead c) \<and>
      (\<forall>c t n. ahead env c t n \<and> expired c t \<longrightarrow> n < rdAhead c) \<and>
      (\<forall>c t f. gives env c t f \<and> frame_error f = None \<longrightarrow> (\<exists>n. ahead env c t n)) \<and>
      (\<forall>c t raw. gives env c t (Data raw) \<and> 0 < rdLimit c \<longrightarrow> int (length raw) \<le> rdLimit c) \<and>
      (\<forall>c t. \<not> blocks env c t \<longrightarrow> (\<exists>f. gives env c t f)) \<and>
      (\<forall>ctx. \<exists>dial. dials env ctx dial))"

section \<open>Invariants\<close>

text \<open>The phases between \<open>setConnected(true)\<close> and \<open>setConnected(false)\<close>.\<close>

fun in_connection :: "phase \<Rightarrow> bool" where
  "in_connection (Connected st c x) = True"
| "in_connection (Reading st c x) = True"
| "in_connection (Handling st c x raw t) = True"
| "in_connection (Closing st res) = True"
| "in_connection _ = False"

text \<open>The records of a list of trades, in order; a trade that cannot be marshalled has none.\<close>

definition produced :: "TradeEvent list \<Rightarrow> prod_record list" where
  "produced es = concat (map (\<lambda>e. fst (Publisher_Publish e [])) es)"

definition sent_by :: "nat \<Rightarrow> (nat \<times> 'a) list \<Rightarrow> 'a list" where
  "sent_by k buf = map snd (filter (\<lambda>x. fst x = k) buf)"

definition conn_ok :: "gotime \<Rightarrow> ws_conn \<Rightarrow> watcher \<Rightarrow> bool" where
  "conn_ok heard c x =
     ((x = WatcherDone \<longrightarrow> connClosed c) \<and> rdLimit c = wsReadLimit \<and> rdDeadline c = Some (time_Add heard wsPongWait))"

fun phase_ok :: "gotime \<Rightarrow> gotime \<Rightarrow> phase \<Rightarrow> bool" where
  "phase_ok now heard (Connected st c x) = (x = WatcherDone \<longrightarrow> connClosed c)"
| "phase_ok now heard (Reading st c x) = conn_ok heard c x"
| "phase_ok now heard (Handling st c x raw t) = (conn_ok heard c x \<and> int (length raw) \<le> wsReadLimit)"
| "phase_ok now heard (Waiting u) = (u \<le> now + 30000000000)"
| "phase_ok now heard WorkerPanic = False"
| "phase_ok now heard _ = True"

definition worker_local :: "gotime \<Rightarrow> ws_worker \<Rightarrow> bool" where
  "worker_local now w =
     (backoff_ok (wkBackoff w) \<and> sint (Max (wkBackoff w)) = 30000000000 \<and> wkHeard w \<le> now \<and>
      phase_ok now (wkHeard w) (wkPhase w) \<and> (\<forall>(raw, t) \<in> set (wkMsgs w). int (length raw) \<le> wsReadLimit))"

definition worker_shared :: "unicode \<Rightarrow> (string \<Rightarrow> goerror) \<Rightarrow> shared \<Rightarrow> nat \<Rightarrow> ws_worker \<Rightarrow> bool" where
  "worker_shared U jerr sh k w =
     (map_of (connected (shHealth sh)) (wkSym w) = Some (in_connection (wkPhase w)) \<and>
      sent_by k (shBuf sh) = produced (accepted U jerr (wkMsgs w)))"

definition ing_ok :: "unicode \<Rightarrow> (string \<Rightarrow> goerror) \<Rightarrow> string list \<Rightarrow> ing \<Rightarrow> bool" where
  "ing_ok U jerr symbols s =
     (map wkSym (igWorkers s) = symbols \<and>
      distinct (map fst (connected (shHealth (igShared s)))) \<and>
      dom (map_of (connected (shHealth (igShared s)))) = set symbols \<and>
      igPub s = deliveries (igOutcomes s) fresh_publisher \<and>
      (\<forall>x \<in> set (shBuf (igShared s)). fst x < length symbols) \<and>
      (\<forall>k < length (igWorkers s). worker_local (shNow (igShared s)) (igWorkers s ! k) \<and>
         worker_shared U jerr (igShared s) k (igWorkers s ! k)))"

section \<open>Lemmas\<close>

lemma ws_libraryD:
  assumes "ws_library env"
  shows "blocks env c t \<Longrightarrow> \<not> expired c t"
    and "ahead env c t n \<Longrightarrow> expired c t \<Longrightarrow> n < rdAhead c"
    and "gives env c t (Data raw) \<Longrightarrow> 0 < rdLimit c \<Longrightarrow> int (length raw) \<le> rdLimit c"
    and "\<not> blocks env c t \<Longrightarrow> \<exists>f. gives env c t f"
    and "\<exists>dial. dials env ctx dial"
    and "gives env c t f \<Longrightarrow> frame_error f = None \<Longrightarrow> \<exists>n. ahead env c t n"
  using assms unfolding ws_library_def by blast+

lemma produced_simps [simp]:
  "produced [] = []" "produced (es @ es') = produced es @ produced es'"
  by (simp_all add: produced_def)

lemma sent_by_simps [simp]:
  "sent_by k [] = []" "sent_by k (buf @ buf') = sent_by k buf @ sent_by k buf'"
  "sent_by k (map (Pair k) rs) = rs" "k' \<noteq> k \<Longrightarrow> sent_by k (map (Pair k') rs) = []"
  by (simp_all add: sent_by_def filter_map comp_def)

lemma accepted_append [simp]: "accepted U jerr (ms @ ms') = accepted U jerr ms @ accepted U jerr ms'"
  by (simp add: accepted_def List.map_filter_def)

lemma fold_tagged:
  "fold (\<lambda>e s. fst (tagged_publish k e s)) es buf = buf @ map (Pair k) (produced es)"
  by (induction es arbitrary: buf) (simp_all add: tagged_publish_def produced_def split: prod.split)

lemma read_one:
  "read_loop U jerr sb (tagged_publish k) [ReadMsg raw t] buf = (buf', lg, res) \<Longrightarrow>
     buf' = buf @ map (Pair k) (produced (accepted U jerr [(raw, t)]))"
  using read_loop_eq [of U jerr sb "tagged_publish k" "[ReadMsg raw t]" buf]
  by (auto simp: fold_tagged simp del: accepted_simps)

lemma time_Add_pong [simp]: "time_Add t wsPongWait = t + 60000000000"
  by (simp add: time_Add_def wsPongWait_def)

lemma Next_default:
  assumes "backoff_ok b" "sint (Max b) = 30000000000" "rng_ok rnd" "Next rnd (Observe up b) = (b', d)"
  shows "backoff_ok b' \<and> sint (Max b') = 30000000000 \<and> (\<exists>w. d = Some w \<and> 0 \<le> sint w \<and> sint w \<le> 30000000000)"
  using backoff.next_ok [OF _ assms(3,4)] backoff.observe_ok [OF assms(1), of up] assms(2) by simp

text \<open>What a step of one worker leaves alone.\<close>

lemma worker_step_frame:
  assumes "worker_step U jerr env k sh w l sh' w'"
  shows "shNow sh' = shNow sh" "shCtx sh' = shCtx sh" "wkSym w' = wkSym w"
    and "shHealth sh' = shHealth sh \<or> (\<exists>ok. shHealth sh' = setConnected (wkSym w) ok (shHealth sh))"
    and "\<exists>rs. shBuf sh' = shBuf sh @ map (Pair k) rs"
  using assms by (induction rule: worker_step.induct) (auto simp del: read_loop.simps(3) dest!: read_one)

lemma worker_step_shared:
  assumes "worker_step U jerr env k sh w l sh' w'" "worker_shared U jerr sh k w"
  shows "worker_shared U jerr sh' k w'"
  using assms
  by (induction rule: worker_step.induct)
     (auto simp: worker_shared_def setConnected_map simp del: accepted_simps read_loop.simps(3) dest!: read_one)

lemma other_shared:
  assumes "worker_step U jerr env k sh w l sh' w'" "worker_shared U jerr sh j v" "j \<noteq> k" "wkSym v \<noteq> wkSym w"
  shows "worker_shared U jerr sh' j v"
  using assms(2-4) worker_step_frame(4,5) [OF assms(1)] by (auto simp: worker_shared_def setConnected_map)

lemma worker_step_local:
  assumes "worker_step U jerr env k sh w l sh' w'" "worker_local (shNow sh) w" "ws_library env"
  shows "worker_local (shNow sh) w'"
  using assms(1,2)
proof (induction rule: worker_step.induct)
  case (reads_data w st c x sh raw n)
  then have "int (length raw) \<le> wsReadLimit"
    using ws_libraryD(3) [OF assms(3), of c "shNow sh" raw] by (auto simp: worker_local_def conn_ok_def wsReadLimit_def)
  with reads_data show ?case by (auto simp: worker_local_def conn_ok_def)
next
  case (backs_off w st res sh rnd b delay)
  with Next_default [of "wkBackoff w" rnd] show ?case by (auto simp: worker_local_def time_Add_def)
next
  case (backoff_panics w st res sh rnd b)
  with Next_default [of "wkBackoff w" rnd] show ?case by (auto simp: worker_local_def)
qed (auto simp: worker_local_def conn_ok_def configure_conn_def ping_handler_def pong_handler_def watcher_write_def conn_Close_def)

lemma tick_local:
  assumes "worker_local now w" "now \<le> t"
  shows "worker_local t w"
proof -
  have "phase_ok t (wkHeard w) (wkPhase w)"
    using assms by (cases "wkPhase w") (auto simp: worker_local_def)
  with assms show ?thesis by (simp add: worker_local_def)
qed

text \<open>Every step keeps the invariant of the service.\<close>

lemma ing_okI:
  assumes "ing_ok U jerr symbols s" "igWorkers t = igWorkers s" "shHealth (igShared t) = shHealth (igShared s)"
    and "shBuf (igShared t) = shBuf (igShared s)" "igPub t = deliveries (igOutcomes t) fresh_publisher"
    and "\<And>w. w \<in> set (igWorkers s) \<Longrightarrow> worker_local (shNow (igShared t)) w"
  shows "ing_ok U jerr symbols t"
  using assms by (simp add: ing_ok_def worker_shared_def)

lemma ing_ok_worker:
  assumes "ing_ok U jerr symbols s" "distinct symbols" "ws_library env" "k < length (igWorkers s)"
    and st: "worker_step U jerr env k (igShared s) (igWorkers s ! k) l sh w"
  shows "ing_ok U jerr symbols (s\<lparr>igShared := sh, igWorkers := (igWorkers s)[k := w]\<rparr>)"
proof -
  note f = worker_step_frame [OF st]
  let ?ws = "igWorkers s" and ?h = "connected (shHealth (igShared s))"
  have tags: "\<forall>x \<in> set (shBuf sh). fst x < length symbols"
    using assms(1,4) f(5) by (auto simp: ing_ok_def)
  have ok: "map wkSym ?ws = symbols" "distinct (map fst ?h)" "dom (map_of ?h) = set symbols"
    "igPub s = deliveries (igOutcomes s) fresh_publisher"
    "\<And>j. j < length ?ws \<Longrightarrow> worker_local (shNow (igShared s)) (?ws ! j) \<and> worker_shared U jerr (igShared s) j (?ws ! j)"
    using assms(1) by (auto simp: ing_ok_def)
  have syms: "map wkSym (?ws[k := w]) = symbols"
    using ok(1) assms(4) f(3) by (metis list_update_id map_update nth_map)
  have "wkSym (?ws ! k) \<in> set symbols" using ok(1) assms(4) by auto
  then have health: "distinct (map fst (connected (shHealth sh)))" "dom (map_of (connected (shHealth sh))) = set symbols"
    using f(4) ok(2,3) by (elim disjE exE; simp add: setConnected_map setConnected_distinct insert_absorb)+
  have "worker_local (shNow sh) (?ws[k := w] ! j) \<and> worker_shared U jerr sh j (?ws[k := w] ! j)" if "j < length ?ws" for j
  proof (cases "j = k")
    case True
    then show ?thesis
      using that worker_step_local [OF st _ assms(3)] worker_step_shared [OF st] ok(5) [OF assms(4)] f(1) by simp
  next
    case False
    have "map wkSym ?ws ! j \<noteq> map wkSym ?ws ! k"
      using False that assms(2,4) ok(1) by (metis length_map nth_eq_iff_index_eq)
    then have "wkSym (?ws ! j) \<noteq> wkSym (?ws ! k)" using that assms(4) by simp
    with False that show ?thesis using other_shared [OF st, of j "?ws ! j"] ok(5) [OF that] f(1) by simp
  qed
  with syms health ok(4) tags show ?thesis by (simp add: ing_ok_def)
qed

lemma ing_ok_step:
  assumes "ing_step U jerr env s l t" "ing_ok U jerr symbols s" "distinct symbols" "ws_library env"
  shows "ing_ok U jerr symbols t"
  using assms(1,2)
proof (induction rule: ing_step.induct)
  case (works k s l sh w)
  then show ?case using ing_ok_worker assms(3,4) by blast
next
  case (ticks s t)
  have "worker_local t w" if "w \<in> set (igWorkers s)" for w
    using tick_local [of "shNow (igShared s)" w t] that ticks
    by (auto simp: ing_ok_def list_all_iff in_set_conv_nth)
  with ticks show ?case by (intro ing_okI [OF ticks(3)]) (auto simp: ing_ok_def)
next
  case (cancels s)
  then show ?case by (intro ing_okI [OF cancels(2)]) (auto simp: ing_ok_def in_set_conv_nth)
next
  case (delivers s err)
  then show ?case by (intro ing_okI [OF delivers(2)]) (auto simp: ing_ok_def deliveries_snoc in_set_conv_nth)
qed

lemma ing_ok_init: "ing_ok U jerr (normalizeSymbols U configured) (ing_init U configured now)"
proof -
  have "worker_local now (new_worker now sb)" for sb
    by (simp add: worker_local_def new_worker_def backoff_ok_ops(4)) (simp add: NewBackoff_def sint_defaults)
  moreover have "worker_shared U jerr \<lparr>shNow = now, shCtx = None, shHealth = newWSHealth syms, shBuf = [], shDone = 0\<rparr> k (new_worker now sb)"
    if "sb \<in> set syms" for syms k sb
    using that by (simp add: worker_shared_def new_worker_def newWSHealth_map)
  moreover have "dom (map_of (connected (newWSHealth syms))) = set syms" for syms
    unfolding dom_def by (auto simp: newWSHealth_map(1))
  ultimately show ?thesis
    by (simp add: ing_ok_def ing_init_def Let_def newWSHealth_map(2) deliveries_def comp_def del: dom_map_of_conv_image_fst)
       (simp add: new_worker_def)
qed

lemma normalizeSymbols_distinct_list: "distinct (normalizeSymbols U ss)"
  by (simp add: normalizeSymbols_eq first_seen_set)

lemma ing_reach_ok:
  assumes "ing_reach U jerr env (ing_init U configured now) s" "ws_library env"
  shows "ing_ok U jerr (normalizeSymbols U configured) s"
  using assms(1)
  by (induction rule: ing_reach.induct)
     (use ing_ok_init ing_ok_step normalizeSymbols_distinct_list assms(2) in blast)+

section \<open>The ops report\<close>

text \<open>The checkers that \<open>New\<close> and \<open>Run\<close> registered, which read the current state; none has details.\<close>

definition ing_registry :: "(duration \<Rightarrow> goerror option) \<Rightarrow> (duration \<Rightarrow> int) \<Rightarrow> ing \<Rightarrow> unit healthRegistry" where
  "ing_registry ping tm s =
     health_add (producer_checker ping tm (shNow (igShared s)) (igPub s))
       (health_add (ws_checker (shHealth (igShared s))) \<lparr>checkers = []\<rparr>)"

lemma ing_registry_init:
  assumes "normalizeSymbols U configured \<noteq> []"
  shows "fst (ingestion_Run (normalizeSymbols U configured) (Inr fresh_publisher) (producer_checker ping tm now) res
      (snd (snd (ingestion_New U configured \<lparr>checkers = []\<rparr>)))) = ing_registry ping tm (ing_init U configured now)"
  using assms by (simp add: ingestion_Run_def ingestion_New_def ing_registry_def ing_init_def Let_def)

lemma ing_down:
  assumes "ing_ok U jerr symbols s"
  shows "map_of (connected (shHealth (igShared s))) sb = Some False \<longleftrightarrow>
    (\<exists>w \<in> set (igWorkers s). wkSym w = sb \<and> \<not> in_connection (wkPhase w))"
proof -
  let ?m = "map_of (connected (shHealth (igShared s)))"
  have w: "?m (wkSym w) = Some (in_connection (wkPhase w))" if "w \<in> set (igWorkers s)" for w
    using that assms by (auto simp: ing_ok_def worker_shared_def in_set_conv_nth)
  have "sb \<in> wkSym ` set (igWorkers s)" if "?m sb = Some False"
  proof -
    have "sb \<in> dom ?m" using that by blast
    then show ?thesis using assms unfolding ing_ok_def by (metis set_map)
  qed
  with w show ?thesis by fastforce
qed

lemma ing_ws_check:
  assumes "ing_ok U jerr symbols s"
  shows "wsHealth_Check (shHealth (igShared s)) =
    (let down = {wkSym w | w. w \<in> set (igWorkers s) \<and> \<not> in_connection (wkPhase w)}
     in if down = {} then None else Some (Errorf (''disconnected '' @ show_strings (sorted_list_of_set down))))"
proof -
  let ?h = "shHealth (igShared s)"
  have d: "distinct (map fst (connected ?h))" using assms by (simp add: ing_ok_def)
  have down: "{sb. map_of (connected ?h) sb = Some False} = {wkSym w | w. w \<in> set (igWorkers s) \<and> \<not> in_connection (wkPhase w)}"
    unfolding ing_down [OF assms] by blast
  have "map fst (filter (\<lambda>(sb, ok). \<not> ok) (connected ?h)) = [] \<longleftrightarrow> {sb. map_of (connected ?h) sb = Some False} = {}"
    using d by (auto simp: map_of_eq_Some_iff filter_empty_conv)
  then show ?thesis
    using sorted_down [OF d] unfolding down by (simp add: wsHealth_Check_def Let_def)
qed

lemma ing_producer_streak:
  assumes "ing_ok U jerr symbols s" "length (igOutcomes s) < 2 ^ 64"
  shows "consecutiveFailures (igPub s) = 0 \<longleftrightarrow> igOutcomes s = [] \<or> fst (last (igOutcomes s)) = None"
proof -
  have "failing_streak (igOutcomes s) = 0 \<longleftrightarrow> igOutcomes s = [] \<or> fst (last (igOutcomes s)) = None"
    by (cases "igOutcomes s" rule: rev_cases) (auto split: if_splits)
  moreover have "igPub s = deliveries (igOutcomes s) fresh_publisher" using assms(1) by (simp add: ing_ok_def)
  ultimately show ?thesis
    using deliveries_state [of "igOutcomes s"] failing_streak_le [of "igOutcomes s"] assms(2)
    by (simp add: of_nat64_zero)
qed

section \<open>Shutdown\<close>







text \<open>A worker inside \<open>Produce\<close> on a full buffer.\<close>

definition stuck_in_Produce :: "ws_env \<Rightarrow> shared \<Rightarrow> ws_worker \<Rightarrow> bool" where
  "stuck_in_Produce env sh w =
     ((\<exists>st c x raw t. wkPhase w = Handling st c x raw t) \<and> maxBuffered env \<le> length (shBuf sh) - shDone sh)"




lemma handles_or_stuck:
  assumes "wkPhase w = Handling st c x raw t" "\<not> stuck_in_Produce env sh w"
  shows "\<exists>sh' w'. worker_step U jerr env k sh w Handled sh' w'"
proof -
  obtain buf lg res where r: "read_loop U jerr (wkSym w) (tagged_publish k) [ReadMsg raw t] (shBuf sh) = (buf, lg, res)"
    by (metis prod_cases3)
  have "res = InSession"
    using read_loop_eq [of U jerr "wkSym w" "tagged_publish k" "[ReadMsg raw t]" "shBuf sh"] r by auto
  moreover have "has_room env sh" using assms by (auto simp: stuck_in_Produce_def has_room_def)
  ultimately show ?thesis using handles [OF assms(1)] r by blast
qed




section \<open>A library that answers\<close>

text \<open>A WebSocket library with the laws: any frame within the limit while the connection is good or
  frames are left, a failure afterwards, and a dial that connects; and a producer that holds ten
  thousand records.\<close>

definition sample_env :: ws_env where
  "sample_env =
     \<lparr>gives = (\<lambda>c t f. if expired c t \<and> rdAhead c = 0 then f = Fault (Errorf ''i/o timeout'')
                        else (case f of Data raw \<Rightarrow> rdLimit c \<le> 0 \<or> int (length raw) \<le> rdLimit c | _ \<Rightarrow> True)),
      blocks = (\<lambda>c t. \<not> expired c t), ahead = (\<lambda>c t n. expired c t \<longrightarrow> n < rdAhead c),
      dials = (\<lambda>_ dial. dial = (\<lambda>_. None)), maxBuffered = 10000\<rparr>"

lemma sample_env_library: "ws_library sample_env"
  unfolding ws_library_def
proof (intro conjI allI impI; (elim conjE)?)
  show "\<exists>n. ahead sample_env c t n" if "gives sample_env c t f" "frame_error f = None" for c t f
    using that by (cases f) (auto simp: sample_env_def split: if_splits)
  show "(\<exists>e. f = Fault e) \<or> 0 < rdAhead c" if "gives sample_env c t f" "expired c t" for c t f
    using that by (auto simp: sample_env_def split: if_splits)
  show "int (length raw) \<le> rdLimit c" if "gives sample_env c t (Data raw)" "0 < rdLimit c" for c t raw
    using that by (auto simp: sample_env_def split: if_splits)
  show "\<exists>f. gives sample_env c t f" for c t
    by (rule exI [of _ "Fault (Errorf ''i/o timeout'')"]) (simp add: sample_env_def)
qed (simp_all add: sample_env_def)

abbreviation sample_ing :: ing where
  "sample_ing \<equiv> ing_init ascii_tables [''BTCUSDT''] 0"

abbreviation sample_reach :: "ing \<Rightarrow> bool" where
  "sample_reach \<equiv> ing_reach ascii_tables (\<lambda>_. Errorf []) sample_env sample_ing"

lemma sample_symbols: "normalizeSymbols ascii_tables [''BTCUSDT''] = [''btcusdt'']"
  by code_simp

text \<open>A worker that has connected and reads.\<close>

lemma sample_reading:
  obtains s where "sample_reach s" "length (igWorkers s) = 1" "igOutcomes s = []" "shNow (igShared s) = 0"
    "wkMsgs (igWorkers s ! 0) = []"
    "wkPhase (igWorkers s ! 0) = Reading 0 (configure_conn 0 fresh_conn) Watching"
    "shDone (igShared s) = 0" "shBuf (igShared s) = []"
proof -
  let ?w = "new_worker 0 ''btcusdt''" and ?sh = "igShared sample_ing"
  have i: "igWorkers sample_ing = [?w]" "?sh = \<lparr>shNow = 0, shCtx = None, shHealth = newWSHealth [''btcusdt''], shBuf = [], shDone = 0\<rparr>"
    "igOutcomes sample_ing = []"
    by (simp_all add: ing_init_def Let_def sample_symbols)
  let ?w1 = "?w\<lparr>wkPhase := Connected 0 fresh_conn Watching\<rparr>"
  let ?sh1 = "?sh\<lparr>shHealth := setConnected (wkSym ?w) True (shHealth ?sh)\<rparr>"
  let ?w2 = "?w1\<lparr>wkPhase := Reading 0 (configure_conn (shNow ?sh1) fresh_conn) Watching, wkHeard := shNow ?sh1\<rparr>"
  have "worker_step ascii_tables (\<lambda>_. Errorf []) sample_env 0 ?sh ?w Own ?sh1 ?w1"
    by (rule dial_connects [where dial = "\<lambda>_. None"]) (simp_all add: new_worker_def sample_env_def dialBinanceTrade_def)
  then have s1: "ing_step ascii_tables (\<lambda>_. Errorf []) sample_env sample_ing (Worker 0 Own)
      (sample_ing\<lparr>igShared := ?sh1, igWorkers := [?w1]\<rparr>)"
    using works [of 0 sample_ing ascii_tables "\<lambda>_. Errorf []" sample_env Own ?sh1 ?w1] by (simp add: i(1))
  have "worker_step ascii_tables (\<lambda>_. Errorf []) sample_env 0 ?sh1 ?w1 Own ?sh1 ?w2"
    by (rule configures) simp
  then have s2: "ing_step ascii_tables (\<lambda>_. Errorf []) sample_env (sample_ing\<lparr>igShared := ?sh1, igWorkers := [?w1]\<rparr>) (Worker 0 Own)
      (sample_ing\<lparr>igShared := ?sh1, igWorkers := [?w2]\<rparr>)"
    using works [of 0 "sample_ing\<lparr>igShared := ?sh1, igWorkers := [?w1]\<rparr>" ascii_tables "\<lambda>_. Errorf []" sample_env Own ?sh1 ?w2] by simp
  have "sample_reach (sample_ing\<lparr>igShared := ?sh1, igWorkers := [?w2]\<rparr>)"
    by (rule ing_reach.step [OF ing_reach.step [OF ing_reach.start s1] s2])
  then show thesis by (rule that) (simp_all add: i new_worker_def)
qed

text \<open>Then it reads a trade and publishes it.\<close>

lemma sample_read:
  obtains s where "sample_reach s" "0 < length (igWorkers s)" "wkMsgs (igWorkers s ! 0) = [(sample_raw, 0)]"
proof -
  obtain s where s: "sample_reach s" "length (igWorkers s) = 1" "wkMsgs (igWorkers s ! 0) = []" "shNow (igShared s) = 0"
    "wkPhase (igWorkers s ! 0) = Reading 0 (configure_conn 0 fresh_conn) Watching" "shDone (igShared s) = 0"
    "shBuf (igShared s) = []" by (rule sample_reading)
  let ?w = "igWorkers s ! 0" and ?sh = "igShared s" and ?c = "configure_conn 0 fresh_conn"
  let ?w1 = "?w\<lparr>wkPhase := Handling 0 (?c\<lparr>rdAhead := 0\<rparr>) Watching sample_raw (shNow ?sh)\<rparr>"
  let ?s1 = "s\<lparr>igShared := ?sh, igWorkers := (igWorkers s)[0 := ?w1]\<rparr>"
  have "gives sample_env ?c (shNow ?sh) (Data sample_raw)" "ahead sample_env ?c (shNow ?sh) 0"
    by (simp_all add: s(4) sample_env_def expired_def configure_conn_def fresh_conn_def wsReadLimit_def sample_raw_def)
  then have "worker_step ascii_tables (\<lambda>_. Errorf []) sample_env 0 ?sh ?w (Frame (Data sample_raw)) ?sh ?w1"
    by (rule reads_data [OF s(5)])
  then have "ing_step ascii_tables (\<lambda>_. Errorf []) sample_env s (Worker 0 (Frame (Data sample_raw))) ?s1"
    using s(2) by (intro works) simp_all
  then have s1: "sample_reach ?s1" by (rule ing_reach.step [OF s(1)])
  have ph: "wkPhase ?w1 = Handling 0 (?c\<lparr>rdAhead := 0\<rparr>) Watching sample_raw (shNow ?sh)" by simp
  have "\<not> stuck_in_Produce sample_env ?sh ?w1" by (simp add: stuck_in_Produce_def sample_env_def s(7))
  from handles_or_stuck [OF ph this] obtain sh' w' where
    h: "worker_step ascii_tables (\<lambda>_. Errorf []) sample_env 0 ?sh ?w1 Handled sh' w'" by blast
  then have "wkMsgs w' = [(sample_raw, 0)]" by (cases rule: worker_step.cases) (use s(3,4) in simp_all)
  let ?s2 = "?s1\<lparr>igShared := sh', igWorkers := (igWorkers ?s1)[0 := w']\<rparr>"
  have "ing_step ascii_tables (\<lambda>_. Errorf []) sample_env ?s1 (Worker 0 Handled) ?s2"
    using s(2) h by (intro works) simp_all
  then have "sample_reach ?s2" by (rule ing_reach.step [OF s1])
  then show thesis by (rule that) (use s(2) \<open>wkMsgs w' = _\<close> in simp_all)
qed

text \<open>What ingestion-service produces, in every state its goroutines can reach and however its
  workers interleave: the records of one worker in the producer's buffer, in order, are exactly
  those of the valid trades among the messages it has handled, in the order it read them and over
  all its connections; every record is some worker's, and no message is longer than a mebibyte.\<close>

lemma workers_publish:
  assumes "ing_reach U jerr env (ing_init U configured now) s" "ws_library env" "k < length (igWorkers s)"
  shows "sent_by k (shBuf (igShared s)) = produced (accepted U jerr (wkMsgs (igWorkers s ! k))) \<and>
    (\<forall>x \<in> set (shBuf (igShared s)). fst x < length (igWorkers s)) \<and>
    (\<forall>(raw, t) \<in> set (wkMsgs (igWorkers s ! k)). length raw \<le> 2 ^ 20)"
proof -
  note ok = ing_reach_ok [OF assms(1,2)]
  then have "length (igWorkers s) = length (normalizeSymbols U configured)" by (metis ing_ok_def length_map)
  moreover have "worker_local (shNow (igShared s)) (igWorkers s ! k)" "worker_shared U jerr (igShared s) k (igWorkers s ! k)"
    using ok assms(3) by (simp_all add: ing_ok_def)
  ultimately show ?thesis
    using ok by (force simp: ing_ok_def worker_local_def worker_shared_def wsReadLimit_def)
qed

section \<open>Properties\<close>

text \<open>C12. Readiness of ingestion-service means what it says, in every state its goroutines can reach:
  the ops server answers 200 exactly when every configured symbol's worker is between its
  connect and its disconnect, the broker answers a ping within the check's budget, and the last
  delivery, if there was one, succeeded; and the connection check names exactly the symbols
  whose worker is dialling, backing off or stopped.\<close>

theorem ingestion_readiness:
  assumes "ing_reach U jerr env (ing_init U configured now) s" "ws_library env" "length (igOutcomes s) < 2 ^ 64"
  shows "let up = (\<forall>w \<in> set (igWorkers s). in_connection (wkPhase w));
             down = {wkSym w | w. w \<in> set (igWorkers s) \<and> \<not> in_connection (wkPhase w)};
             report = handleHealth build left (ing_registry ping tm s)
         in map wkSym (igWorkers s) = normalizeSymbols U configured \<and>
            fst report = (if up \<and> ping (check_budget left) = None \<and>
                             (igOutcomes s = [] \<or> fst (last (igOutcomes s)) = None) then 200 else 503) \<and>
            hChecks (snd report) ''websocket'' =
              Some (if up then ''ok'' else ''disconnected '' @ show_strings (sorted_list_of_set down))"
proof -
  note ok = ing_reach_ok [OF assms(1,2)]
  let ?up = "\<forall>w \<in> set (igWorkers s). in_connection (wkPhase w)"
  have up: "{wkSym w | w. w \<in> set (igWorkers s) \<and> \<not> in_connection (wkPhase w)} = {} \<longleftrightarrow> ?up" by blast
  have ws: "wsHealth_Check (shHealth (igShared s)) = None \<longleftrightarrow> ?up"
    unfolding ing_ws_check [OF ok] by (auto simp: Let_def)
  have "fst (handleHealth build left (ing_registry ping tm s)) = (if ?up \<and> ping (check_budget left) = None \<and>
      (igOutcomes s = [] \<or> fst (last (igOutcomes s)) = None) then 200 else 503)"
    using ws ing_producer_streak [OF ok assms(3)]
    by (simp add: ing_registry_def producer_health.registered_report ws_health.registered_report fresh_report wsHealth_Check_None)
  moreover have "hChecks (snd (handleHealth build left (ing_registry ping tm s))) ''websocket'' =
      Some (verdict (wsHealth_Check (shHealth (igShared s))))"
    by (simp add: ing_registry_def handleHealth_checks health_add_def producer_checker_def ws_checker_def CheckerFunc_def)
  ultimately show ?thesis
    using ok up unfolding ing_ws_check [OF ok] by (simp add: Let_def ing_ok_def verdict_def)
qed

theorem ingestion_readiness_witness:
  "\<exists>s. sample_reach s \<and>
     fst (handleHealth GetInfo None (ing_registry (\<lambda>_. None) (\<lambda>_. 0) s)) = 200 \<and>
     fst (handleHealth GetInfo None (ing_registry (\<lambda>_. None) (\<lambda>_. 0) sample_ing)) = 503"
proof -
  obtain s where s: "sample_reach s" "length (igWorkers s) = 1" "igOutcomes s = []"
    "wkPhase (igWorkers s ! 0) = Reading 0 (configure_conn 0 fresh_conn) Watching" by (rule sample_reading)
  obtain w where "igWorkers s = [w]" using s(2) by (auto simp: length_Suc_conv)
  then have "\<forall>w \<in> set (igWorkers s). in_connection (wkPhase w)" using s(4) by simp
  with ingestion_readiness [OF s(1) sample_env_library, where build = GetInfo and left = None and ping = "\<lambda>_. None" and tm = "\<lambda>_. 0"] s(3)
  have 1: "fst (handleHealth GetInfo None (ing_registry (\<lambda>_. None) (\<lambda>_. 0) s)) = 200" by (simp add: Let_def)
  have "igWorkers sample_ing = [new_worker 0 ''btcusdt'']" "igOutcomes sample_ing = []"
    by (simp_all add: ing_init_def Let_def sample_symbols)
  with ingestion_readiness [OF ing_reach.start [of ascii_tables "\<lambda>_. Errorf []" sample_env sample_ing] sample_env_library,
      where build = GetInfo and left = None and ping = "\<lambda>_. None" and tm = "\<lambda>_. 0"]
  have "fst (handleHealth GetInfo None (ing_registry (\<lambda>_. None) (\<lambda>_. 0) sample_ing)) = 503"
    by (simp add: Let_def new_worker_def)
  with 1 s(1) show ?thesis by blast
qed

text \<open>C14. Read deadlines: while a worker is in a read, its connection's read deadline is one minute
  after it configured the connection or last answered a ping or a pong, a read that is still
  waiting has not passed it, and the clock does not pass it while the read waits. A data message
  leaves the deadline where it is, so a connection that delivers trades all the time but no ping
  runs into it as well. The bound is on waiting in a read: frames that the library has read ahead
  may still be handled later, and how long handling a message takes is not bounded. No worker
  panics, and the timer of one that backs off is due at most 30 seconds from now.\<close>

theorem connection_deadline:
  assumes "ing_reach U jerr env (ing_init U configured now) s" "ws_library env" "w \<in> set (igWorkers s)"
  shows "wkPhase w \<noteq> WorkerPanic \<and>
    (\<forall>u. wkPhase w = Waiting u \<longrightarrow> u \<le> shNow (igShared s) + 30 * 10 ^ 9) \<and>
    (\<forall>st c x. wkPhase w = Reading st c x \<longrightarrow>
       rdDeadline c = Some (wkHeard w + 60 * 10 ^ 9) \<and>
       (blocks env c (shNow (igShared s)) \<longrightarrow> shNow (igShared s) \<le> wkHeard w + 60 * 10 ^ 9) \<and>
       (\<forall>t. ing_step U jerr env s Tick t \<longrightarrow> shNow (igShared t) \<le> wkHeard w + 60 * 10 ^ 9) \<and>
       (\<forall>k raw sh w'. worker_step U jerr env k (igShared s) w (Frame (Data raw)) sh w' \<longrightarrow>
          wkHeard w' = wkHeard w \<and>
          (\<exists>c'. wkPhase w' = Handling st c' x raw (shNow (igShared s)) \<and> rdDeadline c' = rdDeadline c)))"
proof (intro conjI allI impI)
  have loc: "worker_local (shNow (igShared s)) w"
    using ing_reach_ok [OF assms(1,2)] assms(3) by (auto simp: ing_ok_def in_set_conv_nth)
  then show "wkPhase w \<noteq> WorkerPanic" by (auto simp: worker_local_def)
  show "u \<le> shNow (igShared s) + 30 * 10 ^ 9" if "wkPhase w = Waiting u" for u
    using loc that by (simp add: worker_local_def)
  fix st c x assume ph: "wkPhase w = Reading st c x"
  then show dl: "rdDeadline c = Some (wkHeard w + 60 * 10 ^ 9)" using loc by (simp add: worker_local_def conn_ok_def)
  have wait: "t \<le> wkHeard w + 60 * 10 ^ 9" if "blocks env c t" for t
    using ws_libraryD(1) [OF assms(2) that] dl by (simp add: expired_def)
  then show "shNow (igShared s) \<le> wkHeard w + 60 * 10 ^ 9" if "blocks env c (shNow (igShared s))" using that .
  show "shNow (igShared t) \<le> wkHeard w + 60 * 10 ^ 9" if "ing_step U jerr env s Tick t" for t
    using that
  proof cases
    case (ticks t')
    then have "blocks env c t'" using assms(3) ph by (auto simp: list_all_iff may_wait_def)
    then show ?thesis using wait ticks by simp
  qed
  fix k raw sh w' assume "worker_step U jerr env k (igShared s) w (Frame (Data raw)) sh w'"
  then show "wkHeard w' = wkHeard w" "\<exists>c'. wkPhase w' = Handling st c' x raw (shNow (igShared s)) \<and> rdDeadline c' = rdDeadline c"
    using ph by (auto elim: worker_step.cases)
qed

theorem connection_deadline_witness:
  "\<exists>s. sample_reach s \<and> wkPhase (igWorkers s ! 0) = Reading 0 (configure_conn 0 fresh_conn) Watching \<and>
     rdDeadline (configure_conn 0 fresh_conn) = Some (wkHeard (igWorkers s ! 0) + 60 * 10 ^ 9)"
proof -
  obtain s where s: "sample_reach s" "length (igWorkers s) = 1"
    "wkPhase (igWorkers s ! 0) = Reading 0 (configure_conn 0 fresh_conn) Watching" by (rule sample_reading)
  have "igWorkers s ! 0 \<in> set (igWorkers s)" using s(2) by simp
  with connection_deadline [OF s(1) sample_env_library] s(1,3) show ?thesis by blast
qed



end
