(* ===== verification/System.thy ===== *)
theory System
  imports Typed Workers "HOL-Library.Sublist"
begin

text \<open>
  The services together: ingestion-service and processor-service as one interleaving system,
  joined by the raw trades topic, with the cache that api-service reads. A step is a step of
  \<open>ing_step\<close> or of \<open>proc_step\<close>. Kafka is a parameter: \<open>broker buf past rs\<close> says that a poll
  can return \<open>rs\<close> when the producer has been given \<open>buf\<close> and the earlier polls returned \<open>past\<close>. The one
  law is \<open>from_producer\<close>: a poll returns nothing that was not produced. Delivery is at least once: after
  a rebalance or a restart the topic may return records again, in any order, so what was returned
  is compared with what was produced by predicates on the state that the theorems name
  (\<open>delivered_all\<close>, \<open>no_redelivery\<close>, \<open>in_order_once\<close>, \<open>caught_up_on\<close>), never by a law.

  The lemmas project every run of the system to runs of its services, follow the polled records
  through the consumer, and give what a sink handles in terms of what the exchange sent.
\<close>

section \<open>Model\<close>

type_synonym broker = "prod_record list \<Rightarrow> kgo_record list \<Rightarrow> kgo_record list \<Rightarrow> bool"

record 'r sys =
  syIng :: ing
  syPolled :: "kgo_record list"
  syProc :: "'r proc"

definition sys_init :: "unicode \<Rightarrow> string list \<Rightarrow> gotime \<Rightarrow> int \<Rightarrow> int \<Rightarrow> 'r \<Rightarrow> 'r sys" where
  "sys_init U configured now n m r = \<lparr>syIng = ing_init U configured now, syPolled = [], syProc = proc_init n m r\<rparr>"

text \<open>What the workers of ingestion-service have handed to the producer.\<close>

definition sy_buf :: "'r sys \<Rightarrow> prod_record list" where
  "sy_buf s = map snd (shBuf (igShared (syIng s)))"

fun polled_by :: "label \<Rightarrow> kgo_record list" where
  "polled_by (Polled rs) = rs"
| "polled_by _ = []"

inductive sys_step ::
  "unicode \<Rightarrow> (string \<Rightarrow> goerror) \<Rightarrow> ws_env \<Rightarrow> broker \<Rightarrow> 'r redis_client \<Rightarrow> 'r sys \<Rightarrow> 'r sys \<Rightarrow> bool"
  for U jerr env broker client where
  ingests: "ing_step U jerr env (syIng s) l i \<Longrightarrow> sys_step U jerr env broker client s (s\<lparr>syIng := i\<rparr>)"
| polls: "proc_step client (syProc s) (Polled rs) p \<Longrightarrow> broker (sy_buf s) (syPolled s) rs \<Longrightarrow>
    sys_step U jerr env broker client s (s\<lparr>syPolled := syPolled s @ rs, syProc := p\<rparr>)"
| processes: "proc_step client (syProc s) l p \<Longrightarrow> polled_by l = [] \<Longrightarrow>
    sys_step U jerr env broker client s (s\<lparr>syProc := p\<rparr>)"

inductive sys_reach ::
  "unicode \<Rightarrow> (string \<Rightarrow> goerror) \<Rightarrow> ws_env \<Rightarrow> broker \<Rightarrow> 'r redis_client \<Rightarrow> 'r sys \<Rightarrow> 'r sys \<Rightarrow> bool"
  for U jerr env broker client s0 where
  sys_start: "sys_reach U jerr env broker client s0 s0"
| sys_next: "sys_reach U jerr env broker client s0 s \<Longrightarrow> sys_step U jerr env broker client s t \<Longrightarrow>
    sys_reach U jerr env broker client s0 t"

section \<open>What the topic promises\<close>

text \<open>A record with its key and value, as it was produced and as it is polled.\<close>

definition p_payload :: "prod_record \<Rightarrow> string \<times> string \<times> string" where
  "p_payload p = (PTopic p, PKey p, PValue p)"

definition k_payload :: "kgo_record \<Rightarrow> string \<times> string \<times> string" where
  "k_payload r = (RTopic r, RKey r, RValue r)"

definition with_key :: "string \<Rightarrow> (string \<times> string \<times> string) list \<Rightarrow> (string \<times> string \<times> string) list" where
  "with_key sb xs = filter (\<lambda>x. fst (snd x) = sb) xs"

definition from_producer :: "broker \<Rightarrow> bool" where
  "from_producer broker = (\<forall>buf past rs. broker buf past rs \<longrightarrow> k_payload ` set rs \<subseteq> p_payload ` set buf)"

text \<open>What has been polled so far, against what has been produced: everything at least once; nothing
  more often; the records of a key in their order and each at most once; or each exactly once.\<close>

definition delivered_all :: "'r sys \<Rightarrow> bool" where
  "delivered_all s = (mset (map p_payload (sy_buf s)) \<subseteq># mset (map k_payload (syPolled s)))"

definition no_redelivery :: "'r sys \<Rightarrow> bool" where
  "no_redelivery s = (mset (map k_payload (syPolled s)) \<subseteq># mset (map p_payload (sy_buf s)))"

definition in_order_once :: "string \<Rightarrow> 'r sys \<Rightarrow> bool" where
  "in_order_once sb s = subseq (with_key sb (map k_payload (syPolled s))) (with_key sb (map p_payload (sy_buf s)))"

definition caught_up_on :: "string \<Rightarrow> 'r sys \<Rightarrow> bool" where
  "caught_up_on sb s = (with_key sb (map k_payload (syPolled s)) = with_key sb (map p_payload (sy_buf s)))"

section \<open>Runs of the system are runs of its services\<close>

lemma sys_reach_ing:
  "sys_reach U jerr env broker client s0 s \<Longrightarrow> ing_reach U jerr env (syIng s0) (syIng s)"
  by (induction rule: sys_reach.induct) (auto elim!: sys_step.cases intro: ing_reach.intros)

lemma sys_reach_proc:
  "sys_reach U jerr env broker client s0 s \<Longrightarrow> proc_reach client (syProc s0) (syProc s)"
  by (induction rule: sys_reach.induct) (auto elim!: sys_step.cases intro: proc_reach.intros)

text \<open>The records polled are the marked ones and the rest of the batch; after cancellation some may
  have been refused.\<close>

definition taken :: "'r sys \<Rightarrow> bool" where
  "taken s =
     (let handled = pmarks (syProc s) @ batch (syProc s)
      in subseq handled (syPolled s) \<and> (pctx (syProc s) = None \<longrightarrow> handled = syPolled s))"

lemma taken_proc:
  assumes "proc_step client p l p'" "subseq (pmarks p @ batch p) polled" "pctx p = None \<longrightarrow> pmarks p @ batch p = polled"
  shows "subseq (pmarks p' @ batch p') (polled @ polled_by l) \<and>
    (pctx p' = None \<longrightarrow> pmarks p' @ batch p' = polled @ polled_by l)"
  using assms(1)
proof (cases rule: proc_step.cases)
  case (refused r rs e q err)
  have "subseq (pmarks p @ rs) (pmarks p @ batch p)" using refused by (simp add: list_emb_append_mono subseq_Cons')
  then have "subseq (pmarks p @ rs) polled" using assms(2) subseq_order.order_trans by blast
  moreover have "pctx p \<noteq> None" using refused by (auto simp: Submit_iff)
  ultimately show ?thesis using refused by auto
qed (use assms(2,3) in auto)

lemma taken_step:
  assumes "sys_step U jerr env broker client s t" "taken s"
  shows "taken t"
  using assms(1)
proof (cases rule: sys_step.cases)
  case (ingests l i)
  then show ?thesis using assms(2) by (simp add: taken_def)
next
  case (polls rs p)
  then show ?thesis using taken_proc [OF polls(2)] assms(2) by (simp add: taken_def Let_def)
next
  case (processes l p)
  then show ?thesis using taken_proc [OF processes(2)] assms(2) by (simp add: taken_def Let_def)
qed

lemma taken_reach:
  "sys_reach U jerr env broker client (sys_init U configured now n m r0) s \<Longrightarrow> taken s"
proof (induction rule: sys_reach.induct)
  case sys_start
  show ?case by (simp add: taken_def sys_init_def proc_init_def)
qed (rule taken_step)

section \<open>What the producer holds\<close>

lemma produced_decoded:
  assumes "\<forall>e \<in> set es. trade_text e \<and> wire_trade e = e"
  shows "decoded (map (\<lambda>p. delivered p (part p) (off p)) (produced es)) = filter trade_encodable es \<and>
    map PKey (produced es) = map Symbol (filter trade_encodable es) \<and> (\<forall>p \<in> set (produced es). PTopic p = TopicTradesRaw)"
  using assms
proof (induction es)
  case (Cons e es)
  then have e: "trade_text e" "wire_trade e = e" by simp_all
  show ?case
  proof (cases "marshal_trade e")
    case None
    then have "produced (e # es) = produced es" by (simp add: produced_def Publisher_Publish_def json_Marshal_trade_def)
    moreover have "\<not> trade_encodable e" using None marshal_trade_None by blast
    ultimately show ?thesis using Cons by simp
  next
    case (Some t)
    then have "produced (e # es) = \<lparr>PTopic = TopicTradesRaw, PKey = Symbol e, PValue = t, PTimestamp = EventTime e\<rparr> # produced es"
      by (simp add: produced_def Publisher_Publish_def json_Marshal_trade_def)
    moreover have "trade_encodable e" using Some marshal_trade_None [of e] by simp
    moreover have "unmarshal_trade t = Some e" using unmarshal_wire_trade [OF e(1) Some] e(2) by simp
    ultimately show ?thesis using Cons by (simp add: decoded_def delivered_def List.map_filter_def)
  qed
qed (simp add: decoded_def)

lemma accepted_wire:
  assumes "e \<in> set (accepted U jerr ms)"
  shows "trade_text e \<and> wire_trade e = e"
proof -
  obtain raw t where "normalizeTrade U jerr raw t = Inr e"
    using assms by (auto simp: accepted_def List.map_filter_def split: sum.splits)
  then show ?thesis using normalizeTrade_text by blast
qed

text \<open>The trades of a list of payloads, as the consumer decodes them.\<close>

definition trades_of :: "(string \<times> string \<times> string) list \<Rightarrow> TradeEvent list" where
  "trades_of xs = List.map_filter (\<lambda>x. unmarshal_trade (snd (snd x))) xs"

definition well_keyed :: "string \<times> string \<times> string \<Rightarrow> bool" where
  "well_keyed x = (\<exists>e. unmarshal_trade (snd (snd x)) = Some e \<and> Symbol e = fst (snd x))"

lemma trades_of_simps [simp]:
  "trades_of [] = []" "trades_of (xs @ ys) = trades_of xs @ trades_of ys"
  "trades_of (x # xs) = (case unmarshal_trade (snd (snd x)) of None \<Rightarrow> trades_of xs | Some e \<Rightarrow> e # trades_of xs)"
  by (simp_all add: trades_of_def List.map_filter_def split: option.split)

lemma trades_of_polled: "trades_of (map k_payload rs) = decoded rs"
  by (induction rs) (simp_all add: decoded_def List.map_filter_def k_payload_def split: option.split)

lemma trades_of_set: "set (trades_of xs) = {e. \<exists>x \<in> set xs. unmarshal_trade (snd (snd x)) = Some e}"
  by (induction xs) (auto split: option.split)

lemma trades_of_subseq: "subseq xs ys \<Longrightarrow> subseq (trades_of xs) (trades_of ys)"
  by (induction rule: list_emb.induct) (auto split: option.split)

lemma trades_of_keyed:
  "\<forall>x \<in> set xs. well_keyed x \<Longrightarrow> filter (\<lambda>e. Symbol e = sb) (trades_of xs) = trades_of (with_key sb xs)"
  by (induction xs) (auto simp: with_key_def well_keyed_def)

lemma delivered_payload [simp]: "k_payload \<circ> (\<lambda>p. delivered p part off) = p_payload"
  by (auto simp: k_payload_def p_payload_def delivered_def)

lemma produced_payloads:
  assumes "\<forall>e \<in> set es. trade_text e \<and> wire_trade e = e"
  shows "trades_of (map p_payload (produced es)) = filter trade_encodable es"
    and "\<forall>p \<in> set (produced es). well_keyed (p_payload p)"
proof -
  show "trades_of (map p_payload (produced es)) = filter trade_encodable es"
    using produced_decoded [OF assms, of "\<lambda>_. 0" "\<lambda>_. 0"] trades_of_polled [of "map (\<lambda>p. delivered p 0 0) (produced es)"] by simp
  show "\<forall>p \<in> set (produced es). well_keyed (p_payload p)"
  proof
    fix p assume "p \<in> set (produced es)"
    then obtain e t where e: "e \<in> set es" "marshal_trade e = Some t" "p_payload p = (TopicTradesRaw, Symbol e, t)"
      by (auto simp: produced_def Publisher_Publish_def json_Marshal_trade_def p_payload_def split: option.splits)
    then have "unmarshal_trade t = Some e" using assms unmarshal_wire_trade by fastforce
    with e(3) show "well_keyed (p_payload p)" by (simp add: well_keyed_def)
  qed
qed

text \<open>What the exchange has sent: the trades each worker has accepted, worker by worker.\<close>

definition exchange :: "unicode \<Rightarrow> (string \<Rightarrow> goerror) \<Rightarrow> ing \<Rightarrow> TradeEvent list" where
  "exchange U jerr s = concat (map (\<lambda>w. accepted U jerr (wkMsgs w)) (igWorkers s))"

lemma sent_by_all:
  "\<forall>x \<in> set buf. fst x < n \<Longrightarrow> mset (map snd buf) = mset (concat (map (\<lambda>k. sent_by k buf) [0..<n]))"
proof (induction n arbitrary: buf)
  case 0
  then have "buf = []" by (cases buf) auto
  then show ?case by simp
next
  case (Suc n)
  let ?rest = "filter (\<lambda>x. fst x \<noteq> n) buf"
  have "mset (map snd buf) = mset (map snd ?rest) + mset (sent_by n buf)"
    unfolding sent_by_def mset_map mset_filter using multiset_partition [of "mset buf" "\<lambda>x. fst x = n"]
    by (metis image_mset_union union_commute)
  moreover have "\<forall>x \<in> set ?rest. fst x < n" using Suc.prems by auto
  moreover have "sent_by k ?rest = sent_by k buf" if "k < n" for k
    using that by (auto simp: sent_by_def intro!: arg_cong [of _ _ "map snd"] filter_cong)
  then have "concat (map (\<lambda>k. sent_by k ?rest) [0..<n]) = concat (map (\<lambda>k. sent_by k buf) [0..<n])"
    by (metis (no_types, lifting) atLeastLessThan_iff map_cong set_upt)
  ultimately show ?case using Suc.IH [of ?rest] by (simp add: add.commute)
qed

section \<open>From the exchange to the sinks\<close>

text \<open>What every reachable state of the system says about the producer's buffer.\<close>

lemma buffer_facts:
  assumes "sys_reach U jerr env broker client (sys_init U configured now n m r0) s" "ws_library env"
  shows "k < length (igWorkers (syIng s)) \<Longrightarrow>
      trades_of (map p_payload (sent_by k (shBuf (igShared (syIng s))))) =
        filter trade_encodable (accepted U jerr (wkMsgs (igWorkers (syIng s) ! k)))"
    and "\<forall>x \<in> set (shBuf (igShared (syIng s))). fst x < length (igWorkers (syIng s))"
    and "\<forall>p \<in> set (sy_buf s). well_keyed (p_payload p)"
proof -
  let ?ws = "igWorkers (syIng s)" and ?buf = "shBuf (igShared (syIng s))"
  have ing: "ing_reach U jerr env (ing_init U configured now) (syIng s)"
    using sys_reach_ing [OF assms(1)] by (simp add: sys_init_def)
  note pub = workers_publish [OF ing assms(2)]
  note payloads = produced_payloads [of "accepted U jerr (wkMsgs (?ws ! k))" for k]
  show "k < length ?ws \<Longrightarrow> trades_of (map p_payload (sent_by k ?buf)) = filter trade_encodable (accepted U jerr (wkMsgs (?ws ! k)))"
    using pub payloads(1) accepted_wire by metis
  show tags: "\<forall>x \<in> set ?buf. fst x < length ?ws"
    using ing_reach_ok [OF ing assms(2)] unfolding ing_ok_def by (metis length_map)
  show "\<forall>p \<in> set (sy_buf s). well_keyed (p_payload p)"
  proof
    fix p assume "p \<in> set (sy_buf s)"
    then obtain k where k: "(k, p) \<in> set ?buf" by (auto simp: sy_buf_def)
    then have "k < length ?ws" "p \<in> set (sent_by k ?buf)" using tags by (force simp: sent_by_def)+
    then have "p \<in> set (produced (accepted U jerr (wkMsgs (?ws ! k))))" using pub by metis
    then show "well_keyed (p_payload p)" using payloads(2) accepted_wire by blast
  qed
qed

lemma mset_trades_of: "mset xs \<subseteq># mset ys \<Longrightarrow> mset (trades_of xs) \<subseteq># mset (trades_of ys)"
  unfolding trades_of_def List.map_filter_def mset_map mset_filter
  by (intro image_mset_subseteq_mono multiset_filter_mono)

lemma mset_trades_of_cong: "mset xs = mset ys \<Longrightarrow> mset (trades_of xs) = mset (trades_of ys)"
  using mset_trades_of by (metis subset_mset.order_antisym subset_mset.order_refl)

lemma trades_of_concat: "trades_of (concat xss) = concat (map trades_of xss)"
  by (induction xss) simp_all

text \<open>The producer holds no trade more often than the exchange sent it.\<close>

lemma buffer_exchange:
  assumes "sys_reach U jerr env broker client (sys_init U configured now n m r0) s" "ws_library env"
  shows "mset (trades_of (map p_payload (sy_buf s))) = filter_mset trade_encodable (mset (exchange U jerr (syIng s)))"
proof -
  let ?ws = "igWorkers (syIng s)" and ?buf = "shBuf (igShared (syIng s))"
  have "mset (map p_payload (sy_buf s)) = mset (concat (map (\<lambda>k. map p_payload (sent_by k ?buf)) [0..<length ?ws]))"
    using arg_cong [where f = "image_mset p_payload", OF sent_by_all [OF buffer_facts(2) [OF assms]]]
    by (simp add: sy_buf_def map_concat comp_def flip: mset_map)
  then have "mset (trades_of (map p_payload (sy_buf s))) =
      mset (concat (map (\<lambda>k. trades_of (map p_payload (sent_by k ?buf))) [0..<length ?ws]))"
    using mset_trades_of_cong by (simp add: trades_of_concat comp_def)
  also have "map (\<lambda>k. trades_of (map p_payload (sent_by k ?buf))) [0..<length ?ws] =
      map (\<lambda>w. filter trade_encodable (accepted U jerr (wkMsgs w))) ?ws"
    using buffer_facts(1) [OF assms] by (intro nth_equalityI) simp_all
  finally show ?thesis by (simp add: exchange_def filter_concat comp_def flip: mset_filter)
qed

text \<open>The buffer only grows, so what was produced at a poll stays produced.\<close>

lemma ing_step_buf: "ing_step U jerr env s l t \<Longrightarrow> \<exists>xs. shBuf (igShared t) = shBuf (igShared s) @ xs"
  by (induction rule: ing_step.induct) (auto dest: worker_step_frame(5))

lemma sys_step_buf:
  assumes "sys_step U jerr env broker client s t"
  obtains xs where "sy_buf t = sy_buf s @ xs"
  using assms
proof (cases rule: sys_step.cases)
  case (ingests l i)
  obtain xs where "shBuf (igShared i) = shBuf (igShared (syIng s)) @ xs" using ing_step_buf [OF ingests(2)] by blast
  then have "sy_buf t = sy_buf s @ map snd xs" using ingests(1) by (simp add: sy_buf_def)
  then show thesis by (rule that)
qed (auto simp: sy_buf_def intro: that [of "[]"])

lemma polled_step:
  assumes "sys_step U jerr env broker client s t"
  shows "syPolled t = syPolled s \<or>
    (\<exists>rs. syPolled t = syPolled s @ rs \<and> broker (sy_buf s) (syPolled s) rs \<and> sy_buf t = sy_buf s)"
  using assms by (cases rule: sys_step.cases) (auto simp: sy_buf_def)

lemma polled_produced:
  assumes "sys_reach U jerr env broker client (sys_init U configured now n m r0) s" "from_producer broker"
  shows "k_payload ` set (syPolled s) \<subseteq> p_payload ` set (sy_buf s)"
  using assms(1)
proof (induction rule: sys_reach.induct)
  case (sys_next s t)
  obtain xs where xs: "sy_buf t = sy_buf s @ xs" using sys_step_buf [OF sys_next(2)] .
  from polled_step [OF sys_next(2)] show ?case
  proof (elim disjE exE conjE)
    assume "syPolled t = syPolled s"
    then show ?thesis using sys_next(3) by (simp add: xs image_Un le_supI1)
  next
    fix rs assume rs: "syPolled t = syPolled s @ rs" "broker (sy_buf s) (syPolled s) rs" "sy_buf t = sy_buf s"
    have "k_payload ` set rs \<subseteq> p_payload ` set (sy_buf s)" using assms(2) rs(2) by (simp add: from_producer_def)
    then show ?thesis using sys_next(3) by (simp add: rs(1,3) image_Un)
  qed
qed (simp add: sys_init_def)

lemma subseq_mset: "subseq xs ys \<Longrightarrow> mset xs \<subseteq># mset ys"
  by (induction rule: list_emb.induct) (auto intro: subset_mset.order_trans)

lemma subseq_prefix: "subseq (xs @ ys) zs \<Longrightarrow> subseq xs zs"
  by (rule subseq_order.order_trans [OF prefix_imp_subseq]) auto

text \<open>Every trade the pipeline holds or has handled for a sink is an enriched trade of a polled record.\<close>

lemma sys_proc_inv:
  assumes "sys_reach U jerr env broker client (sys_init U configured now n m r0) s"
  shows "proc_reach client (proc_init n m r0) (syProc s)" "proc_inv (syProc s)" "sized (syProc s)"
proof -
  show pr: "proc_reach client (proc_init n m r0) (syProc s)" using sys_reach_proc [OF assms] by (simp add: sys_init_def)
  show "proc_inv (syProc s)" "sized (syProc s)" by (rule init_facts [OF pr])+
qed

lemma submitted_polled:
  assumes "sys_reach U jerr env broker client (sys_init U configured now n m r0) s"
  shows "subseq (submitted (syProc s)) (decoded (syPolled s))"
proof -
  have sub: "submitted (syProc s) = decoded (pmarks (syProc s))" using sys_proc_inv(2) [OF assms] by (simp add: proc_inv_def)
  have "subseq (pmarks (syProc s)) (syPolled s)"
    using taken_reach [OF assms] by (auto simp: taken_def Let_def dest: subseq_prefix)
  then have "subseq (map k_payload (pmarks (syProc s))) (map k_payload (syPolled s))" by (rule subseq_map)
  from trades_of_subseq [OF this] show ?thesis by (simp add: trades_of_polled sub)
qed

lemma sinks_submitted:
  assumes "proc_inv p" "sink_triple want sink seen"
  shows "account want sink seen p = enriched (submitted p)"
  using assms by (auto simp: sink_triple_def proc_inv_def balanced_def)

lemma enriched_mono: "mset es \<subseteq># mset es' \<Longrightarrow> enriched es \<subseteq># enriched es'"
  by (simp add: enriched_def image_mset_subseteq_mono)

text \<open>What was delivered, against what the exchange sent.\<close>

lemma delivered_exchange:
  assumes "sys_reach U jerr env broker client (sys_init U configured now n m r0) s" "ws_library env"
  shows "delivered_all s \<Longrightarrow> filter_mset trade_encodable (mset (exchange U jerr (syIng s))) \<subseteq># mset (decoded (syPolled s))"
    and "no_redelivery s \<Longrightarrow> mset (decoded (syPolled s)) \<subseteq># filter_mset trade_encodable (mset (exchange U jerr (syIng s)))"
  unfolding buffer_exchange [OF assms, symmetric] trades_of_polled [symmetric]
  by (auto simp: delivered_all_def no_redelivery_def intro!: mset_trades_of simp del: mset_map)

lemma delivered_sent:
  assumes "sys_reach U jerr env broker client (sys_init U configured now n m r0) s" "ws_library env" "from_producer broker"
  shows "set (decoded (syPolled s)) \<subseteq> set (filter trade_encodable (exchange U jerr (syIng s)))"
proof -
  have "set (trades_of (map k_payload (syPolled s))) \<subseteq> set (trades_of (map p_payload (sy_buf s)))"
    using polled_produced [OF assms(1,3)] unfolding trades_of_set set_map by blast
  also have "\<dots> = set_mset (mset (trades_of (map p_payload (sy_buf s))))" by simp
  finally show ?thesis unfolding buffer_exchange [OF assms(1,2)] trades_of_polled by auto
qed

text \<open>A live pipeline with no step left has handled everything that was polled.\<close>

lemma quiet_polled:
  assumes "sys_reach U jerr env broker client (sys_init U configured now n m r0) s"
    and "quiet client (syProc s)" "pctx (syProc s) = None"
  shows "drained (syProc s)" "aborted (syProc s) = []" "submitted (syProc s) = decoded (syPolled s)"
proof -
  note inv = sys_proc_inv(2) [OF assms(1)]
  show d: "drained (syProc s)" by (rule quiet_live [OF assms(2) inv sys_proc_inv(3) [OF assms(1)] assms(3)])
  show "aborted (syProc s) = []" using inv assms(3) by (simp add: proc_inv_def)
  have "pmarks (syProc s) = syPolled s"
    using taken_reach [OF assms(1)] assms(3) d by (simp add: taken_def Let_def drained_def)
  then show "submitted (syProc s) = decoded (syPolled s)" using inv by (simp add: proc_inv_def)
qed

section \<open>One symbol\<close>

text \<open>Only worker \<open>k\<close> has been sent trades of the symbol, as the exchange's streams are per symbol.\<close>

definition sole_source :: "unicode \<Rightarrow> (string \<Rightarrow> goerror) \<Rightarrow> ing \<Rightarrow> string \<Rightarrow> nat \<Rightarrow> bool" where
  "sole_source U jerr s sb k =
     (k < length (igWorkers s) \<and>
      (\<forall>j < length (igWorkers s). j \<noteq> k \<longrightarrow> sb \<notin> Symbol ` set (accepted U jerr (wkMsgs (igWorkers s ! j)))))"

definition of_symbol :: "string \<Rightarrow> TradeEvent list \<Rightarrow> TradeEvent list" where
  "of_symbol sb es = filter (\<lambda>e. Symbol e = sb) es"

lemma buffer_symbol:
  assumes "sys_reach U jerr env broker client (sys_init U configured now n m r0) s" "ws_library env"
    and "sole_source U jerr (syIng s) sb k"
  shows "trades_of (with_key sb (map p_payload (sy_buf s))) =
    filter trade_encodable (of_symbol sb (accepted U jerr (wkMsgs (igWorkers (syIng s) ! k))))"
proof -
  let ?ws = "igWorkers (syIng s)" and ?buf = "shBuf (igShared (syIng s))"
  note facts = buffer_facts [OF assms(1,2)]
  have k: "k < length ?ws" using assms(3) by (simp add: sole_source_def)
  have mine: "fst x = k" if x: "x \<in> set ?buf" "PKey (snd x) = sb" for x
  proof (rule ccontr)
    assume j: "fst x \<noteq> k"
    have "well_keyed (p_payload (snd x))" using facts(3) x(1) by (auto simp: sy_buf_def)
    then obtain e where e: "unmarshal_trade (PValue (snd x)) = Some e" "Symbol e = sb"
      using x(2) by (auto simp: well_keyed_def p_payload_def)
    have "snd x \<in> set (sent_by (fst x) ?buf)" using x(1) by (simp add: sent_by_def)
    then have "p_payload (snd x) \<in> set (map p_payload (sent_by (fst x) ?buf))" by simp
    then have "e \<in> set (trades_of (map p_payload (sent_by (fst x) ?buf)))"
      using e(1) by (force simp: trades_of_def List.map_filter_def p_payload_def)
    moreover have lt: "fst x < length ?ws" using facts(2) x(1) by blast
    ultimately have "e \<in> set (accepted U jerr (wkMsgs (?ws ! fst x)))" by (simp add: facts(1))
    then show False using assms(3) j e(2) lt unfolding sole_source_def by blast
  qed
  have "filter (\<lambda>x. PKey (snd x) = sb) ?buf = filter (\<lambda>x. fst x = k \<and> PKey (snd x) = sb) ?buf"
    by (rule filter_cong) (use mine in blast)+
  then have "with_key sb (map p_payload (sy_buf s)) = with_key sb (map p_payload (sent_by k ?buf))"
    by (simp add: with_key_def sy_buf_def sent_by_def filter_map comp_def p_payload_def)
  also have "trades_of \<dots> = of_symbol sb (trades_of (map p_payload (sent_by k ?buf)))"
    using facts(3) by (subst of_symbol_def, subst trades_of_keyed) (auto simp: sy_buf_def sent_by_def)
  finally show ?thesis using facts(1) [OF k] by (simp add: of_symbol_def conj_commute)
qed

lemma polled_symbol:
  assumes "sys_reach U jerr env broker client (sys_init U configured now n m r0) s" "ws_library env" "from_producer broker"
  shows "of_symbol sb (decoded (syPolled s)) = trades_of (with_key sb (map k_payload (syPolled s)))"
proof -
  have "\<forall>x \<in> set (map k_payload (syPolled s)). well_keyed x"
    using polled_produced [OF assms(1,3)] buffer_facts(3) [OF assms(1,2)] by auto
  then show ?thesis using trades_of_keyed by (simp add: of_symbol_def flip: trades_of_polled)
qed

lemma enrich_Symbol [simp]: "Symbol (enrich metadata e) = Symbol e"
  by (simp add: enrich_def Let_def)

lemma of_symbol_enrich: "of_symbol sb (map (enrich metadata) es) = map (enrich metadata) (of_symbol sb es)"
  by (induction es) (simp_all add: of_symbol_def)

text \<open>With one worker in the pool, what a sink has handled of a symbol is an ordered part of what
  the topic delivered; all of it, when the pipeline is quiet.\<close>

lemma sink_queue:
  assumes "sys_reach U jerr env broker client (sys_init U configured now 1 m r0) s" "sink_triple want sink seen"
    and "aborted (syProc s) = []"
  shows "queue_line want sink seen (syProc s) = map (enrich metadata) (submitted (syProc s))"
  by (rule queue_line_reach [OF sys_proc_inv(1) [OF assms(1)] assms(2,3)])

lemma queue_seen: "subseq (seen p) (queue_line want sink seen p)"
  by (simp add: queue_line_def subseq_rev_drop_many)

lemma sink_symbol_order:
  assumes "sys_reach U jerr env broker client (sys_init U configured now 1 m r0) s"
    and "sink_triple want sink seen" "aborted (syProc s) = []"
  shows "subseq (of_symbol sb (seen (syProc s))) (map (enrich metadata) (of_symbol sb (decoded (syPolled s))))"
proof -
  have "subseq (seen (syProc s)) (map (enrich metadata) (submitted (syProc s)))"
    unfolding sink_queue [OF assms, symmetric] by (rule queue_seen)
  also have "subseq \<dots> (map (enrich metadata) (decoded (syPolled s)))" by (rule subseq_map [OF submitted_polled [OF assms(1)]])
  finally show ?thesis unfolding of_symbol_enrich [symmetric] unfolding of_symbol_def by (rule subseq_filter)
qed

lemma delivered_symbol_order:
  assumes "sys_reach U jerr env broker client (sys_init U configured now n m r0) s" "ws_library env" "from_producer broker"
    and "in_order_once sb s" "sole_source U jerr (syIng s) sb k"
  shows "subseq (of_symbol sb (decoded (syPolled s))) (of_symbol sb (accepted U jerr (wkMsgs (igWorkers (syIng s) ! k))))"
proof -
  have "subseq (trades_of (with_key sb (map k_payload (syPolled s)))) (trades_of (with_key sb (map p_payload (sy_buf s))))"
    using assms(4) by (intro trades_of_subseq) (simp add: in_order_once_def)
  also have "subseq \<dots> (of_symbol sb (accepted U jerr (wkMsgs (igWorkers (syIng s) ! k))))"
    unfolding buffer_symbol [OF assms(1,2,5)] by (rule subseq_filter_left)
  finally show ?thesis unfolding polled_symbol [OF assms(1-3)] .
qed

lemma writer_symbol_all:
  assumes "sys_reach U jerr env broker client (sys_init U configured now 1 m r0) s" "ws_library env" "from_producer broker"
    and "quiet client (syProc s)" "pctx (syProc s) = None" "caught_up_on sb s" "sole_source U jerr (syIng s) sb k"
  shows "of_symbol sb (rwSeen (syProc s)) =
    map (enrich metadata) (filter trade_encodable (of_symbol sb (accepted U jerr (wkMsgs (igWorkers (syIng s) ! k)))))"
proof -
  note q = quiet_polled [OF assms(1,4,5)]
  have "workers (syProc s) \<noteq> []" using sys_proc_inv(3) [OF assms(1)] by (simp add: sized_def)
  then have "workers (syProc s) ! 0 = Idle" using q(1) by (simp add: drained_def list_all_length)
  then have "rwSeen (syProc s) = map (enrich metadata) (decoded (syPolled s))"
    using sink_queue [OF assms(1) _ q(2), of rw redisWriter rwSeen] q(1,3)
    by (simp add: sink_triple_def queue_line_def drained_def)
  then show ?thesis
    using polled_symbol [OF assms(1-3), of sb] buffer_symbol [OF assms(1,2,7)] assms(6)
    by (simp add: of_symbol_enrich caught_up_on_def)
qed

text \<open>The last trade depends on the symbol's own trades, and on those that can be encoded.\<close>

lemma last_trade_symbol: "last_trade sb (of_symbol sb es) = last_trade sb es"
  by (induction es rule: rev_induct) (auto simp: last_trade_snoc of_symbol_def)

lemma last_trade_encodable:
  assumes "\<forall>e \<in> set es. trade_encodable (enrich metadata e) \<longrightarrow> trade_encodable e"
  shows "last_trade sb (map (enrich metadata) (filter trade_encodable es)) = last_trade sb (map (enrich metadata) es)"
  using assms by (induction es rule: rev_induct) (auto simp: last_trade_snoc)

lemma accepted_encodable:
  assumes "e \<in> set (accepted U jerr ms)" "trade_encodable (enrich metadata e)"
  shows "trade_encodable e"
proof -
  obtain raw t where "normalizeTrade U jerr raw t = Inr e"
    using assms(1) by (auto simp: accepted_def List.map_filter_def split: sum.splits)
  then have "Notional e = Notional zero_trade" by (rule normalizeTrade_Inr) simp
  then have "is_finite (Notional e)" by (simp add: zero_trade_def is_finite_def inf_mag_def)
  then show ?thesis using assms(2) by (simp add: trade_encodable_def enrich_def Let_def)
qed

lemma newest_in_cache:
  assumes "sys_reach U jerr env broker client (sys_init U configured now 1 m r0) s" "ws_library env" "from_producer broker"
    and "quiet client (syProc s)" "pctx (syProc s) = None" "caught_up_on sb s" "sole_source U jerr (syIng s) sb k"
  shows "last_trade sb (rwSeen (syProc s)) =
    last_trade sb (map (enrich metadata) (accepted U jerr (wkMsgs (igWorkers (syIng s) ! k))))"
proof -
  let ?es = "accepted U jerr (wkMsgs (igWorkers (syIng s) ! k))"
  have "last_trade sb (rwSeen (syProc s)) = last_trade sb (map (enrich metadata) (filter trade_encodable (of_symbol sb ?es)))"
    using writer_symbol_all [OF assms] last_trade_symbol by metis
  also have "\<dots> = last_trade sb (map (enrich metadata) (of_symbol sb ?es))"
    by (rule last_trade_encodable) (use accepted_encodable in \<open>auto simp: of_symbol_def\<close>)
  finally show ?thesis using last_trade_symbol of_symbol_enrich by metis
qed

section \<open>The trades the API serves\<close>

text \<open>The API serves a trade of the Redis writer's whose bytes the cache holds; the last one it has
  seen, when the server accepts its writes.\<close>

lemma cached_trade_served:
  assumes "proc_reach client (proc_init n m r) s" "e \<in> set (rwSeen s)" "marshal_trade e = Some t"
    and "view (redis s) (KeyLatestTrade sb) = Some (ArgBytes t)" "reads_from rd (view (redis s))"
    and "normalizeSymbol U p = sb" "sb \<noteq> []"
  shows "\<exists>tj. enc_tradeResponse \<lparr>trSymbol = sb, trTrades = Some [e], trSource = ''redis''\<rparr> = Some tj \<and>
     LatestTrade U rd p = (200, json_print tj @ [CHR 0x0A])"
proof -
  have "trade_encodable e" using assms(3) marshal_trade_None [of e] by auto
  from LatestTrade_served [OF assms(5,4,3) rwSeen_text [OF assms(1,2)] assms(6,7)] enc_response_Some [OF this, of sb "''redis''"]
  show ?thesis by (auto simp: writeJSON_def)
qed

lemma cache_serves:
  assumes "redis_laws client view" "sets_succeed client" "proc_reach client (proc_init n m r) s"
    and "last_trade sb (rwSeen s) = Some e" "reads_from rd (view (redis s))"
    and "normalizeSymbol U p = sb" "sb \<noteq> []"
  shows "\<exists>tj. enc_tradeResponse \<lparr>trSymbol = sb, trTrades = Some [e], trSource = ''redis''\<rparr> = Some tj \<and>
     LatestTrade U rd p = (200, json_print tj @ [CHR 0x0A])"
proof -
  have e: "e \<in> set (rwSeen s)" "trade_encodable e" using last_trade_props [OF assms(4)] by auto
  then obtain t where t: "marshal_trade e = Some t" using marshal_trade_None [of e] by auto
  have "view (redis s) (KeyLatestTrade sb) = Some (ArgBytes t)"
    using cache_line_reach [OF assms(1-3)] assms(4) t by (simp add: cache_line_def)
  from cached_trade_served [where view = view, OF assms(3) e(1) t this assms(5-7)] show ?thesis .
qed

text \<open>Where a trade at a sink comes from, with a topic that only promises to invent nothing.\<close>

lemma sink_provenance:
  assumes "sys_reach U jerr env broker client (sys_init U configured now n m r0) s" "ws_library env" "from_producer broker"
    and "sink_triple want sink seen" "e \<in># account want sink seen (syProc s)"
  obtains w raw t e0 where "w \<in> set (igWorkers (syIng s))" "(raw, t) \<in> set (wkMsgs w)"
    "normalizeTrade U jerr raw t = Inr e0" "e = enrich metadata e0"
proof -
  have "e \<in># enriched (submitted (syProc s))"
    using assms(5) sinks_submitted [OF sys_proc_inv(2) [OF assms(1)] assms(4)] by simp
  then obtain e0 where e0: "e0 \<in> set (submitted (syProc s))" "e = enrich metadata e0" by (auto simp: enriched_def)
  have "e0 \<in> set (decoded (syPolled s))" using submitted_polled [OF assms(1)] e0(1) by (metis subseq_mset mset_subset_eqD set_mset_mset)
  then obtain rc where rc: "rc \<in> set (syPolled s)" "unmarshal_trade (RValue rc) = Some e0"
    by (auto simp: decoded_def List.map_filter_def)
  then have "k_payload rc \<in> set (map p_payload (sy_buf s))" using polled_produced [OF assms(1,3)] by auto
  moreover have "unmarshal_trade (snd (snd (k_payload rc))) = Some e0" using rc(2) by (simp add: k_payload_def)
  ultimately have "e0 \<in> set (trades_of (map p_payload (sy_buf s)))" by (force simp: trades_of_def List.map_filter_def)
  then have "e0 \<in># filter_mset trade_encodable (mset (exchange U jerr (syIng s)))"
    by (metis buffer_exchange [OF assms(1,2)] set_mset_mset)
  then obtain w where w: "w \<in> set (igWorkers (syIng s))" "e0 \<in> set (accepted U jerr (wkMsgs w))"
    by (auto simp: exchange_def)
  then obtain raw t where "(raw, t) \<in> set (wkMsgs w)" "normalizeTrade U jerr raw t = Inr e0"
    by (auto simp: accepted_def List.map_filter_def split: sum.splits)
  with w(1) e0(2) show thesis using that by blast
qed

section \<open>A run of the whole system\<close>

text \<open>A topic that returns records of the producer as often and in whatever order it likes.\<close>

definition any_delivery :: broker where
  "any_delivery buf past rs = (k_payload ` set rs \<subseteq> p_payload ` set buf)"

lemma any_delivery_law: "from_producer any_delivery"
  by (simp add: from_producer_def any_delivery_def)

lemma sys_lift_ing:
  "ing_reach U jerr env (syIng s0) i \<Longrightarrow> sys_reach U jerr env broker client s0 (s0\<lparr>syIng := i\<rparr>)"
proof (induction rule: ing_reach.induct)
  case start
  show ?case using sys_start [of U jerr env broker client s0] by simp
next
  case (step s l t)
  then show ?case using sys_next [OF step(3) ingests, of l t] by simp
qed

text \<open>Left to itself the processor comes to rest.\<close>

lemma sys_quiesces:
  assumes "sys_reach U jerr env broker client s0 s"
  shows "\<exists>p. sys_reach U jerr env broker client s0 (s\<lparr>syProc := p\<rparr>) \<and> quiet client p \<and> pctx p = pctx (syProc s)"
  using assms
proof (induction "work (syProc s)" arbitrary: s rule: less_induct)
  case less
  show ?case
  proof (cases "quiet client (syProc s)")
    case True
    then show ?thesis using less(2) by (intro exI [of _ "syProc s"]) simp
  next
    case False
    then obtain l p where l: "proc_step client (syProc s) l p" "\<not> from_outside l" by (auto simp: quiet_def)
    have "polled_by l = []" using l(2) by (cases l) (simp_all add: from_outside_def)
    then have r: "sys_reach U jerr env broker client s0 (s\<lparr>syProc := p\<rparr>)" using sys_next [OF less(2) processes [OF l(1)]] by simp
    have "pctx p = pctx (syProc s)" using l by (cases rule: proc_step.cases) (simp_all add: from_outside_def)
    then show ?thesis using less(1) [of "s\<lparr>syProc := p\<rparr>"] work_step [OF l] r by simp
  qed
qed

lemma normalizeTrade_time:
  "normalizeTrade U jerr raw t = Inr e \<Longrightarrow> normalizeTrade U jerr raw t' = Inr (e\<lparr>IngestTime := t'\<rparr>)"
  by (auto simp: normalizeTrade_def split: option.splits if_splits)

definition sample_event0 :: TradeEvent where
  "sample_event0 = sample_event\<lparr>IngestTime := 0\<rparr>"

lemma sample_accepted: "accepted ascii_tables (\<lambda>_. Errorf []) [(sample_raw, 0)] = [sample_event0]"
  using normalizeTrade_time [OF sample_normalises(1), of 0] by (simp add: sample_event0_def)

lemma sample_event0_enriched:
  "Symbol sample_event0 = ''BTCUSDT''" "trade_encodable sample_event0" "trade_encodable (enrich metadata sample_event0)"
proof -
  have "civil_from_days 0 = (1970, 1, 1)" by code_simp
  then have "format_time 0 \<noteq> None" unfolding format_time_Some by simp
  then show "trade_encodable sample_event0" "Symbol sample_event0 = ''BTCUSDT''"
    using sample_normalises(2) by (simp_all add: trade_encodable_def sample_event0_def sample_event_def)
  then show "trade_encodable (enrich metadata sample_event0)"
    by (simp add: trade_encodable_def enrich_def Let_def sample_event0_def sample_event_def f_mul_one)
qed

abbreviation sample_sys :: "int \<Rightarrow> mem_redis sys \<Rightarrow> bool" where
  "sample_sys n \<equiv> sys_reach ascii_tables (\<lambda>_. Errorf []) sample_env any_delivery (mem_client {} (Errorf []))
     (sys_init ascii_tables [''BTCUSDT''] 0 n 0 mem0)"

text \<open>The exchange sends a trade; it is published, polled a number of times and processed until
  nothing is left to do.\<close>

lemma sample_system:
  obtains s where "sample_sys n s" "length (igWorkers (syIng s)) = 1" "wkMsgs (igWorkers (syIng s) ! 0) = [(sample_raw, 0)]"
    "map k_payload (syPolled s) = concat (replicate c (map p_payload (sy_buf s)))"
    "quiet (mem_client {} (Errorf [])) (syProc s)" "pctx (syProc s) = None" "decoded (syPolled s) = replicate c sample_event0"
proof -
  let ?s0 = "sys_init ascii_tables [''BTCUSDT''] 0 n 0 mem0 :: mem_redis sys"
  obtain i where i: "sample_reach i" "0 < length (igWorkers i)" "wkMsgs (igWorkers i ! 0) = [(sample_raw, 0)]" by (rule sample_read)
  have len: "length (igWorkers i) = 1"
    using ing_reach_ok [OF i(1) sample_env_library] sample_symbols unfolding ing_ok_def by (metis length_map length_Cons list.size(3) One_nat_def)
  have s1: "sample_sys n (?s0\<lparr>syIng := i\<rparr>)" using sys_lift_ing [of _ _ _ ?s0 i] i(1) by (simp add: sys_init_def)
  have "map snd (shBuf (igShared i)) = sent_by 0 (shBuf (igShared i))"
    using workers_publish [OF i(1) sample_env_library i(2)] len by (simp add: sent_by_def filter_id_conv)
  also have "\<dots> = produced [sample_event0]"
    using workers_publish [OF i(1) sample_env_library i(2)] i(3) sample_accepted by simp
  finally have buf: "map snd (shBuf (igShared i)) = produced [sample_event0]" .
  let ?one = "map (\<lambda>p. delivered p 0 0) (produced [sample_event0])"
  let ?rs = "concat (replicate c ?one)"
  let ?s2 = "?s0\<lparr>syIng := i, syPolled := ?rs, syProc := (proc_init n 0 mem0)\<lparr>batch := ?rs\<rparr>\<rparr>"
  have one: "map k_payload ?one = map p_payload (produced [sample_event0])" by simp
  have pay: "map k_payload ?rs = concat (replicate c (map p_payload (produced [sample_event0])))"
    by (simp only: map_concat map_replicate one)
  have "trade_text sample_event0 \<and> wire_trade sample_event0 = sample_event0"
    using accepted_wire [of sample_event0 ascii_tables "\<lambda>_. Errorf []" "[(sample_raw, 0)]"] unfolding sample_accepted by simp
  then have "decoded ?one = [sample_event0]"
    using produced_decoded [of "[sample_event0]" "\<lambda>_. 0" "\<lambda>_. 0"] sample_event0_enriched(2) by simp
  then have dec: "decoded ?rs = replicate c sample_event0"
    by (induction c) (simp_all add: decoded_def List.map_filter_def)
  have "proc_step (mem_client {} (Errorf [])) (proc_init n 0 mem0) (Polled ?rs) ((proc_init n 0 mem0)\<lparr>batch := ?rs\<rparr>)"
    by (rule polled) (simp_all add: proc_init_def)
  moreover have "set (map k_payload ?rs) \<subseteq> set (map p_payload (produced [sample_event0]))" unfolding pay by auto
  then have "any_delivery (sy_buf (?s0\<lparr>syIng := i\<rparr>)) (syPolled (?s0\<lparr>syIng := i\<rparr>)) ?rs"
    by (simp only: any_delivery_def set_map) (simp add: sy_buf_def buf)
  ultimately have "sample_sys n ?s2"
    using sys_next [OF s1 polls, of ?rs "(proc_init n 0 mem0)\<lparr>batch := ?rs\<rparr>"] by (simp add: sys_init_def)
  from sys_quiesces [OF this] obtain p where p: "sample_sys n (?s2\<lparr>syProc := p\<rparr>)"
      "quiet (mem_client {} (Errorf [])) p" "pctx p = None" by (auto simp: proc_init_def)
  have all: "map k_payload (syPolled (?s2\<lparr>syProc := p\<rparr>)) = concat (replicate c (map p_payload (sy_buf (?s2\<lparr>syProc := p\<rparr>))))"
    using pay by (simp add: sy_buf_def buf)
  show thesis by (rule that [OF p(1) _ _ all]) (use p len i(3) dec in simp_all)
qed

lemma sample_sent:
  assumes "length (igWorkers i) = 1" "wkMsgs (igWorkers i ! 0) = [(sample_raw, 0)]"
  shows "exchange ascii_tables (\<lambda>_. Errorf []) i = [sample_event0]"
    and "sole_source ascii_tables (\<lambda>_. Errorf []) i sb 0"
  using assms by (auto simp: exchange_def sole_source_def length_Suc_conv sample_accepted simp del: accepted_simps)

text \<open>A run in which the record is polled once, and the trade the Redis writer has then written.\<close>

lemma sample_once:
  obtains s where "sample_sys n s" "length (igWorkers (syIng s)) = 1" "wkMsgs (igWorkers (syIng s) ! 0) = [(sample_raw, 0)]"
    "caught_up_on sb s" "in_order_once sb s" "quiet (mem_client {} (Errorf [])) (syProc s)" "pctx (syProc s) = None"
    "rwSeen (syProc s) = [enrich metadata sample_event0]"
proof -
  obtain s where s: "sample_sys n s" "length (igWorkers (syIng s)) = 1" "wkMsgs (igWorkers (syIng s) ! 0) = [(sample_raw, 0)]"
    "map k_payload (syPolled s) = concat (replicate 1 (map p_payload (sy_buf s)))"
    "quiet (mem_client {} (Errorf [])) (syProc s)" "pctx (syProc s) = None" "decoded (syPolled s) = replicate 1 sample_event0"
    by (rule sample_system)
  note q = quiet_polled [OF s(1,5,6)]
  have "mset (rwSeen (syProc s)) = {#enrich metadata sample_event0#}"
    using drained_handled [OF sys_proc_inv(2) [OF s(1)] q(1,2)] q(3) s(7) by (simp add: enriched_def)
  then have "rwSeen (syProc s) = [enrich metadata sample_event0]" by simp
  moreover have "caught_up_on sb s" "in_order_once sb s" using s(4) by (simp_all add: caught_up_on_def in_order_once_def)
  ultimately show thesis using that s(1-3,5,6) by blast
qed

section \<open>Properties\<close>

text \<open>C1. From the exchange to the sinks, over the whole system, under any schedule, any pool size and a
  topic of which only one thing is assumed, that it returns nothing that was not produced: in
  every state the two services can reach together, each sink holds or has handled no trade more
  often than the topic has delivered it, and every trade delivered is an encodable one that the
  exchange sent in a message some worker read and accepted. When the live pipeline has no step
  left, each sink has handled exactly what was delivered, enriched; if besides every record
  produced has been delivered, at least once, each sink has handled every encodable trade the
  exchange sent, at least once. Redelivery is the only source of repetition: as long as the
  topic has delivered no record more often than it was produced, no sink holds or has handled a
  trade more often than the exchange sent it.\<close>

theorem system_at_least_once:
  assumes "sys_reach U jerr env broker client (sys_init U configured now n m r0) s" "ws_library env" "from_producer broker"
    and "sink_triple want sink seen"
  shows "let sent = enriched (filter trade_encodable (exchange U jerr (syIng s)));
             got = enriched (decoded (syPolled s)); p = syProc s
         in account want sink seen p \<subseteq># got \<and> set_mset got \<subseteq> set_mset sent \<and>
            (quiet client p \<and> pctx p = None \<longrightarrow> mset (seen p) = got) \<and>
            (quiet client p \<and> pctx p = None \<and> delivered_all s \<longrightarrow> sent \<subseteq># mset (seen p)) \<and>
            (no_redelivery s \<longrightarrow> account want sink seen p \<subseteq># sent)"
proof -
  let ?sent = "enriched (filter trade_encodable (exchange U jerr (syIng s)))" and ?p = "syProc s"
  let ?got = "enriched (decoded (syPolled s))"
  note inv = sys_proc_inv(2) [OF assms(1)]
  have acc: "account want sink seen ?p \<subseteq># ?got"
    unfolding sinks_submitted [OF inv assms(4)] by (intro enriched_mono subseq_mset submitted_polled [OF assms(1)])
  have "mset (seen ?p) = ?got" if q: "quiet client ?p" "pctx ?p = None"
    using drained_handled [OF inv quiet_polled(1,2) [OF assms(1) q]] quiet_polled(3) [OF assms(1) q] assms(4)
    by (auto simp: sink_triple_def)
  moreover have "?sent \<subseteq># ?got" if "delivered_all s"
    using delivered_exchange(1) [OF assms(1,2) that] by (intro enriched_mono) simp
  moreover have "?got \<subseteq># ?sent" if "no_redelivery s"
    using delivered_exchange(2) [OF assms(1,2) that] by (intro enriched_mono) simp
  moreover have "set_mset ?got \<subseteq> set_mset ?sent" using delivered_sent [OF assms(1-3)] by (auto simp: enriched_def)
  ultimately show ?thesis using acc subset_mset.order_trans [OF acc] by (simp add: Let_def)
qed

theorem system_at_least_once_witness:
  "\<exists>s. sample_sys 4 s \<and> exchange ascii_tables (\<lambda>_. Errorf []) (syIng s) = [sample_event0] \<and>
     mset (obSeen (syProc s)) = {#enrich metadata sample_event0, enrich metadata sample_event0#}"
proof -
  obtain s where s: "sample_sys 4 s" "length (igWorkers (syIng s)) = 1" "wkMsgs (igWorkers (syIng s) ! 0) = [(sample_raw, 0)]"
    "map k_payload (syPolled s) = concat (replicate 2 (map p_payload (sy_buf s)))"
    "quiet (mem_client {} (Errorf [])) (syProc s)" "pctx (syProc s) = None" "decoded (syPolled s) = replicate 2 sample_event0"
    by (rule sample_system)
  have "sink_triple ob orderBook obSeen" by (simp add: sink_triple_def)
  from system_at_least_once [OF s(1) sample_env_library any_delivery_law this] s(1,5-7) sample_sent(1) [OF s(2,3)]
  show ?thesis by (intro exI [of _ s]) (simp add: Let_def enriched_def numeral_2_eq_2)
qed

text \<open>C5. Order from the exchange to the sinks, with one worker in the pool and no delivery given up: each
  sink has handled the trades of a symbol in the order in which the topic delivered their
  records, whatever it repeated. If besides the topic has delivered the symbol's records in the
  order of production and none of them again, and only one worker was sent trades of the symbol
  (which the code does not check), then that is the order in which the exchange's messages were
  read, across every reconnect.\<close>

theorem system_keeps_order:
  assumes "sys_reach U jerr env broker client (sys_init U configured now 1 m r0) s" "ws_library env" "from_producer broker"
    and "aborted (syProc s) = []" "sink_triple want sink seen"
  shows "let handled = of_symbol sb (seen (syProc s));
             got = map (enrich metadata) (of_symbol sb (decoded (syPolled s)));
             read = map (enrich metadata) (of_symbol sb (accepted U jerr (wkMsgs (igWorkers (syIng s) ! k))))
         in subseq handled got \<and>
            (in_order_once sb s \<and> sole_source U jerr (syIng s) sb k \<longrightarrow> subseq handled read)"
proof -
  note got = sink_symbol_order [OF assms(1,5,4), of sb]
  show ?thesis
    unfolding Let_def using got subseq_map [OF delivered_symbol_order [OF assms(1-3)], of sb k "enrich metadata"]
    by (blast intro: subseq_order.order_trans)
qed

theorem system_keeps_order_witness:
  "\<exists>s. sample_sys 1 s \<and> rwSeen (syProc s) = [enrich metadata sample_event0] \<and>
     subseq (of_symbol ''BTCUSDT'' (rwSeen (syProc s))) [enrich metadata sample_event0]"
proof -
  obtain s where s: "sample_sys 1 s" "length (igWorkers (syIng s)) = 1" "wkMsgs (igWorkers (syIng s) ! 0) = [(sample_raw, 0)]"
    "caught_up_on ''BTCUSDT'' s" "in_order_once ''BTCUSDT'' s" "quiet (mem_client {} (Errorf [])) (syProc s)" "pctx (syProc s) = None"
    "rwSeen (syProc s) = [enrich metadata sample_event0]" by (rule sample_once)
  note q = quiet_polled [OF s(1,6,7)]
  have "sink_triple rw redisWriter rwSeen" by (simp add: sink_triple_def)
  from system_keeps_order [OF s(1) sample_env_library any_delivery_law q(2) this, of "''BTCUSDT''" 0] s(3,5)
    sample_sent(2) [OF s(2,3), of "''BTCUSDT''"]
  have "subseq (of_symbol ''BTCUSDT'' (rwSeen (syProc s)))
      (map (enrich metadata) (of_symbol ''BTCUSDT'' (accepted ascii_tables (\<lambda>_. Errorf []) [(sample_raw, 0)])))"
    by (simp add: Let_def del: accepted_simps)
  then show ?thesis using s(1,8) sample_event0_enriched(1) unfolding sample_accepted by (auto simp: of_symbol_def)
qed

text \<open>C4. The API serves the newest trade of the exchange, under conditions that are all needed: one
  worker in the pool; the topic has delivered the symbol's records in order, each exactly once; the
  live pipeline has no step left; only one worker was sent trades of the symbol, which the code
  does not check; and every SET succeeded, as the writer only logs one that fails. Then a request
  for the symbol is answered 200 with the last trade that the symbol's connection delivered and
  that can be encoded, enriched.\<close>

theorem system_serves_newest:
  assumes "sys_reach U jerr env broker client (sys_init U configured now 1 m r0) s" "ws_library env" "from_producer broker"
    and "caught_up_on sb s" "quiet client (syProc s)" "pctx (syProc s) = None" "sole_source U jerr (syIng s) sb k"
    and "redis_laws client view" "sets_succeed client" "reads_from rd (view (redis (syProc s)))"
    and "normalizeSymbol U p = sb" "sb \<noteq> []"
    and "last_trade sb (map (enrich metadata) (accepted U jerr (wkMsgs (igWorkers (syIng s) ! k)))) = Some e"
  shows "\<exists>tj. enc_tradeResponse \<lparr>trSymbol = sb, trTrades = Some [e], trSource = ''redis''\<rparr> = Some tj \<and>
     LatestTrade U rd p = (200, json_print tj @ [CHR 0x0A])"
proof -
  have "last_trade sb (rwSeen (syProc s)) = Some e" using newest_in_cache [OF assms(1-3,5,6,4,7)] assms(13) by simp
  then show ?thesis by (rule cache_serves [OF assms(8,9) sys_proc_inv(1) [OF assms(1)] _ assms(10-12)])
qed

theorem system_serves_newest_witness:
  "\<exists>s. sample_sys 1 s \<and> wkMsgs (igWorkers (syIng s) ! 0) = [(sample_raw, 0)] \<and>
     fst (LatestTrade ascii_tables (mem_reader (redis (syProc s))) '' btcusdt'') = 200"
proof -
  obtain s where s: "sample_sys 1 s" "length (igWorkers (syIng s)) = 1" "wkMsgs (igWorkers (syIng s) ! 0) = [(sample_raw, 0)]"
    "caught_up_on ''BTCUSDT'' s" "quiet (mem_client {} (Errorf [])) (syProc s)" "pctx (syProc s) = None" by (rule sample_once)
  have n: "normalizeSymbol ascii_tables '' btcusdt'' = ''BTCUSDT''" by code_simp
  have l: "last_trade ''BTCUSDT'' (map (enrich metadata) (accepted ascii_tables (\<lambda>_. Errorf []) (wkMsgs (igWorkers (syIng s) ! 0)))) =
      Some (enrich metadata sample_event0)"
    unfolding s(3) sample_accepted using sample_event0_enriched by (simp add: last_trade_def)
  show ?thesis
    using system_serves_newest [OF s(1) sample_env_library any_delivery_law s(4-6) sample_sent(2) [OF s(2,3)]
        mem_client_laws mem_sets_succeed mem_reader_reads n _ l] s(1,3) by auto
qed

text \<open>C6. Provenance: whatever the topic repeats or reorders, as long as it invents nothing, whatever the
  schedule and pool size, and whichever writes to the cache fail, as long as a failed SET leaves
  its key as it was or sets it, a latest trade that the cache has gained since the start is one
  that the exchange sent in a message some worker read and accepted: the API answers 200 with
  that trade, enriched.\<close>

theorem served_trade_provenance:
  assumes "sys_reach U jerr env broker client (sys_init U configured now n m r0) s" "ws_library env" "from_producer broker"
    and "redis_laws client view" "set_all_or_nothing client view" "reads_from rd (view (redis (syProc s)))"
    and "view r0 (KeyLatestTrade sb) = None" "view (redis (syProc s)) (KeyLatestTrade sb) \<noteq> None"
    and "normalizeSymbol U p = sb" "sb \<noteq> []"
  shows "\<exists>w raw t e tj. w \<in> set (igWorkers (syIng s)) \<and> (raw, t) \<in> set (wkMsgs w) \<and>
     normalizeTrade U jerr raw t = Inr e \<and> Symbol e = sb \<and>
     enc_tradeResponse \<lparr>trSymbol = sb, trTrades = Some [enrich metadata e], trSource = ''redis''\<rparr> = Some tj \<and>
     LatestTrade U rd p = (200, json_print tj @ [CHR 0x0A])"
proof -
  note pr = sys_proc_inv(1) [OF assms(1)]
  obtain e v where e: "e \<in> set (rwSeen (syProc s))" "Symbol e = sb" "marshal_trade e = Some v"
      "view (redis (syProc s)) (KeyLatestTrade sb) = Some (ArgBytes v)"
    using cache_from_reach [OF assms(4,5) pr] assms(7,8) unfolding cache_from_def by metis
  have tr: "sink_triple rw redisWriter rwSeen" by (simp add: sink_triple_def)
  have "e \<in># account rw redisWriter rwSeen (syProc s)" using e(1) by (simp add: account_def)
  then obtain w raw t e0 where o: "w \<in> set (igWorkers (syIng s))" "(raw, t) \<in> set (wkMsgs w)"
      "normalizeTrade U jerr raw t = Inr e0" "e = enrich metadata e0"
    by (rule sink_provenance [OF assms(1-3) tr])
  have "Symbol e0 = sb" using e(2) o(4) by simp
  with o cached_trade_served [where view = view, OF pr e(1,3,4) assms(6,9,10)] show ?thesis by blast
qed

theorem served_trade_provenance_witness:
  "\<exists>s w raw t e tj. sample_sys 4 s \<and> w \<in> set (igWorkers (syIng s)) \<and> (raw, t) \<in> set (wkMsgs w) \<and>
     normalizeTrade ascii_tables (\<lambda>_. Errorf []) raw t = Inr e \<and>
     LatestTrade ascii_tables (mem_reader (redis (syProc s))) '' btcusdt'' = (200, json_print tj @ [CHR 0x0A])"
proof -
  obtain s where s: "sample_sys 4 s" "rwSeen (syProc s) = [enrich metadata sample_event0]" by (rule sample_once)
  have n: "normalizeSymbol ascii_tables '' btcusdt'' = ''BTCUSDT''" by code_simp
  have "last_trade ''BTCUSDT'' (rwSeen (syProc s)) = Some (enrich metadata sample_event0)"
    unfolding s(2) using sample_event0_enriched by (simp add: last_trade_def)
  then have "kv (redis (syProc s)) (KeyLatestTrade ''BTCUSDT'') = map_option ArgBytes (marshal_trade (enrich metadata sample_event0))"
    using cache_line_reach [OF mem_client_laws mem_sets_succeed sys_proc_inv(1) [OF s(1)]] by (simp add: cache_line_def)
  then have c: "kv (redis (syProc s)) (KeyLatestTrade ''BTCUSDT'') \<noteq> None"
    using sample_event0_enriched(3) marshal_trade_None by simp
  have "kv mem0 (KeyLatestTrade ''BTCUSDT'') = None" by (simp add: mem0_def)
  from served_trade_provenance [OF s(1) sample_env_library any_delivery_law
      mem_client_laws mem_all_or_nothing mem_reader_reads this c n] s(1)
  show ?thesis by (simp only: list.distinct not_False_eq_True simp_thms) blast
qed

end
