(* ===== verification/Reports.thy ===== *)
theory Reports
  imports Api WireText
begin

text \<open>
  The bytes of the health reports: the JSON forms of the ops report with its details
  (\<open>shared/httpserver/server.go\<close>, \<open>shared/version\<close>, the tags of \<open>shared/kafka\<close>) and of the public report
  (\<open>services/api-service/rest/health.go\<close>). A map is written in the order of its keys. The lemmas lift
  the contract \<open>json_codec\<close> from values to maps; the theorem reads the bytes back as a prober
  does.
\<close>

section \<open>Maps\<close>

text \<open>The entries of a map by key; \<open>names\<close> lists the keys in use.\<close>

definition map_entries :: "string list \<Rightarrow> (string \<rightharpoonup> 'v) \<Rightarrow> (string \<times> 'v) list" where
  "map_entries names m = List.map_filter (\<lambda>k. map_option (Pair k) (m k)) (sort (remdups names))"

definition enc_entries :: "('v \<Rightarrow> json option) \<Rightarrow> (string \<times> 'v) list \<Rightarrow> json option" where
  "enc_entries f kvs = enc_obj (map (\<lambda>(k, v). (quote k, f v)) kvs)"

section \<open>Reports\<close>

definition enc_Info :: "Info \<Rightarrow> json option" where
  "enc_Info b = enc_obj
     [(''version'', enc_string (Version b)), (''commit'', enc_string (Commit b)), (''date'', enc_string (Date b))]"

definition enc_PartitionLag :: "PartitionLag \<Rightarrow> json option" where
  "enc_PartitionLag p = enc_obj
     ([(''partition'', Some (JNum (FormatInt (sint (Partition p))))), (''lag'', enc_int64 (PLag p))] @
      unless (PError p = []) (''error'', enc_string (PError p)))"

fun enc_detail :: "detail \<Rightarrow> json option" where
  "enc_detail (DStr s) = enc_string s"
| "enc_detail (DInt i) = Some (JNum (FormatInt i))"
| "enc_detail (DBool b) = Some (JBool b)"
| "enc_detail (DTime t) = enc_time t"
| "enc_detail (DParts ps) = map_option JArr (enc_list enc_PartitionLag ps)"

definition detail_names :: "string list" where
  "detail_names = [''group'', ''topic'', ''state'', ''members'', ''total'', ''stalled'', ''failures'', ''partitions'',
     ''as_of'', ''age_seconds'', ''last_error'']"

definition enc_details :: "(string \<rightharpoonup> detail) \<Rightarrow> json option" where
  "enc_details d = enc_entries enc_detail (map_entries detail_names d)"

definition enc_healthResponse :: "string list \<Rightarrow> (string \<rightharpoonup> detail) healthResponse \<Rightarrow> json option" where
  "enc_healthResponse names r =
     (let details = (case hDetails r of None \<Rightarrow> [] | Some m \<Rightarrow> map_entries names m)
      in enc_obj
        ([(''status'', enc_string (hStatus r))] @
         unless (hService r = []) (''service'', enc_string (hService r)) @
         [(''build'', enc_Info (hBuild r)), (''checks'', enc_entries enc_string (map_entries names (hChecks r)))] @
         unless (details = []) (''details'', enc_entries enc_details details)))"

text \<open>The handlers down to the bytes: \<open>Encode\<close> on the response writer, as in \<open>writeJSON\<close>.\<close>

definition ops_health :: "Info \<Rightarrow> duration option \<Rightarrow> (string \<rightharpoonup> detail) healthRegistry \<Rightarrow> response" where
  "ops_health build left reg =
     (let (code, resp) = handleHealth build left reg
      in writeJSON code (enc_healthResponse (map cName (health_snapshot reg)) resp))"

definition ops_live :: "Info \<Rightarrow> response" where
  "ops_live build =
     (let (code, status, b) = handleLive build
      in writeJSON code (enc_obj [(''status'', enc_string status), (''build'', enc_Info b)]))"

definition enc_publicHealth :: "publicHealth \<Rightarrow> json option" where
  "enc_publicHealth r = enc_obj
     [(''status'', enc_string (phStatus r)), (''service'', enc_string (phService r)), (''build'', enc_Info (phBuild r)),
      (''checks'', enc_entries enc_string (map_entries [''kafka_consumer_lag'', ''redis''] (phChecks r)))]"

definition public_health :: "Info \<Rightarrow> duration option \<Rightarrow> HealthHandler \<Rightarrow> response" where
  "public_health build left h = (let (code, resp) = Health build left h in writeJSON code (enc_publicHealth resp))"

section \<open>The public server\<close>

text \<open>The server with the router as its handler. How chi matches a path against the routes is the
  parameter \<open>chi\<close>: it gives the route and the value of \<open>{symbol}\<close>, or nothing, and then chi itself
  answers. A handler gets what is left of the request's deadline.\<close>

record PublicServer =
  psAddr :: string
  psHandler :: "duration option \<Rightarrow> string \<Rightarrow> response option"
  psReadHeaderTimeout :: duration

definition route_handler :: "unicode \<Rightarrow> Info \<Rightarrow> RedisReader \<Rightarrow> HealthHandler \<Rightarrow> duration option \<Rightarrow> route \<Rightarrow> string \<Rightarrow> response" where
  "route_handler U build reader h left rt sb =
     (case rt of
        HealthRoute \<Rightarrow> public_health build left h
      | TradesRoute \<Rightarrow> LatestTrade U reader sb
      | OrderBookRoute \<Rightarrow> OrderBook_handler U reader sb)"

type_synonym chi_match = "(string \<times> route) list \<Rightarrow> string \<Rightarrow> (route \<times> string) option"

definition NewPublicServer :: "chi_match \<Rightarrow> unicode \<Rightarrow> Info \<Rightarrow> string \<Rightarrow> RedisReader \<Rightarrow> HealthHandler \<Rightarrow> PublicServer" where
  "NewPublicServer chi U build addr reader h =
     \<lparr>psAddr = addr,
      psHandler = (\<lambda>left path. map_option (\<lambda>(rt, sb). route_handler U build reader h left rt sb) (chi NewRouter path)),
      psReadHeaderTimeout = 5 * Second\<rparr>"

text \<open>The route tables at hand: each pattern is a plain path or ends in the parameter as its last
  segment. A path that is a pattern goes to its route, another to the route whose parameter stands
  for the path's last segment.\<close>

definition simple_routes :: "(string \<times> route) list \<Rightarrow> bool" where
  "simple_routes routes =
     (distinct (map fst routes) \<and>
      (\<forall>p \<in> set (map fst routes). CHR ''{'' \<notin> set p \<or> (\<exists>pat. p = pat @ ''/{symbol}'' \<and> CHR ''{'' \<notin> set pat)))"

definition chi_law :: "chi_match \<Rightarrow> bool" where
  "chi_law chi =
     (\<forall>routes. simple_routes routes \<longrightarrow>
        (\<forall>pat rt sb. (pat @ ''/{symbol}'', rt) \<in> set routes \<and> sb \<noteq> [] \<and> CHR ''/'' \<notin> set sb \<and>
           pat @ ''/'' @ sb \<notin> set (map fst routes) \<longrightarrow> chi routes (pat @ ''/'' @ sb) = Some (rt, sb)) \<and>
        (\<forall>pat rt. (pat, rt) \<in> set routes \<and> CHR ''{'' \<notin> set pat \<longrightarrow> chi routes pat = Some (rt, [])))"

lemma NewRouter_simple: "simple_routes NewRouter"
proof -
  have "\<exists>pat. ''/api/v1/trades/{symbol}'' = pat @ ''/{symbol}'' \<and> CHR ''{'' \<notin> set pat"
    by (rule exI [of _ "''/api/v1/trades''"]) simp
  moreover have "\<exists>pat. ''/api/v1/orderbook/{symbol}'' = pat @ ''/{symbol}'' \<and> CHR ''{'' \<notin> set pat"
    by (rule exI [of _ "''/api/v1/orderbook''"]) simp
  ultimately show ?thesis by (simp add: simple_routes_def NewRouter_def)
qed

lemma public_requests:
  assumes "chi_law chi" "sb \<noteq> []" "CHR ''/'' \<notin> set sb" "CHR ''{'' \<notin> set sb"
  shows "psHandler (NewPublicServer chi U build addr rd h) left (''/api/v1/trades/'' @ sb) = Some (LatestTrade U rd sb)"
    and "psHandler (NewPublicServer chi U build addr rd h) left (''/api/v1/orderbook/'' @ sb) = Some (OrderBook_handler U rd sb)"
    and "psHandler (NewPublicServer chi U build addr rd h) left ''/api/v1/health'' = Some (public_health build left h)"
proof -
  have param: "chi NewRouter (pat @ ''/'' @ sb) = Some (rt, sb)"
    if "(pat @ ''/{symbol}'', rt) \<in> set NewRouter" "pat @ ''/'' @ sb \<notin> set (map fst NewRouter)" for pat rt
    using assms(1-3) NewRouter_simple that unfolding chi_law_def by blast
  have "chi NewRouter (''/api/v1/trades'' @ ''/'' @ sb) = Some (TradesRoute, sb)"
    by (rule param) (use assms(4) in \<open>auto simp: NewRouter_def\<close>)
  moreover have "chi NewRouter (''/api/v1/orderbook'' @ ''/'' @ sb) = Some (OrderBookRoute, sb)"
    by (rule param) (use assms(4) in \<open>auto simp: NewRouter_def\<close>)
  moreover have "chi NewRouter ''/api/v1/health'' = Some (HealthRoute, [])"
    using assms(1) NewRouter_simple unfolding chi_law_def by (simp add: NewRouter_def)
  ultimately show "psHandler (NewPublicServer chi U build addr rd h) left (''/api/v1/trades/'' @ sb) = Some (LatestTrade U rd sb)"
    "psHandler (NewPublicServer chi U build addr rd h) left (''/api/v1/orderbook/'' @ sb) = Some (OrderBook_handler U rd sb)"
    "psHandler (NewPublicServer chi U build addr rd h) left ''/api/v1/health'' = Some (public_health build left h)"
    by (simp_all add: NewPublicServer_def route_handler_def)
qed

text \<open>A matcher with this behaviour.\<close>

definition segment_match :: chi_match where
  "segment_match routes path =
     (case map_of routes path of
        Some rt \<Rightarrow> Some (rt, [])
      | None \<Rightarrow>
          (let sb = rev (takeWhile (\<lambda>c. c \<noteq> CHR ''/'') (rev path)); pat = rev (dropWhile (\<lambda>c. c \<noteq> CHR ''/'') (rev path))
           in if sb = [] then None else map_option (\<lambda>rt. (rt, sb)) (map_of routes (pat @ ''{symbol}''))))"

lemma last_segment:
  assumes "CHR ''/'' \<notin> set sb"
  shows "rev (takeWhile (\<lambda>c. c \<noteq> CHR ''/'') (rev (pat @ ''/'' @ sb))) = sb"
    "rev (dropWhile (\<lambda>c. c \<noteq> CHR ''/'') (rev (pat @ ''/'' @ sb))) = pat @ ''/''"
proof -
  have "takeWhile (\<lambda>c. c \<noteq> CHR ''/'') (rev sb @ CHR ''/'' # rev pat) = rev sb"
    "dropWhile (\<lambda>c. c \<noteq> CHR ''/'') (rev sb @ CHR ''/'' # rev pat) = CHR ''/'' # rev pat"
    using assms by (simp_all add: takeWhile_append dropWhile_append)
  then show "rev (takeWhile (\<lambda>c. c \<noteq> CHR ''/'') (rev (pat @ ''/'' @ sb))) = sb"
    "rev (dropWhile (\<lambda>c. c \<noteq> CHR ''/'') (rev (pat @ ''/'' @ sb))) = pat @ ''/''" by simp_all
qed

lemma segment_match_law: "chi_law segment_match"
  unfolding chi_law_def
proof (intro allI impI conjI)
  fix routes pat rt sb
  assume r: "simple_routes routes"
    and m: "(pat @ ''/{symbol}'', rt) \<in> set routes \<and> sb \<noteq> [] \<and> CHR ''/'' \<notin> set sb \<and> pat @ ''/'' @ sb \<notin> set (map fst routes)"
  have n: "map_of routes (pat @ ''/'' @ sb) = None" using m by (simp add: map_of_eq_None_iff)
  have "map_of routes ((pat @ ''/'') @ ''{symbol}'') = Some rt" using r m by (simp add: simple_routes_def)
  then show "segment_match routes (pat @ ''/'' @ sb) = Some (rt, sb)"
    using m n last_segment [of sb pat] unfolding segment_match_def by (simp only: Let_def) simp
next
  fix routes pat rt assume "simple_routes routes" "(pat, rt) \<in> set routes \<and> CHR ''{'' \<notin> set pat"
  then have "map_of routes pat = Some rt" by (simp add: simple_routes_def)
  then show "segment_match routes pat = Some (rt, [])" by (simp add: segment_match_def)
qed

section \<open>Reading a report\<close>

text \<open>A prober that unmarshals a body into a struct with the status and the map of checks; a later
  entry of a map replaces an earlier one.\<close>

fun dec_pairs :: "(json \<Rightarrow> 'v option) \<Rightarrow> (string \<times> json) list \<Rightarrow> (string \<times> 'v) list option" where
  "dec_pairs f [] = Some []"
| "dec_pairs f ((k, v) # ms) =
     (case f v of None \<Rightarrow> None | Some x \<Rightarrow> map_option (\<lambda>kvs. (unquote k, x) # kvs) (dec_pairs f ms))"

definition dec_entries :: "(json \<Rightarrow> 'v option) \<Rightarrow> json \<Rightarrow> (string \<times> 'v) list option" where
  "dec_entries f v = (case v of JObj ms \<Rightarrow> dec_pairs f ms | JNull \<Rightarrow> Some [] | _ \<Rightarrow> None)"

record probe =
  pbStatus :: string
  pbChecks :: "string \<rightharpoonup> string"

definition store_probe :: "string \<Rightarrow> json \<Rightarrow> probe \<Rightarrow> probe option" where
  "store_probe n v p =
     (if n = ''status'' then map_option (\<lambda>s. p\<lparr>pbStatus := s\<rparr>) (dec_string (pbStatus p) v)
      else map_option (\<lambda>kvs. p\<lparr>pbChecks := pbChecks p ++ map_of (rev kvs)\<rparr>) (dec_entries (dec_string []) v))"

definition read_probe :: "string \<Rightarrow> probe option" where
  "read_probe body =
     (case json_parse body of
        None \<Rightarrow> None
      | Some v \<Rightarrow> dec_struct [''status'', ''checks''] store_probe \<lparr>pbStatus = [], pbChecks = Map.empty\<rparr> v)"

section \<open>Lemmas\<close>

context json_enc
begin

lemma entries_enc: "json_enc (enc_entries enc) (Suc depth)"
proof
  fix kvs j
  assume e: "enc_entries enc kvs = Some j"
  have "list_all (doc_member depth) (map (\<lambda>(k, v). (quote k, enc v)) kvs)"
    by (auto simp: list_all_iff doc_enc)
  then show "wf_json j" "jdepth j \<le> Suc depth"
    using enc_obj_doc [OF e [unfolded enc_entries_def]] by blast+
qed

end

context json_codec
begin

lemma dec_pairs_enc:
  "map (\<lambda>(k, v). (quote k, enc v)) kvs = map (\<lambda>(k, j). (k, Some j)) js \<Longrightarrow>
     list_all (\<lambda>(k, v). utf8_valid k \<and> ok v) kvs \<Longrightarrow> dec_pairs dec js = Some kvs"
proof (induction kvs arbitrary: js)
  case (Cons kv kvs)
  then show ?case by (cases js) (auto simp: dec_enc unquote_quote split: prod.splits)
qed simp

lemma dec_entries_enc:
  "enc_entries enc kvs = Some j \<Longrightarrow> list_all (\<lambda>(k, v). utf8_valid k \<and> ok v) kvs \<Longrightarrow> dec_entries dec j = Some kvs"
  by (auto simp: enc_entries_def enc_obj_def enc_members_Some dec_entries_def dec_pairs_enc)

end

interpretation checks_codec: json_codec "enc_entries enc_string" 1 "dec_entries (dec_string old)"
  "list_all (\<lambda>(k, v). utf8_valid k \<and> utf8_valid v)" for old
  by (intro json_codec.intro json_codec_axioms.intro string_codec.dec_entries_enc)
     (use string_codec.entries_enc in simp_all)

lemma map_entries_iff: "(k, v) \<in> set (map_entries names m) \<longleftrightarrow> k \<in> set names \<and> m k = Some v"
  by (auto simp: map_entries_def List.map_filter_def image_iff)

lemma map_entries_keys: "map fst (map_entries names m) = filter (\<lambda>k. m k \<noteq> None) (sort (remdups names))"
  by (auto simp: map_entries_def List.map_filter_def intro!: map_idI)

lemma map_entries_sorted: "sorted (map fst (map_entries names m))" "distinct (map fst (map_entries names m))"
  unfolding map_entries_keys by (simp_all add: sorted_wrt_filter)

lemma map_of_entries:
  assumes "dom m \<subseteq> set names"
  shows "map_of (rev (map_entries names m)) = m"
proof
  fix k
  have d: "distinct (map fst (rev (map_entries names m)))"
    using map_entries_sorted(2) [of names m] by (simp add: rev_map [symmetric])
  show "map_of (rev (map_entries names m)) k = m k"
  proof (cases "m k")
    case None
    then show ?thesis by (auto simp: map_of_eq_None_iff map_entries_iff)
  next
    case (Some v)
    then have "(k, v) \<in> set (rev (map_entries names m))" using assms by (auto simp: map_entries_iff)
    then show ?thesis using d Some by (simp add: map_of_is_SomeI)
  qed
qed

text \<open>The keys of the reports are plain text.\<close>

lemma report_keys_plain:
  "list_all (list_all plain_char) [''version'', ''commit'', ''date'', ''partition'', ''lag'', ''error'', ''status'', ''service'',
     ''build'', ''checks'', ''details'']"
  by code_simp

lemma report_keys:
  "list_all (\<lambda>k. token_ok k \<and> unquote k = k) [''version'', ''commit'', ''date'', ''partition'', ''lag'', ''error'', ''status'',
     ''service'', ''build'', ''checks'', ''details'']"
  using report_keys_plain by (simp add: plain_token plain_unquote)

lemmas report_key_simps = report_keys [simplified]

interpretation info_enc: json_enc enc_Info 1
proof
  fix b j
  assume e: "enc_Info b = Some j"
  show "wf_json j" "jdepth j \<le> 1"
    using enc_obj_doc [OF e [unfolded enc_Info_def], of 0] by (simp_all add: report_key_simps string_codec.doc_enc)
qed

lemma number_doc: "doc_member n (k, Some (JNum (FormatInt i))) = token_ok k"
  by (simp add: doc_member_def FormatInt_number)

interpretation partition_enc: json_enc enc_PartitionLag 1
proof
  fix p j
  assume e: "enc_PartitionLag p = Some j"
  show "wf_json j" "jdepth j \<le> 1"
    using enc_obj_doc [OF e [unfolded enc_PartitionLag_def], of 0]
    by (simp_all add: report_key_simps list_all_unless string_codec.doc_enc int_codec.doc_enc number_doc)
qed

interpretation detail_enc: json_enc enc_detail 2
proof
  fix d j
  assume e: "enc_detail d = Some j"
  show "wf_json j" "jdepth j \<le> 2"
    using e partition_enc.array_enc string_codec.enc_wf string_codec.enc_depth time_codec.enc_wf time_codec.enc_depth
    by (cases d; fastforce simp: FormatInt_number)+
qed

interpretation details_enc: json_enc enc_details 3
  using detail_enc.entries_enc by (simp add: json_enc_def enc_details_def)

interpretation all_details_enc: json_enc "enc_entries enc_details" 4
  using details_enc.entries_enc by simp

lemma enc_healthResponse_doc:
  assumes "enc_healthResponse names r = Some j"
  shows "wf_json j" "jdepth j \<le> max_depth"
proof -
  have "wf_json j \<and> jdepth j \<le> Suc 4"
    using enc_obj_doc [OF assms [unfolded enc_healthResponse_def Let_def], of 4]
    by (simp add: report_key_simps list_all_unless string_codec.doc_enc info_enc.doc_enc checks_codec.doc_enc all_details_enc.doc_enc)
  then show "wf_json j" "jdepth j \<le> max_depth" by (simp_all add: max_depth_def)
qed

lemma json_parse_line:
  assumes "wf_json v" "jdepth v \<le> max_depth"
  shows "json_parse (json_print v @ [CHR 0x0A]) = Some v"
proof -
  have "stops [CHR 0x0A]" "skip_ws [CHR 0x0A] = []" by code_simp+
  then show ?thesis
    using reads_backD [OF print_reads_back assms(1), of 0 "Suc (2 * Suc (length (json_print v)))" "[CHR 0x0A]"] assms(2)
    by (simp add: json_parse_def)
qed

text \<open>What the report's fields are, beside status and checks.\<close>

lemma handleHealth_fields:
  "hService (snd (handleHealth build left reg)) = []" "hBuild (snd (handleHealth build left reg)) = build"
proof -
  have "hService (fold report_result rs resp) = hService resp \<and> hBuild (fold report_result rs resp) = hBuild resp"
    for rs and resp :: "'a healthResponse"
    by (induction rs arbitrary: resp) (auto simp: report_result_def Let_def split: option.split)
  then show "hService (snd (handleHealth build left reg)) = []" "hBuild (snd (handleHealth build left reg)) = build"
    by (simp_all add: handleHealth_def Let_def)
qed

lemma handleHealth_details:
  assumes "hDetails (snd (handleHealth build left reg)) = Some m" "m k = Some d"
  shows "\<exists>c \<in> set (checkers reg). cDetails c = Some d"
proof -
  have "hDetails (fold report_result rs resp) = Some m \<Longrightarrow> m k = Some d \<Longrightarrow>
      (\<forall>m'. hDetails resp = Some m' \<longrightarrow> m' k \<noteq> Some d) \<Longrightarrow> \<exists>r \<in> set rs. rDetail r = Some d"
    for rs and resp :: "'a healthResponse" and m
  proof (induction rs arbitrary: resp)
    case (Cons r rs)
    show ?case
    proof (cases "rDetail r = Some d")
      case False
      have "\<forall>m'. hDetails (report_result r resp) = Some m' \<longrightarrow> m' k \<noteq> Some d"
        using False Cons.prems(3) by (auto simp: report_result_def Let_def split: option.splits if_splits)
      with Cons show ?thesis by auto
    qed simp
  qed simp
  from this [of "fst (runChecks left (health_snapshot reg))"] assms show ?thesis
    by (fastforce simp: handleHealth_def Let_def runChecks_def health_snapshot_def split: if_splits)
qed

lemma handleHealth_dom: "dom (hChecks (snd (handleHealth build left reg))) \<subseteq> set (map cName (health_snapshot reg))"
  unfolding handleHealth_checks health_snapshot_def by (auto simp: dom_map_of_conv_image_fst)

lemma probe_skips:
  "match_field [''status'', ''checks''] ''service'' = None" "match_field [''status'', ''checks''] ''build'' = None"
  "match_field [''status'', ''checks''] ''details'' = None"
  "match_field [''status'', ''checks''] ''status'' = Some ''status''" "match_field [''status'', ''checks''] ''checks'' = Some ''checks''"
  by code_simp+

lemma dec_members_append:
  "dec_members names store (ms @ ms') r = (case dec_members names store ms r of None \<Rightarrow> None | Some r' \<Rightarrow> dec_members names store ms' r')"
  by (induction names store ms r rule: dec_members.induct) (auto split: option.split)

lemma dec_skip:
  "set (map fst ms) \<subseteq> {''service'', ''build'', ''details''} \<Longrightarrow>
     dec_members [''status'', ''checks''] store_probe ms p = Some p"
proof (induction ms)
  case (Cons kv ms)
  then show ?case by (cases kv) (auto simp: report_key_simps probe_skips)
qed simp

lemma enc_obj_Some: "enc_obj ms = Some j \<longleftrightarrow> (\<exists>js. j = JObj js \<and> ms = map (\<lambda>(k, j). (k, Some j)) js)"
  by (auto simp: enc_obj_def enc_members_Some)

text \<open>A report with other members around status and checks reads back to these two.\<close>

lemma probe_reads:
  assumes e: "enc_obj ([(''status'', enc_string st)] @ pre @ [(''checks'', enc_entries enc_string kvs)] @ post) = Some j"
    and keys: "set (map fst (pre @ post)) \<subseteq> {''service'', ''build'', ''details''}"
    and ok: "utf8_valid st" "list_all (\<lambda>(k, v). utf8_valid k \<and> utf8_valid v) kvs"
  shows "dec_struct [''status'', ''checks''] store_probe \<lparr>pbStatus = [], pbChecks = Map.empty\<rparr> j
    = Some \<lparr>pbStatus = st, pbChecks = map_of (rev kvs)\<rparr>"
proof -
  obtain js where j: "j = JObj js"
      "[(''status'', enc_string st)] @ pre @ [(''checks'', enc_entries enc_string kvs)] @ post = map (\<lambda>(k, j). (k, Some j)) js"
    using e unfolding enc_obj_Some by blast
  obtain jp jc jq where js: "js = (''status'', JStr (quote st)) # jp @ (''checks'', jc) # jq"
      "pre = map (\<lambda>(k, j). (k, Some j)) jp" "post = map (\<lambda>(k, j). (k, Some j)) jq" "enc_entries enc_string kvs = Some jc"
    using j(2) by (auto simp: enc_string_def append_eq_map_conv Cons_eq_map_conv)
  have "map fst pre = map fst jp" "map fst post = map fst jq" unfolding js by (simp_all add: comp_def case_prod_beta)
  with keys have skip: "set (map fst jp) \<subseteq> {''service'', ''build'', ''details''}" "set (map fst jq) \<subseteq> {''service'', ''build'', ''details''}"
    unfolding map_append set_append by simp_all
  have "dec_string [] (JStr (quote st)) = Some st" using ok(1) by (simp add: dec_string_def unquote_quote)
  moreover have "dec_entries (dec_string []) jc = Some kvs" by (rule checks_codec.dec_enc [OF js(4) ok(2)])
  ultimately show ?thesis
    by (simp add: j(1) js(1) dec_struct_obj dec_members_append report_key_simps probe_skips store_probe_def
        dec_skip [OF skip(1)] dec_skip [OF skip(2)])
qed

lemma enc_entries_None: "enc_entries f kvs = None \<longleftrightarrow> (\<exists>kv \<in> set kvs. f (snd kv) = None)"
  by (simp add: enc_entries_def enc_obj_None case_prod_beta)

lemma enc_Info_Some: "enc_Info b \<noteq> None"
  by (simp add: enc_Info_def enc_obj_None enc_string_def)

lemma ops_report_encodes:
  assumes "\<forall>c \<in> set (checkers reg). \<forall>d. cDetails c = Some d \<longrightarrow> enc_details d \<noteq> None"
  shows "\<exists>j. enc_healthResponse names (snd (handleHealth build left reg)) = Some j"
proof -
  let ?r = "snd (handleHealth build left reg)"
  let ?ds = "case hDetails ?r of None \<Rightarrow> [] | Some m \<Rightarrow> map_entries names m"
  have "enc_details d \<noteq> None" if "(k, d) \<in> set ?ds" for k d
  proof (cases "hDetails ?r")
    case (Some m)
    then have "m k = Some d" using that by (simp add: map_entries_iff)
    with handleHealth_details [OF Some] assms show ?thesis by blast
  qed (use that in simp)
  then have "enc_entries enc_details ?ds \<noteq> None" unfolding enc_entries_None by (metis prod.collapse)
  moreover have "enc_entries enc_string kvs \<noteq> None" for kvs by (simp add: enc_entries_None enc_string_def)
  ultimately have "enc_healthResponse names ?r \<noteq> None"
    using enc_Info_Some by (auto simp: enc_healthResponse_def Let_def enc_obj_None enc_string_def unless_def)
  then show ?thesis by blast
qed

text \<open>The public report reads back in the same way.\<close>

lemma public_health_reads_back:
  assumes "public_health build left h = (code, body)" "\<forall>v \<in> ran (phChecks (snd (Health build left h))). utf8_valid v"
  shows "code = fst (Health build left h) \<and>
    read_probe body = Some \<lparr>pbStatus = phStatus (snd (Health build left h)), pbChecks = phChecks (snd (Health build left h))\<rparr>"
proof -
  let ?r = "snd (Health build left h)" and ?names = "[''kafka_consumer_lag'', ''redis'']"
  let ?kvs = "map_entries ?names (phChecks ?r)"
  have "enc_publicHealth ?r \<noteq> None"
    using enc_Info_Some [of "phBuild ?r"] by (simp add: enc_publicHealth_def enc_obj_None enc_entries_None enc_string_def)
  then obtain j where j: "enc_publicHealth ?r = Some j" by blast
  have out: "code = fst (Health build left h)" "body = json_print j @ [CHR 0x0A]"
    using assms(1) j by (auto simp: public_health_def writeJSON_def split: prod.splits)
  have doc: "wf_json j" "jdepth j \<le> max_depth"
    using enc_obj_doc [OF j [unfolded enc_publicHealth_def], of 1]
    by (simp_all add: report_key_simps string_codec.doc_enc info_enc.doc_enc checks_codec.doc_enc max_depth_def)
  have st: "phStatus ?r \<in> {''ok'', ''degraded''}" "dom (phChecks ?r) \<subseteq> set ?names"
    by (auto simp: Health_def lagStatus_def Let_def split: option.splits if_splits)
  then have u: "utf8_valid (phStatus ?r)" by (auto intro!: ascii_valid)
  have "utf8_valid ''kafka_consumer_lag''" "utf8_valid ''redis''" by (rule ascii_valid, code_simp)+
  moreover have "utf8_valid v" if "phChecks ?r k = Some v" for k v using assms(2) that by (meson ranI)
  ultimately have kvs: "list_all (\<lambda>(k, v). utf8_valid k \<and> utf8_valid v) ?kvs"
    by (auto simp: list_all_iff map_entries_iff)
  have "dec_struct [''status'', ''checks''] store_probe \<lparr>pbStatus = [], pbChecks = Map.empty\<rparr> j
      = Some \<lparr>pbStatus = phStatus ?r, pbChecks = map_of (rev ?kvs)\<rparr>"
    by (rule probe_reads [OF _ _ u kvs, where post = "[]" and
          pre = "[(''service'', enc_string (phService ?r)), (''build'', enc_Info (phBuild ?r))]"])
       (use j in \<open>simp_all add: enc_publicHealth_def\<close>)
  then show ?thesis
    using json_parse_line [OF doc] map_of_entries [OF st(2)] by (simp add: read_probe_def out)
qed

text \<open>The body of an error reads back as an object with the message.\<close>

lemma error_body: "json_parse (snd (writeError st m)) = Some (JObj [(''error'', JStr (quote m))])"
proof -
  have j: "enc_error m = Some (JObj [(''error'', JStr (quote m))])" by (simp add: enc_error_def enc_obj_def enc_string_def)
  have k: "doc_member 0 (''error'', enc_string m)"
    using string_codec.doc_enc by (simp add: report_key_simps)
  have "wf_json (JObj [(''error'', JStr (quote m))])" "jdepth (JObj [(''error'', JStr (quote m))]) \<le> max_depth"
    using enc_obj_doc [OF j [unfolded enc_error_def], of 0] k by (simp_all add: max_depth_def)
  from json_parse_line [OF this] show ?thesis by (simp only: writeError_def writeJSON_def j option.case snd_conv)
qed

section \<open>Properties\<close>

text \<open>C35. The ops health report as it goes over the wire: when the details encode and names and error
  texts are UTF-8, the body is one line of JSON, and a prober that unmarshals it reads status
  \<open>ok\<close> with code 200 exactly when every registered check passed, \<open>degraded\<close> with 503 otherwise, and
  exactly the map of verdicts of the registered checks; the details beside them do not disturb it.\<close>

theorem ops_health_reads_back:
  assumes "ops_health build left reg = (code, body)"
    and "\<forall>c \<in> set (checkers reg). \<forall>d. cDetails c = Some d \<longrightarrow> enc_details d \<noteq> None"
    and "\<forall>c \<in> set (checkers reg). utf8_valid (cName c) \<and> utf8_valid (verdict (cCheck c (check_budget left)))"
  shows "let up = (\<forall>c \<in> set (checkers reg). cCheck c (check_budget left) = None)
         in code = (if up then 200 else 503) \<and>
            read_probe body = Some \<lparr>pbStatus = (if up then ''ok'' else ''degraded''),
              pbChecks = map_of (rev (map (\<lambda>c. (cName c, verdict (cCheck c (check_budget left)))) (checkers reg)))\<rparr>"
proof -
  let ?names = "map cName (health_snapshot reg)" and ?r = "snd (handleHealth build left reg)"
  let ?up = "\<forall>c \<in> set (checkers reg). cCheck c (check_budget left) = None"
  obtain j where j: "enc_healthResponse ?names ?r = Some j" using ops_report_encodes [OF assms(2)] by blast
  have out: "code = fst (handleHealth build left reg)" "body = json_print j @ [CHR 0x0A]"
    using assms(1) j by (auto simp: ops_health_def writeJSON_def split: prod.splits)
  have st: "hStatus ?r = (if ?up then ''ok'' else ''degraded'')"
    by (auto simp: handleHealth_def Let_def hStatus_reports runChecks_def health_snapshot_def)
  let ?kvs = "map_entries ?names (hChecks ?r)"
  have kvs: "list_all (\<lambda>(k, v). utf8_valid k \<and> utf8_valid v) ?kvs"
    using assms(3) by (auto simp: list_all_iff map_entries_iff handleHealth_checks dest!: map_of_SomeD)
  have "utf8_valid (hStatus ?r)" unfolding st by (auto intro!: ascii_valid)
  then have "dec_struct [''status'', ''checks''] store_probe \<lparr>pbStatus = [], pbChecks = Map.empty\<rparr> j
      = Some \<lparr>pbStatus = hStatus ?r, pbChecks = map_of (rev ?kvs)\<rparr>"
    by (intro probe_reads [OF _ _ _ kvs, where pre = "[(''build'', enc_Info build)]"
          and post = "let details = (case hDetails ?r of None \<Rightarrow> [] | Some m \<Rightarrow> map_entries ?names m)
                      in unless (details = []) (''details'', enc_entries enc_details details)"])
       (use j in \<open>simp_all add: enc_healthResponse_def Let_def handleHealth_fields unless_def\<close>)
  then have "read_probe body = Some \<lparr>pbStatus = hStatus ?r, pbChecks = hChecks ?r\<rparr>"
    using json_parse_line [OF enc_healthResponse_doc [OF j]] map_of_entries [OF handleHealth_dom [of build left reg]]
    by (simp add: read_probe_def out(2))
  then show ?thesis by (simp add: out(1) handleHealth_code st Let_def handleHealth_checks)
qed

theorem ops_health_reads_back_witness:
  "let reg = \<lparr>checkers = [\<lparr>cName = ''kafka_consumer_lag'', cCheck = (\<lambda>_. None), cTime = (\<lambda>_. 0), cDetails = Some [''total'' \<mapsto> DInt 5]\<rparr>,
                          CheckerFunc ''redis'' (\<lambda>_. Some (Errorf ''refused'')) (\<lambda>_. 0)]\<rparr>
   in fst (ops_health GetInfo None reg) = 503 \<and>
      read_probe (snd (ops_health GetInfo None reg)) =
        Some \<lparr>pbStatus = ''degraded'', pbChecks = [''redis'' \<mapsto> ''refused'', ''kafka_consumer_lag'' \<mapsto> ''ok'']\<rparr>"
proof -
  let ?reg = "\<lparr>checkers = [\<lparr>cName = ''kafka_consumer_lag'', cCheck = (\<lambda>_. None), cTime = (\<lambda>_. 0), cDetails = Some [''total'' \<mapsto> DInt 5]\<rparr>,
                          CheckerFunc ''redis'' (\<lambda>_. Some (Errorf ''refused'')) (\<lambda>_. 0)]\<rparr>"
  have "enc_details [''total'' \<mapsto> DInt 5] \<noteq> None"
    by (auto simp: enc_details_def enc_entries_None map_entries_iff split: if_splits)
  moreover have "utf8_valid ''kafka_consumer_lag''" "utf8_valid ''redis''" "utf8_valid ''ok''" "utf8_valid ''refused''"
    by (rule ascii_valid, code_simp)+
  ultimately show ?thesis
    using ops_health_reads_back [of GetInfo None ?reg "fst (ops_health GetInfo None ?reg)" "snd (ops_health GetInfo None ?reg)"]
    by (simp add: Let_def CheckerFunc_def verdict_def fun_upd_twist)
qed

text \<open>C32. The answers of the two read endpoints. The status is 400 exactly for a symbol that is blank
  after trimming; otherwise it is 404 exactly when Redis has no value under the key of the
  upper-cased symbol, 503 exactly on every other Redis error, 500 exactly when the cached bytes do
  not decode, and 200 exactly when they do. An answer other than 200 has as its body a JSON
  object with the one member \<open>error\<close>. Requests whose symbols normalise to the same text get the
  same answer.\<close>

theorem read_statuses:
  "(fst (LatestTrade U r p) = 400 \<longleftrightarrow> normalizeSymbol U p = []) \<and>
   (fst (OrderBook_handler U r p) = 400 \<longleftrightarrow> normalizeSymbol U p = []) \<and>
   (normalizeSymbol U p \<noteq> [] \<longrightarrow>
      (fst (LatestTrade U r p) = 404 \<longleftrightarrow>
         (\<exists>e. rGet r (KeyLatestTrade (normalizeSymbol U p)) = Inl e \<and> errors_Is (Some e) RedisNil)) \<and>
      (fst (LatestTrade U r p) = 503 \<longleftrightarrow>
         (\<exists>e. rGet r (KeyLatestTrade (normalizeSymbol U p)) = Inl e \<and> \<not> errors_Is (Some e) RedisNil)) \<and>
      (fst (LatestTrade U r p) = 500 \<longleftrightarrow>
         (\<exists>raw. rGet r (KeyLatestTrade (normalizeSymbol U p)) = Inr raw \<and> unmarshal_trade raw = None)) \<and>
      (fst (LatestTrade U r p) = 200 \<longleftrightarrow>
         (\<exists>raw e. rGet r (KeyLatestTrade (normalizeSymbol U p)) = Inr raw \<and> unmarshal_trade raw = Some e)) \<and>
      (fst (OrderBook_handler U r p) = 404 \<longleftrightarrow>
         (\<exists>e. rGet r (KeyOrderBook (normalizeSymbol U p)) = Inl e \<and> errors_Is (Some e) RedisNil)) \<and>
      (fst (OrderBook_handler U r p) = 503 \<longleftrightarrow>
         (\<exists>e. rGet r (KeyOrderBook (normalizeSymbol U p)) = Inl e \<and> \<not> errors_Is (Some e) RedisNil)) \<and>
      (fst (OrderBook_handler U r p) = 500 \<longleftrightarrow>
         (\<exists>raw. rGet r (KeyOrderBook (normalizeSymbol U p)) = Inr raw \<and> unmarshal_book raw = None)) \<and>
      (fst (OrderBook_handler U r p) = 200 \<longleftrightarrow>
         (\<exists>raw b. rGet r (KeyOrderBook (normalizeSymbol U p)) = Inr raw \<and> unmarshal_book raw = Some b))) \<and>
   (\<forall>answer \<in> {LatestTrade U r p, OrderBook_handler U r p}. fst answer \<noteq> 200 \<longrightarrow>
      (\<exists>message. json_parse (snd answer) = Some (JObj [(''error'', JStr (quote message))]))) \<and>
   (normalizeSymbol U p = normalizeSymbol U q \<longrightarrow>
      LatestTrade U r p = LatestTrade U r q \<and> OrderBook_handler U r p = OrderBook_handler U r q)"
  using error_body
  by (auto simp: LatestTrade_def OrderBook_handler_def Let_def split: sum.split option.split)

theorem read_statuses_witness:
  "fst (LatestTrade ascii_tables \<lparr>rGet = \<lambda>k. Inl (Sentinel RedisNil), rdPing = (\<lambda>_. None)\<rparr> '' btcusdt'') = 404 \<and>
   fst (LatestTrade ascii_tables \<lparr>rGet = \<lambda>k. Inl (Errorf ''timeout''), rdPing = (\<lambda>_. None)\<rparr> '' btcusdt'') = 503 \<and>
   fst (LatestTrade ascii_tables \<lparr>rGet = \<lambda>k. Inr ''{'', rdPing = (\<lambda>_. None)\<rparr> '' btcusdt'') = 500"
proof -
  have n: "normalizeSymbol ascii_tables '' btcusdt'' = ''BTCUSDT''" by code_simp
  have u: "unmarshal_trade ''{'' = None" by code_simp
  show ?thesis
    using read_statuses [of ascii_tables "\<lparr>rGet = \<lambda>k. Inl (Sentinel RedisNil), rdPing = (\<lambda>_. None)\<rparr>" "'' btcusdt''" "[]"]
      read_statuses [of ascii_tables "\<lparr>rGet = \<lambda>k. Inl (Errorf ''timeout''), rdPing = (\<lambda>_. None)\<rparr>" "'' btcusdt''" "[]"]
      read_statuses [of ascii_tables "\<lparr>rGet = \<lambda>k. Inr ''{'', rdPing = (\<lambda>_. None)\<rparr>" "'' btcusdt''" "[]"]
    by (simp add: n u)
qed

end
