(* ===== verification/Services.thy ===== *)
theory Services
  imports Pipeline Api Ingestion Config
begin

text \<open>
  The services as processes: the checkers processor-service registers and its \<open>Run\<close> up to the
  goroutines (\<open>services/processor-service/internal/service.go\<close>), the logger's settings
  (\<open>shared/log\<close>), and the \<open>main\<close> of each service (\<open>services/*/cmd/main.go\<close>), which loads the
  configuration, runs the ops server beside the service and turns the result into an exit code.
  The lemmas show what each service's readiness report says about its dependencies and when a
  process exits with which code.
\<close>

section \<open>processor-service\<close>

text \<open>A checker's context carries the budget the ops server gives it, so there is a deadline.\<close>

definition consumer_checker :: "(duration \<Rightarrow> int) \<Rightarrow> (duration \<Rightarrow> goerror option) \<Rightarrow> 'd checker" where
  "consumer_checker tm ping = CheckerFunc ''kafka_consumer'' (\<lambda>b. Consumer_Check (Some b) ping) tm"

definition writer_checker :: "'r redis_client \<Rightarrow> (duration \<Rightarrow> int) \<Rightarrow> 'r \<Rightarrow> 'd checker" where
  "writer_checker client tm r = CheckerFunc ''redis'' (RedisWriter_Check client r) tm"

text \<open>\<open>Run\<close>: both clients must be built, each registers its checker when it exists, and the group's
  results decide.\<close>

definition processor_Run ::
  "goerror + 'c \<Rightarrow> (string \<Rightarrow> 'w) \<Rightarrow> ('c \<Rightarrow> 'd checker) \<Rightarrow> ('w \<Rightarrow> 'd checker) \<Rightarrow> goerror option list \<Rightarrow>
   Config \<Rightarrow> ('d, 'h) Server \<Rightarrow> ('d, 'h) Server \<times> goerror option \<times> action list" where
  "processor_Run new_consumer new_redis cchk wchk results cfg ops =
     (case NewConsumer (Brokers (Kafka cfg)) new_consumer of
        Inl e \<Rightarrow> (ops, Some (Wrapf ''kafka consumer: '' e), [])
      | Inr c \<Rightarrow>
          (let ops1 = RegisterChecker (cchk c) ops
           in case NewRedisWriter (RedisAddr (Redis cfg)) new_redis of
                Inl e \<Rightarrow> (ops1, Some (Wrapf ''redis writer '' e), [Acquire ConsumerClient, Release ConsumerClient])
              | Inr w \<Rightarrow> (RegisterChecker (wchk w) ops1, g_Wait results,
                  [Acquire ConsumerClient, Acquire RedisConn, RunGroup, Release RedisConn, Release ConsumerClient])))"

section \<open>The logger\<close>

text \<open>\<open>parse\<close> is the log library's reading of a level; \<open>info\<close> its default.\<close>

record 'l logger =
  logLevel :: 'l
  logConsole :: bool
  logService :: string

definition log_New :: "(string \<Rightarrow> goerror + 'l) \<Rightarrow> 'l \<Rightarrow> string \<Rightarrow> string \<Rightarrow> string \<Rightarrow> 'l logger" where
  "log_New parse info serviceName env level =
     (let lvl = (case parse level of Inl e \<Rightarrow> info | Inr l \<Rightarrow> l)
      in \<lparr>logLevel = lvl, logConsole = (env \<noteq> ''prod''), logService = serviceName\<rparr>)"

section \<open>The processes\<close>

text \<open>What the ops server and the service return, and which of them returned first.\<close>

record outcome =
  o_ops :: "goerror option"
  o_svc :: "goerror option"
  o_svc_first :: bool

definition results_of :: "outcome \<Rightarrow> goerror option list" where
  "results_of oc = (if o_svc_first oc then [o_svc oc, o_ops oc] else [o_ops oc, o_svc oc])"

text \<open>The body all mains share: the outcome may depend on the configuration, \<open>ctx\<close> is the signal
  context when the components have returned.\<close>

definition service_main :: "string \<Rightarrow> 'v viper \<Rightarrow> (Config \<Rightarrow> outcome) \<Rightarrow> ctx \<Rightarrow> nat" where
  "service_main name V run ctx = main_exit (Load V name) (\<lambda>cfg. runtime_Run (results_of (run cfg)) ctx)"

definition analytics_Run :: "ctx \<Rightarrow> goerror option list" where
  "analytics_Run = skeleton_Run"

definition notification_Run :: "ctx \<Rightarrow> goerror option list" where
  "notification_Run ctx = done_case ctx (\<lambda>_. None)"

definition api_main :: "'v viper \<Rightarrow> (Config \<Rightarrow> outcome) \<Rightarrow> ctx \<Rightarrow> nat" where
  "api_main = service_main ''api-service''"

definition analytics_main :: "'v viper \<Rightarrow> (Config \<Rightarrow> outcome) \<Rightarrow> ctx \<Rightarrow> nat" where
  "analytics_main = service_main ''analytics-service''"

definition fx_main :: "'v viper \<Rightarrow> (Config \<Rightarrow> outcome) \<Rightarrow> ctx \<Rightarrow> nat" where
  "fx_main = service_main ''fx-rate-service''"

definition ingestion_main :: "'v viper \<Rightarrow> (Config \<Rightarrow> outcome) \<Rightarrow> ctx \<Rightarrow> nat" where
  "ingestion_main = service_main ''ingestion-service''"

definition notification_main :: "'v viper \<Rightarrow> (Config \<Rightarrow> outcome) \<Rightarrow> ctx \<Rightarrow> nat" where
  "notification_main = service_main ''notification-service''"

definition processor_main :: "'v viper \<Rightarrow> (Config \<Rightarrow> outcome) \<Rightarrow> ctx \<Rightarrow> nat" where
  "processor_main = service_main ''processor-service''"

section \<open>Lemmas\<close>

interpretation consumer_health: health_checker "consumer_checker tm"
  "\<lambda>ping b. 0 < sint (ping_timeout (Some b)) \<and> ping (ping_timeout (Some b)) = None" for tm
  by unfold_locales
    (auto simp: consumer_checker_def CheckerFunc_def Consumer_Check_def Let_def word_sle_eq split: option.split)

interpretation writer_health: health_checker "writer_checker client tm" "\<lambda>r b. rPing client r b = None" for client tm
  by unfold_locales (simp add: writer_checker_def CheckerFunc_def RedisWriter_Check_def split: option.split)

lemma service_main_code:
  "service_main name V run ctx =
     (case Load V name of
        Inl e \<Rightarrow> 1
      | Inr cfg \<Rightarrow> (if ctx = None \<and> (o_ops (run cfg) \<noteq> None \<or> o_svc (run cfg) \<noteq> None) then 1 else 0))"
  by (auto simp: service_main_def main_exit_def runtime_Run_def results_of_def g_Wait_def split: sum.split option.split)

lemma skeleton_outcome:
  assumes "o_ops oc \<in> set (ops_Start listened gctx shutdown)" "o_svc oc \<in> set (analytics_Run gctx)"
    and "Load V ''analytics-service'' = Inr cfg"
  shows "analytics_main V (\<lambda>_. oc) ctx = (if ctx = None \<and> o_ops oc \<noteq> None then 1 else 0)"
  using assms(2,3)
  by (auto simp: analytics_main_def service_main_code analytics_Run_def skeleton_Run_def done_case_def
      split: option.splits)

lemma processor_Run_registers:
  assumes "processor_Run new_consumer new_redis cchk wchk results cfg ops = (ops', err, tr)"
    and "NewConsumer (Brokers (Kafka cfg)) new_consumer = Inr c"
    and "NewRedisWriter (RedisAddr (Redis cfg)) new_redis = Inr w"
  shows "srvHealth ops' = health_add (wchk w) (health_add (cchk c) (srvHealth ops))" "err = g_Wait results"
  using assms by (auto simp: processor_Run_def Let_def RegisterChecker_def)

text \<open>Every exit path of every \<open>Run\<close> has released exactly what it acquired, in reverse order, and the
  group runs only while its clients are held.\<close>

lemma runs_release:
  "processor_Run new_consumer new_redis cchk wchk results cfg ops = (ops1, err1, tr1) \<Longrightarrow> held tr1 [] = Some []"
  "api_Run new_client dial addr brokers iv rchk lchk group_results ops2 = (ops3, err2, tr2) \<Longrightarrow> held tr2 [] = Some []"
  "ingestion_Run symbols mk_pub checker worker_results reg = (reg', err3, tr3) \<Longrightarrow> held tr3 [] = Some []"
  by (auto simp: processor_Run_def api_Run_def ingestion_Run_def startLagCache_def NewLagReader_def LagReader_Close_def Let_def
      split: sum.splits if_splits)

section \<open>Properties\<close>

text \<open>C37. Readiness of processor-service: once both clients are built, the ops server of a fresh process
  answers 200 exactly if the broker answers a ping within the positive part of the check's budget,
  which is at most two seconds, and Redis answers its ping within the budget; the report names both dependencies
  with their own verdicts and nothing else. A client that cannot be built ends \<open>Run\<close> with an error.\<close>

theorem processor_readiness:
  assumes "processor_Run new_consumer new_redis (consumer_checker tm) (writer_checker client tm') results cfg
             (server_New addr) = (ops, err, tr)"
  shows "(Brokers (Kafka cfg) = [] \<or> isl new_consumer \<or> RedisAddr (Redis cfg) = [] \<longrightarrow> err \<noteq> None) \<and>
    (\<forall>ping. Brokers (Kafka cfg) \<noteq> [] \<and> new_consumer = Inr ping \<and> RedisAddr (Redis cfg) \<noteq> [] \<longrightarrow>
      (let b = check_budget left; t = ping_timeout (Some b); r = new_redis (RedisAddr (Redis cfg));
           report = handleHealth build left (srvHealth ops)
       in sint t \<le> 2000000000 \<and>
          fst report = (if 0 <s t \<and> ping t = None \<and> rPing client r b = None then 200 else 503) \<and>
          hChecks (snd report) =
            [''kafka_consumer'' \<mapsto> verdict (Consumer_Check (Some b) ping),
             ''redis'' \<mapsto> verdict (RedisWriter_Check client r b)]))"
proof (intro conjI impI allI)
  assume "Brokers (Kafka cfg) = [] \<or> isl new_consumer \<or> RedisAddr (Redis cfg) = []"
  then show "err \<noteq> None"
    using assms by (auto simp: processor_Run_def NewConsumer_def NewRedisWriter_def Let_def isl_def split: sum.splits if_splits)
next
  fix ping assume ok: "Brokers (Kafka cfg) \<noteq> [] \<and> new_consumer = Inr ping \<and> RedisAddr (Redis cfg) \<noteq> []"
  let ?b = "check_budget left" and ?r = "new_redis (RedisAddr (Redis cfg))"
  have reg: "srvHealth ops = health_add (writer_checker client tm' ?r) (health_add (consumer_checker tm ping) \<lparr>checkers = []\<rparr>)"
    using ok processor_Run_registers(1) [OF assms, of ping ?r] by (simp add: NewConsumer_def NewRedisWriter_def server_New_def)
  have "sint (ping_timeout (Some ?b)) \<le> 2000000000"
    by (simp add: ping_timeout_def word_sless_alt sint_metadataTimeout)
  moreover have "fst (handleHealth build left (srvHealth ops)) =
      (if 0 <s ping_timeout (Some ?b) \<and> ping (ping_timeout (Some ?b)) = None \<and> rPing client ?r ?b = None then 200 else 503)"
    by (simp add: reg consumer_health.registered_report writer_health.registered_report fresh_report word_sless_alt)
  moreover have "hChecks (snd (handleHealth build left (srvHealth ops))) =
      [''kafka_consumer'' \<mapsto> verdict (Consumer_Check (Some ?b) ping), ''redis'' \<mapsto> verdict (RedisWriter_Check client ?r ?b)]"
    by (simp add: reg handleHealth_checks health_add_def server_New_def consumer_checker_def writer_checker_def CheckerFunc_def fun_upd_twist)
  ultimately show "let b = check_budget left; t = ping_timeout (Some b); r = new_redis (RedisAddr (Redis cfg));
           report = handleHealth build left (srvHealth ops)
       in sint t \<le> 2000000000 \<and>
          fst report = (if 0 <s t \<and> ping t = None \<and> rPing client r b = None then 200 else 503) \<and>
          hChecks (snd report) =
            [''kafka_consumer'' \<mapsto> verdict (Consumer_Check (Some b) ping),
             ''redis'' \<mapsto> verdict (RedisWriter_Check client r b)]"
    by (simp add: Let_def)
qed

text \<open>The built-in configuration, with a broker that answers and with one that does not.\<close>

theorem processor_readiness_witness:
  "let cfg = decode_config (map_of config_defaults);
       run = (\<lambda>ping. fst (processor_Run (Inr ping) (\<lambda>_. mem0) (consumer_checker (\<lambda>_. 0))
         (writer_checker (mem_client {} (Errorf [])) (\<lambda>_. 0)) [None] cfg (server_New '':8080'' :: (unit, unit) Server)))
   in fst (handleHealth GetInfo None (srvHealth (run (\<lambda>t. None)))) = 200 \<and>
      fst (handleHealth GetInfo None (srvHealth (run (\<lambda>t. Some (Errorf ''refused''))))) = 503"
proof -
  let ?cfg = "decode_config (map_of config_defaults)" and ?srv = "server_New '':8080'' :: (unit, unit) Server"
  let ?run = "\<lambda>ping. processor_Run (Inr ping) (\<lambda>_. mem0) (consumer_checker (\<lambda>_. 0))
         (writer_checker (mem_client {} (Errorf [])) (\<lambda>_. 0)) [None] ?cfg ?srv"
  have cfg: "Brokers (Kafka ?cfg) \<noteq> []" "RedisAddr (Redis ?cfg) \<noteq> []"
    by (simp_all add: decode_config_def config_defaults_def v_strs_def v_str_def)
  have t: "0 <s ping_timeout (Some (check_budget None))"
    by (simp add: ping_timeout_def check_budget_def with_timeout_def checkTimeout_def metadataTimeout_def word_sless_alt)
  have "fst (handleHealth GetInfo None (srvHealth (fst (?run ping)))) =
      (if ping (ping_timeout (Some (check_budget None))) = None then 200 else 503)" for ping
    using processor_readiness [of "Inr ping" "\<lambda>_. mem0" "\<lambda>_. 0" "mem_client {} (Errorf [])" "\<lambda>_. 0" "[None]" ?cfg
        "'':8080''" "fst (?run ping)" "fst (snd (?run ping))" "snd (snd (?run ping))" None GetInfo] cfg t
    by (simp add: Let_def mem_client_def)
  then show ?thesis by (simp add: Let_def)
qed

end
