(* ===== verification/Spec2Isabelle.thy ===== *)
theory Spec2Isabelle
  imports System Reports Services
begin

text \<open>
  TradePulse: a verification development for the Go services under \<open>src/\<close>.

  \<^bold>\<open>The program.\<close> TradePulse moves crypto trades from an exchange to its readers.
  ingestion-service keeps one WebSocket per symbol, validates each message and produces a trade
  event to the Kafka topic \<open>trades.raw\<close>. processor-service consumes the topic, hands each trade to
  a worker pool, enriches it and fans it out to three sinks: the order-book store, the Redis
  writer and a broadcaster. api-service serves the cached trade and book and a health report
  with the consumer group's lag. fx-rate-service polls exchange rates; analytics- and
  notification-service are skeletons. Shared packages hold the domain types, retry, the ops
  HTTP server, the lag reader and its cache, configuration and the component runner.

  \<^bold>\<open>Foundations.\<close> \<open>Prelude\<close> has Go errors with wrapping, contexts, 64-bit integers and durations,
  slices and the string functions in use. \<open>Float64\<close> is IEEE binary64 on bit patterns with rounding
  to nearest; \<open>Strconv\<close>, \<open>GoTime\<close> and \<open>Json\<close> are the text conversions of the standard library
  (\<open>ParseFloat\<close>, shortest decimals, RFC 3339, the JSON scanner and writer). \<open>Wire\<close> derives the JSON
  forms of the domain structs from their tags, with the way \<open>encoding/json\<close> matches keys, omits
  empty members and fails. \<open>Chan\<close> has buffered channels and \<open>select\<close>, with the locale
  \<open>bounded_fifo\<close>.

  \<^bold>\<open>Components.\<close>
  \<^item> \<open>Domain\<close>: \<open>shared/domain\<close>; value types, best bid and ask, FX lookup, keys and names.
  \<^item> \<open>OrderBooks\<close>, \<open>Enrich\<close>, \<open>Fan_Out\<close>, \<open>Consumer\<close>, \<open>RedisWriter\<close>, \<open>Pool\<close>: one theory per file group of
    \<open>services/processor-service/internal\<close>, one definition per function under the function's name.
    Blocking operations are the lists of their ready select cases.
  \<^item> \<open>Processor\<close>, \<open>Pipeline\<close>: \<open>service.go\<close>; the goroutines of \<open>Run\<close> as a step relation \<open>proc_step\<close> over
    the shared channels, with cancellation. The Redis writer's receive and its write are two steps.
  \<^item> \<open>Retry\<close>: \<open>shared/retry\<close>, the backoff with its wrap-around and the reconnect loop, with the locale
    \<open>delay_policy\<close>.
  \<^item> \<open>KafkaLag\<close>: \<open>shared/kafka\<close>, reading consumer lag and the serve-stale cache.
  \<^item> \<open>HttpServer\<close>: \<open>shared/httpserver\<close>, \<open>shared/runtime\<close>, \<open>shared/version\<close>, with the locale \<open>health_checker\<close>,
    which the checkers of api-, ingestion- and processor-service interpret.
  \<^item> \<open>Api\<close>: \<open>services/api-service\<close>, handlers down to body bytes, public health, server, wiring, and the
    errgroup of \<open>Run\<close> with its derived context as a step relation \<open>api_step\<close>.
  \<^item> \<open>Ingestion\<close>: \<open>services/ingestion-service\<close>, normaliser, producer bookkeeping, connection health,
    a WebSocket session, reconnecting, wiring.
  \<^item> \<open>Workers\<close>: the goroutines of ingestion-service as a step relation \<open>ing_step\<close>: one worker per symbol with its
    reconnect loop, the watcher of each connection, read deadlines and the ping and pong handlers,
    the handling of a message, which waits while the producer's buffer is full, time, cancellation
    and delivery callbacks.
  \<^item> \<open>Reports\<close>: the JSON bytes of the ops and public health reports, with the lag cache's details, and the
    public server (\<open>NewPublicServer\<close>) with the handler each route leads to.
  \<^item> \<open>Config\<close>: \<open>shared/config\<close>, fx-rate-service, the skeleton services and the exit code of a main.
  \<^item> \<open>Services\<close>: the processes; the clients and checkers of processor-service's \<open>Run\<close>, the logger's
    settings (\<open>shared/log\<close>) and the \<open>main\<close> of each service (\<open>services/*/cmd/main.go\<close>).
  \<^item> \<open>System\<close>: ingestion-service and processor-service as one interleaving system \<open>sys_step\<close>, joined by
    the raw trades topic and read by api-service through the cache. It has no code of its own: its
    steps are those of \<open>ing_step\<close> and \<open>proc_step\<close>, and a poll returns what the topic may deliver.

  \<^bold>\<open>What is proved.\<close>
  \<^item> Round trips (\<open>Digits\<close>, \<open>FloatText\<close>, \<open>TimeText\<close>, \<open>JsonText\<close>, \<open>JsonParsed\<close>, \<open>WireText\<close>): decimal digits,
    shortest floats, the calendar and RFC 3339, UTF-8 strings with every escape, whole documents,
    and through the locales \<open>json_enc\<close> and \<open>json_codec\<close> trade events, order books and (\<open>Reports\<close>) the health
    report as a prober reads it.
  \<^item> The whole system (\<open>System\<close>), for every schedule of all goroutines and a topic that may redeliver: each
    sink holds no trade more often than the topic delivered it, every trade delivered was sent by the
    exchange, and once everything produced is delivered and the pipeline is quiet each sink has
    handled every trade at least once; without redelivery none more often than it was sent. With
    one pool worker each sink keeps the order of delivery, and under the conditions named there the
    exchange's order, and the API serves the newest trade. Whatever the topic repeats and whichever
    cache writes fail, what the API serves was sent by the exchange.
  \<^item> End to end (\<open>EndToEnd\<close> and this theory): what ingestion publishes the consumer decodes unchanged,
    and in every reachable state of ingestion-service a worker's records are its valid trades in order;
    what the Redis writer stores the handlers serve; in every reachable state of the pipeline the
    cache holds the last trade the writer saw.
  \<^item> Ingestion (\<open>Workers\<close>), by rule induction for every schedule: the health report is true to the
    workers' connections, a read waits at most a minute without control frames, backoff timers are
    bounded, nothing panics, and after cancellation every goroutine winds down, except a worker that
    is inside \<open>Produce\<close> on a full buffer, which only a reported delivery releases.
  \<^item> The pipeline (\<open>Processor\<close>, \<open>Pipeline\<close>), by rule induction for every schedule: a ledger of each trade
    at each sink, bounded buffers, progress until drained, termination of shutdown, order with
    one worker; and two schedules that show what is not guaranteed. \<open>Typed\<close>: every trade inside has
    UTF-8 text and finite amounts, whatever the topic holds.
  \<^item> Components: the order book as the last trade of each side, the fan-out's outcomes, the writer's
    keys and partial failures, marks of the consumer, closed form and bounds of the backoff, the
    lag reading independent of map order, the cache's last good reading and its check, health
    reports of the ops servers with what each service registers, validation and error paths of ingestion, statuses of the read endpoints.
  \<^item> Findings: a swallowed listen error, commits before handling, reordering by workers, NaN and infinite
    prices, a non-atomic \<open>Apply\<close>, a read deadline that data does not move, a \<open>Produce\<close> that cancellation
    does not release; each has a theorem that exhibits it.

  \<^bold>\<open>Bounds and fuel.\<close> The JSON scanner has fuel \<open>2 * length + 1\<close>; \<open>print_reads_back\<close> shows that the
  length of the text suffices for everything the writer produces, and the nesting limit of 10000
  is the library's. Every other recursion is structural or has a termination proof. The attempt
  counter of the backoff is a natural number (Go's \<open>int\<close> would need centuries to wrap). Instants
  are nanoseconds since the epoch, without their zone. \<open>Write\<close> (after its trade was received) and \<open>Apply\<close>
  are single steps of their goroutine in \<open>proc_step\<close>: no other goroutine of the processor touches the
  cache; the halves of \<open>Apply\<close> are interleaved in \<open>OrderBooks\<close>.

  \<^bold>\<open>Parameters.\<close> Code outside the repository is an argument: the Kafka clients (polls, delivery
  results, the size of the producer's buffer, admin answers), the Redis client with the law \<open>redis_laws\<close>, where failures
  matter with \<open>set_all_or_nothing\<close> or \<open>sets_succeed\<close> (a SET may fail for any reason, a done context included),
  the topic between the services (what a poll may return, with the one law \<open>from_producer\<close>: it invents nothing;
  redelivery and order are predicates on the state that theorems name), the configuration library,
  the router's matching (\<open>chi_law\<close>), the WebSocket connection (its read results in \<open>Ingestion\<close>; in \<open>Workers\<close> what a
  read can meet, how long it can block and what it has read ahead, with the laws \<open>ws_library\<close>), the random source, clocks,
  Unicode tables beyond ASCII, and the text of JSON syntax errors.

  \<^bold>\<open>Not modelled.\<close> A restart of the processor within one run of \<open>System\<close>: offsets are committed by the
  client library, and \<open>Pipeline\<close> shows what a stop leaves behind. Log lines, metrics, signal handling and
  the time a dial takes: I/O with no effect on the states modelled here. The deferred \<open>Close\<close> calls of
  each \<open>Run\<close> appear as a trace of acquired and released clients (\<open>runs_release\<close>); what closing does is
  library code.
\<close>

section \<open>Properties that span services\<close>

text \<open>C9. From the exchange to the processor: every trade the normaliser accepts and \<open>Publish\<close>
  sends is decoded by the consumer to the very same event, at whatever place of the topic it is
  delivered, and handed to the handler; the record is marked exactly if the handler succeeds.\<close>

theorem published_trade_consumed:
  assumes "normalizeTrade U jerr raw t = Inr e" "Publisher_Publish e buf = (buf', None)"
  shows "\<exists>p. buf' = buf @ [p] \<and> PTopic p = TopicTradesRaw \<and> PKey p = Symbol e \<and>
    (\<forall>part off. dispatch h (delivered p part off) (st, ms) =
       (fst (h e st), if snd (h e st) = None then ms @ [delivered p part off] else ms))"
proof -
  obtain s where s: "marshal_trade e = Some s"
      "buf' = buf @ [\<lparr>PTopic = TopicTradesRaw, PKey = Symbol e, PValue = s, PTimestamp = EventTime e\<rparr>]"
    using assms(2) by (auto simp: Publisher_Publish_def json_Marshal_trade_def split: option.splits)
  have "unmarshal_trade s = Some e"
    using unmarshal_wire_trade [OF normalizeTrade_text(1) [OF assms(1)] s(1)] normalizeTrade_text(2) [OF assms(1)] by simp
  then show ?thesis using s(2) by (auto simp: dispatch_def delivered_def split: prod.split option.split)
qed

theorem published_trade_consumed_witness:
  "\<exists>p buf. Publisher_Publish sample_event [] = (buf, None) \<and> buf = [p] \<and>
     dispatch (\<lambda>e seen. (seen @ [e], None)) (delivered p 0 7) ([], []) = ([sample_event], [delivered p 0 7])"
proof -
  obtain buf where b: "Publisher_Publish sample_event [] = (buf, None)" using sample_published by blast
  from published_trade_consumed [OF sample_normalises(1) b, where h = "\<lambda>e seen. (seen @ [e], None)" and st = "[]" and ms = "[]"]
  show ?thesis using b by auto
qed

text \<open>C10. From the exchange to the processor, over all of ingestion-service: in every state its
  goroutines can reach, the consumer decodes the records one worker has produced, wherever in
  the topic they are delivered, to exactly the trades that worker accepted and that can be
  marshalled, in the order their messages were read and over all reconnects; each is keyed by
  its symbol on the raw trades topic.\<close>

theorem ingestion_topic_order:
  assumes "ing_reach U jerr env (ing_init U configured now) s" "ws_library env" "k < length (igWorkers s)"
  shows "let recs = sent_by k (shBuf (igShared s));
             es = filter trade_encodable (accepted U jerr (wkMsgs (igWorkers s ! k)))
         in decoded (map (\<lambda>p. delivered p (part p) (off p)) recs) = es \<and> map PKey recs = map Symbol es \<and>
            (\<forall>p \<in> set recs. PTopic p = TopicTradesRaw)"
  using produced_decoded [of "accepted U jerr (wkMsgs (igWorkers s ! k))" part off] accepted_wire workers_publish [OF assms]
  by (simp add: Let_def)

theorem ingestion_topic_order_witness:
  "\<exists>s. sample_reach s \<and> wkMsgs (igWorkers s ! 0) = [(sample_raw, 0)] \<and>
     map PKey (sent_by 0 (shBuf (igShared s))) = map Symbol (filter trade_encodable (accepted ascii_tables (\<lambda>_. Errorf []) [(sample_raw, 0)]))"
proof -
  obtain s where s: "sample_reach s" "0 < length (igWorkers s)" "wkMsgs (igWorkers s ! 0) = [(sample_raw, 0)]"
    by (rule sample_read)
  from ingestion_topic_order [OF s(1) sample_env_library s(2), where part = "\<lambda>_. 0" and off = "\<lambda>_. 0"] s(1,3)
  show ?thesis by (auto simp: Let_def)
qed

text \<open>C11. From the writer to the readers: after a write that reports success, a request to either read
  endpoint of the public server over the same Redis is routed to its handler and answered 200
  with that trade and with the response built from that book.\<close>

theorem written_trade_served:
  assumes "redis_laws client view" "Write client (Some bs) e r = (r', None)"
    and "Get bs (Symbol e) = (b, True)" "BookSymbol b = Symbol e" "trade_text e"
    and "reads_from rd (view r')" "normalizeSymbol U p = Symbol e" "Symbol e \<noteq> []"
    and "chi_law chi" "p \<noteq> []" "CHR ''/'' \<notin> set p" "CHR ''{'' \<notin> set p"
  shows "\<exists>tj bj. enc_tradeResponse \<lparr>trSymbol = Symbol e, trTrades = Some [e], trSource = ''redis''\<rparr> = Some tj \<and>
     psHandler (NewPublicServer chi U build addr rd h) left (''/api/v1/trades/'' @ p) = Some (200, json_print tj @ [CHR 0x0A]) \<and>
     enc_orderBookResponse (book_response b) = Some bj \<and>
     psHandler (NewPublicServer chi U build addr rd h) left (''/api/v1/orderbook/'' @ p) = Some (200, json_print bj @ [CHR 0x0A])"
proof -
  obtain t j where w: "marshal_trade e = Some t" "marshal_book b = Some j"
    "view r' (KeyLatestTrade (Symbol e)) = Some (ArgBytes t)" "view r' (KeyOrderBook (Symbol e)) = Some (ArgBytes j)"
    using Write_success [OF assms(1-3)] by auto
  have enc: "trade_encodable e" "book_encodable b" using w(1,2) marshal_trade_None [of e] marshal_book_None [of b] by auto
  have "utf8_valid (BookSymbol b)" using assms(4,5) by (simp add: trade_text_def)
  then show ?thesis
    using LatestTrade_served [OF assms(6) w(3,1) assms(5,7,8)] OrderBook_served [OF assms(6) w(4,2) _ assms(7,8)]
      public_requests(1,2) [OF assms(9-12)] enc_response_Some [OF enc(1), of "Symbol e" "''redis''"] enc_book_response_Some [OF enc(2)]
    by (auto simp: writeJSON_def)
qed

theorem written_trade_served_witness:
  "\<exists>m b1 b2. Write (mem_client {} (Errorf [])) (Some (Apply sample_trade NewOrderBookStore)) sample_trade mem0 = (m, None) \<and>
     psHandler (NewPublicServer segment_match ascii_tables GetInfo '':8080'' (mem_reader m) (NewHealthHandler (\<lambda>_. None) None)) None ''/api/v1/trades/btcusdt'' = Some (200, b1) \<and>
     psHandler (NewPublicServer segment_match ascii_tables GetInfo '':8080'' (mem_reader m) (NewHealthHandler (\<lambda>_. None) None)) None ''/api/v1/orderbook/btcusdt'' = Some (200, b2)"
proof -
  obtain m where w: "Write (mem_client {} (Errorf [])) (Some (Apply sample_trade NewOrderBookStore)) sample_trade mem0 = (m, None)"
    by (rule sample_written)
  have n: "normalizeSymbol ascii_tables ''btcusdt'' = ''BTCUSDT''" by code_simp
  show ?thesis
    using written_trade_served [OF mem_client_laws w, where U = ascii_tables and p = "''btcusdt''" and chi = segment_match
        and build = GetInfo and addr = "'':8080''" and h = "NewHealthHandler (\<lambda>_. None) None" and left = None]
      segment_match_law sample_book sample_trade_text mem_reader_reads [of m] n w by fastforce
qed

text \<open>C7. The cache of the running pipeline: in every state that processor-service can reach with a
  Redis that accepts its writes, a request for a symbol whose trades the writer has seen is
  answered 200 with the last of them that can be encoded, whatever the schedule of workers and
  sinks was.\<close>

theorem pipeline_serves_last_trade:
  assumes "redis_laws client view" "sets_succeed client" "proc_reach client (proc_init n m r) s"
    and "last_trade sb (rwSeen s) = Some e" "reads_from rd (view (redis s))"
    and "normalizeSymbol U p = sb" "sb \<noteq> []"
  shows "\<exists>tj. enc_tradeResponse \<lparr>trSymbol = sb, trTrades = Some [e], trSource = ''redis''\<rparr> = Some tj \<and>
     LatestTrade U rd p = (200, json_print tj @ [CHR 0x0A])"
  by (rule cache_serves [OF assms])

theorem pipeline_serves_last_trade_witness:
  "\<exists>s. proc_reach (mem_client {} (Errorf [])) (proc_init 4 0 mem0) s \<and>
     last_trade ''BTCUSDT'' (rwSeen s) = Some (enrich metadata btc1) \<and>
     fst (LatestTrade ascii_tables (mem_reader (redis s)) '' btcusdt'') = 200"
proof -
  obtain s where s: "proc_reach (mem_client {} (Errorf [])) (proc_init 4 0 mem0) s" "rwSeen s = [enrich metadata btc1]"
    using served_run [OF rec1_decodes, of 4 "mem_client {} (Errorf [])" 0 mem0] by auto
  have l: "last_trade ''BTCUSDT'' (rwSeen s) = Some (enrich metadata btc1)"
    using btc1_enriched s(2) by (simp add: last_trade_def)
  have n: "normalizeSymbol ascii_tables '' btcusdt'' = ''BTCUSDT''" by code_simp
  show ?thesis
    using pipeline_serves_last_trade [OF mem_client_laws mem_sets_succeed s(1) l mem_reader_reads n] s(1) l by auto
qed

end
